(* ===== verification/Prelude.thy ===== *)
theory Prelude
  imports Main "HOL-Library.Word"
begin

unbundle bit_operations_syntax

text \<open>
  Shared vocabulary of the development: the machine integers of the Rust code as words,
  its saturating and checked arithmetic, the error codes of \<^verbatim>\<open>error.rs\<close>, the
  \<^verbatim>\<open>Result\<close>-returning methods on \<^verbatim>\<open>&mut self\<close> as a state-and-error
  monad, slices of byte buffers, and the generic list and word lemmas the components use.
\<close>

section \<open>Machine integers\<close>

type_synonym u8 = "8 word"
type_synonym u16 = "16 word"
type_synonym u32 = "32 word"
type_synonym u64 = "64 word"
type_synonym usize = nat

named_theorems sat_simps \<open>unsigned values of the saturating operations\<close>

definition wrapping_add_usize :: "usize \<Rightarrow> usize \<Rightarrow> usize" where
  "wrapping_add_usize a b = (a + b) mod 2 ^ 64"

definition sat_add :: "'a::len word \<Rightarrow> 'a word \<Rightarrow> 'a word" where
  "sat_add a b = (if unat a + unat b < 2 ^ LENGTH('a) then a + b else - 1)"

definition sat_sub :: "'a::len word \<Rightarrow> 'a word \<Rightarrow> 'a word" where
  "sat_sub a b = (if b \<le> a then a - b else 0)"

definition sat_mul :: "'a::len word \<Rightarrow> 'a word \<Rightarrow> 'a word" where
  "sat_mul a b = (if unat a * unat b < 2 ^ LENGTH('a) then a * b else - 1)"

definition div_ceil :: "'a::len word \<Rightarrow> 'a word \<Rightarrow> 'a word" where
  "div_ceil a b = (if a mod b = 0 then a div b else a div b + 1)"

definition abs_diff :: "'a::len word \<Rightarrow> 'a word \<Rightarrow> 'a word" where
  "abs_diff a b = (if a < b then b - a else a - b)"

definition clamp_word :: "'a::len word \<Rightarrow> 'a word \<Rightarrow> 'a word \<Rightarrow> 'a word" where
  "clamp_word lo hi x = (if x < lo then lo else if hi < x then hi else x)"

text \<open>\<^verbatim>\<open>u32::try_from(x: u64)\<close>: \<open>None\<close> when the value does not fit.\<close>

definition u32_try_from :: "u64 \<Rightarrow> u32 option" where
  "u32_try_from x = (if unat x < 2 ^ 32 then Some (ucast x) else None)"

definition u32_of_bool :: "bool \<Rightarrow> u32" where
  "u32_of_bool b = (if b then 1 else 0)"

lemma unat_of_nat_small: "n < 2 ^ LENGTH('a) \<Longrightarrow> unat (of_nat n :: 'a::len word) = n"
  by (simp add: unsigned_of_nat take_bit_nat_eq_self)

lemma unat_less_exp: "unat (x :: 'a::len word) < 2 ^ LENGTH('a)"
  by (rule unsigned_less)

lemma unat_pos_iff: "0 < unat (x :: 'a::len word) \<longleftrightarrow> x \<noteq> 0"
  by (metis gr_zeroI less_numeral_extra(3) unsigned_0 unsigned_word_eqI)

lemma unat_zeroD: "unat (x :: 'a::len word) = 0 \<Longrightarrow> x = 0"
  using unat_pos_iff [of x] by simp

lemma unat_max_word: "unat (- 1 :: 'a::len word) = 2 ^ LENGTH('a) - 1"
  by (simp add: unsigned_minus_1_eq_mask mask_eq_exp_minus_1)

lemma unat_sat_add [sat_simps]:
  "unat (sat_add a (b :: 'a::len word)) = min (unat a + unat b) (2 ^ LENGTH('a) - 1)"
  by (auto simp: sat_add_def unat_word_ariths unat_max_word)

lemma unat_sat_sub [sat_simps]: "unat (sat_sub a (b :: 'a::len word)) = unat a - unat b"
  by (auto simp: sat_sub_def unat_sub word_le_nat_alt)

lemma unat_sat_mul [sat_simps]:
  "unat (sat_mul a (b :: 'a::len word)) = min (unat a * unat b) (2 ^ LENGTH('a) - 1)"
  by (auto simp: sat_mul_def unat_word_ariths unat_max_word)

lemma unat_max [sat_simps]: "unat (max a (b :: 'a::len word)) = max (unat a) (unat b)"
  by (simp add: max_def word_le_nat_alt)

lemma unat_min [sat_simps]: "unat (min a (b :: 'a::len word)) = min (unat a) (unat b)"
  by (simp add: min_def word_le_nat_alt)

lemma sat_add_0 [simp]: "sat_add a 0 = (a :: 'a::len word)"
  by (simp add: sat_add_def)

lemma sat_sub_0 [simp]: "sat_sub a 0 = (a :: 'a::len word)"
  by (simp add: sat_sub_def)

lemma sat_sub_self [simp]: "sat_sub a a = (0 :: 'a::len word)"
  by (simp add: sat_sub_def)

lemma unat_le_max: "unat (a :: 'a::len word) \<le> 2 ^ LENGTH('a) - 1"
  by (rule less_Suc_eq_le [THEN iffD1]) simp

lemma sat_add_ge: "a \<le> sat_add a (b :: 'a::len word)"
  using unat_le_max [of a] by (simp add: word_le_nat_alt sat_simps)

lemma sat_mul_ge: "b \<noteq> 0 \<Longrightarrow> a \<le> sat_mul a (b :: 'a::len word)"
  using unat_le_max [of a] unat_pos_iff [of b] by (simp add: word_le_nat_alt sat_simps)

lemma sat_mul_pos: "0 < a \<Longrightarrow> b \<noteq> 0 \<Longrightarrow> 0 < sat_mul a (b :: 'a::len word)"
  by (rule less_le_trans [OF _ sat_mul_ge])

lemma clamp_word_bounds:
  assumes "lo \<le> hi"
  shows "lo \<le> clamp_word lo hi x" and "clamp_word lo hi x \<le> hi"
  using assms by (auto simp: clamp_word_def)

section \<open>Sequence-number comparison (serial arithmetic)\<close>

text \<open>
  \<^verbatim>\<open>(a.wrapping_sub(b) as i32) < 0\<close> and its companions, and the half-open range test.
\<close>

definition seq_gt :: "u32 \<Rightarrow> u32 \<Rightarrow> bool" where
  "seq_gt a b = (sint (a - b) > 0)"

definition seq_ge :: "u32 \<Rightarrow> u32 \<Rightarrow> bool" where
  "seq_ge a b = (sint (a - b) \<ge> 0)"

definition seq_le :: "u32 \<Rightarrow> u32 \<Rightarrow> bool" where
  "seq_le a b = (sint (a - b) \<le> 0)"

definition seq_lt :: "u32 \<Rightarrow> u32 \<Rightarrow> bool" where
  "seq_lt a b = (sint (a - b) < 0)"

definition seq_in_range :: "u32 \<Rightarrow> u32 \<Rightarrow> u32 \<Rightarrow> bool" where
  "seq_in_range x lo hi = (x - lo < hi - lo)"

section \<open>Error codes and fallible, state-changing methods\<close>

datatype tcp_error =
    BufferTooSmall | NullPointer | InvalidState | MalformedPacket | NotForUs
  | WouldBlock | ConnectionReset | ConnectionClosed | Overflow

fun as_code :: "tcp_error \<Rightarrow> int" where
  "as_code BufferTooSmall = - 1"
| "as_code NullPointer = - 2"
| "as_code InvalidState = - 3"
| "as_code MalformedPacket = - 4"
| "as_code NotForUs = - 5"
| "as_code WouldBlock = - 6"
| "as_code ConnectionReset = - 7"
| "as_code ConnectionClosed = - 8"
| "as_code Overflow = - 9"

type_synonym 'a result = "tcp_error + 'a"

text \<open>
  A method \<^verbatim>\<open>fn f(&mut self) -> Result<T, TcpError>\<close> is a function from the
  state to the result and the new state; \<^verbatim>\<open>?\<close> is \<open>bind_rs\<close>, which keeps the
  mutations made before an error.
\<close>

type_synonym ('s, 'a) rsm = "'s \<Rightarrow> 'a result \<times> 's"

definition ret_rs :: "'a \<Rightarrow> ('s, 'a) rsm" where
  "ret_rs x s = (Inr x, s)"

definition fail_rs :: "tcp_error \<Rightarrow> ('s, 'a) rsm" where
  "fail_rs e s = (Inl e, s)"

definition bind_rs :: "('s, 'a) rsm \<Rightarrow> ('a \<Rightarrow> ('s, 'b) rsm) \<Rightarrow> ('s, 'b) rsm" where
  "bind_rs m f s = (case m s of (Inl e, s') \<Rightarrow> (Inl e, s') | (Inr x, s') \<Rightarrow> f x s')"

definition then_rs :: "('s, 'a) rsm \<Rightarrow> ('s, 'b) rsm \<Rightarrow> ('s, 'b) rsm" where
  "then_rs m k = bind_rs m (\<lambda>_. k)"

definition modify_rs :: "('s \<Rightarrow> 's) \<Rightarrow> ('s, unit) rsm" where
  "modify_rs f s = (Inr (), f s)"

fun res_bind :: "'a result \<Rightarrow> ('a \<Rightarrow> 'b result) \<Rightarrow> 'b result" where
  "res_bind (Inl e) f = Inl e"
| "res_bind (Inr x) f = f x"

definition ok_or :: "'a option \<Rightarrow> tcp_error \<Rightarrow> 'a result" where
  "ok_or x e = (case x of None \<Rightarrow> Inl e | Some v \<Rightarrow> Inr v)"

lemma res_bind_Inr_conv: "res_bind r f = Inr y \<longleftrightarrow> (\<exists>x. r = Inr x \<and> f x = Inr y)"
  by (cases r) auto

lemma bind_rs_ret [simp]: "bind_rs (ret_rs x) f s = f x s"
  by (simp add: bind_rs_def ret_rs_def)

lemma bind_rs_Inr: "m s = (Inr x, s') \<Longrightarrow> bind_rs m f s = f x s'"
  by (simp add: bind_rs_def)

lemma bind_rs_Inl: "m s = (Inl e, s') \<Longrightarrow> bind_rs m f s = (Inl e, s')"
  by (simp add: bind_rs_def)

lemma then_rs_Inr: "m s = (Inr x, s') \<Longrightarrow> then_rs m k s = k s'"
  by (simp add: then_rs_def bind_rs_def)

lemma ok_or_simps [simp]: "ok_or None e = Inl e" "ok_or (Some v) e = Inr v"
  by (simp_all add: ok_or_def)

text \<open>A predicate kept by the parts of a sequence is kept by the sequence, on every path.\<close>

lemma bind_rs_keeps:
  "I (snd (m s)) \<Longrightarrow> (\<And>x s'. I s' \<Longrightarrow> I (snd (f x s'))) \<Longrightarrow> I (snd (bind_rs m f s))"
  by (auto simp: bind_rs_def split: prod.split sum.split)

lemma then_rs_keeps:
  "I (snd (m s)) \<Longrightarrow> (\<And>s'. I s' \<Longrightarrow> I (snd (k s'))) \<Longrightarrow> I (snd (then_rs m k s))"
  unfolding then_rs_def by (rule bind_rs_keeps)

text \<open>What holds of the result and the state when a method returns \<^verbatim>\<open>Ok\<close>.\<close>

definition returns :: "('s, 'a) rsm \<Rightarrow> 's \<Rightarrow> ('a \<Rightarrow> 's \<Rightarrow> bool) \<Rightarrow> bool" where
  "returns m s Q \<longleftrightarrow> (\<forall>x s'. m s = (Inr x, s') \<longrightarrow> Q x s')"

lemma returns_bind: "returns m s (\<lambda>x s'. returns (f x) s' Q) \<Longrightarrow> returns (bind_rs m f) s Q"
  by (auto simp: returns_def bind_rs_def split: prod.splits sum.splits)

lemma returns_then: "returns m s (\<lambda>_ s'. returns k s' Q) \<Longrightarrow> returns (then_rs m k) s Q"
  unfolding then_rs_def by (rule returns_bind)

lemma returns_mono: "returns m s P \<Longrightarrow> (\<And>x s'. P x s' \<Longrightarrow> Q x s') \<Longrightarrow> returns m s Q"
  by (auto simp: returns_def)

lemma returns_kept: "I (snd (m s)) \<Longrightarrow> returns m s (\<lambda>_. I)"
  by (auto simp: returns_def)

lemma returns_conj: "returns m s P \<Longrightarrow> returns m s Q \<Longrightarrow> returns m s (\<lambda>x s'. P x s' \<and> Q x s')"
  by (auto simp: returns_def)

lemma snd_ret_rs [simp]: "snd (ret_rs x s) = s"
  by (simp add: ret_rs_def)

lemma snd_modify_rs [simp]: "snd (modify_rs f s) = f s"
  by (simp add: modify_rs_def)

lemma fst_modify_rs [simp]: "fst (modify_rs f s) = Inr ()"
  by (simp add: modify_rs_def)

section \<open>Slices\<close>

text \<open>
  \<open>get_range xs a b\<close> is \<^verbatim>\<open>xs.get(a..b)\<close>; \<open>copy_range dst a src c n\<close> copies
  \<open>src[c..c+n]\<close> over \<open>dst[a..a+n]\<close> and, like the guarded \<^verbatim>\<open>copy_from_slice\<close>
  of the code, does nothing when either slice is out of range; \<open>overlay\<close> is the
  specification of such a copy.
\<close>

definition get_range :: "'a list \<Rightarrow> nat \<Rightarrow> nat \<Rightarrow> 'a list option" where
  "get_range xs a b = (if a \<le> b \<and> b \<le> length xs then Some (take (b - a) (drop a xs)) else None)"

definition get_at :: "'a list \<Rightarrow> nat \<Rightarrow> 'a option" where
  "get_at xs i = (if i < length xs then Some (xs ! i) else None)"

definition overlay :: "'a list \<Rightarrow> nat \<Rightarrow> 'a list \<Rightarrow> 'a list" where
  "overlay xs a ys = take a xs @ ys @ drop (a + length ys) xs"

definition copy_range :: "'a list \<Rightarrow> nat \<Rightarrow> 'a list \<Rightarrow> nat \<Rightarrow> nat \<Rightarrow> 'a list" where
  "copy_range dst a src c n =
     (if a + n \<le> length dst \<and> c + n \<le> length src
      then overlay dst a (take n (drop c src)) else dst)"

lemma length_overlay [simp]: "a + length ys \<le> length xs \<Longrightarrow> length (overlay xs a ys) = length xs"
  by (simp add: overlay_def)

lemma length_copy_range [simp]: "length (copy_range dst a src c n) = length dst"
  by (auto simp: copy_range_def overlay_def)

lemma nth_overlay:
  assumes "a + length ys \<le> length xs" "i < length xs"
  shows "overlay xs a ys ! i = (if a \<le> i \<and> i < a + length ys then ys ! (i - a) else xs ! i)"
  using assms by (auto simp: overlay_def nth_append min_def)

lemma overlay_Nil [simp]: "overlay xs a [] = xs"
  by (simp add: overlay_def)

lemma take_overlay: "n \<le> a \<Longrightarrow> a \<le> length xs \<Longrightarrow> take n (overlay xs a ys) = take n xs"
  by (simp add: overlay_def min_def)

lemma drop_overlay:
  "k \<le> a \<Longrightarrow> a + length ys \<le> length xs \<Longrightarrow> drop k (overlay xs a ys) = overlay (drop k xs) (a - k) ys"
  by (simp add: overlay_def drop_take)

lemma take_overlay_0:
  "length ys \<le> length xs \<Longrightarrow> take (length ys) (overlay xs 0 ys) = ys"
  by (simp add: overlay_def)

lemma drop_overlay_0:
  "length ys \<le> length xs \<Longrightarrow> drop (length ys) (overlay xs 0 ys) = drop (length ys) xs"
  by (simp add: overlay_def)

lemma replicate_numeral: "replicate (numeral k) x = x # replicate (pred_numeral k) x"
  by (simp add: numeral_eq_Suc)

lemma list_update_numeral: "(x # xs)[numeral k := y] = x # xs[pred_numeral k := y]"
  by (simp add: numeral_eq_Suc)

section \<open>Circular buffers\<close>

text \<open>
  Writing \<open>ys\<close> circularly from physical index \<open>p\<close>: as much as fits before the end of
  the storage, the rest at its start. Seen through \<open>rotate h\<close>, the storage is a straight
  list, and the write is an \<open>overlay\<close>.
\<close>

definition circ_put :: "'a list \<Rightarrow> nat \<Rightarrow> 'a list \<Rightarrow> 'a list" where
  "circ_put buf p ys =
     (let first = min (length ys) (length buf - p)
      in overlay (overlay buf p (take first ys)) 0 (drop first ys))"

lemma length_circ_put [simp]:
  "p \<le> length buf \<Longrightarrow> length ys \<le> length buf \<Longrightarrow> length (circ_put buf p ys) = length buf"
  by (auto simp: circ_put_def Let_def overlay_def min_def)

lemma nth_circ_put:
  assumes p: "p < length buf" and n: "length ys \<le> length buf" and i: "i < length buf"
  shows "circ_put buf p ys ! i =
    (if (i + length buf - p) mod length buf < length ys
     then ys ! ((i + length buf - p) mod length buf) else buf ! i)"
proof -
  let ?N = "length buf" and ?first = "min (length ys) (length buf - p)"
  have ov: "length (overlay buf p (take ?first ys)) = ?N"
    using p by (intro length_overlay) auto
  have eq: "circ_put buf p ys ! i =
     (if i < length ys - ?first then ys ! (?first + i)
      else if p \<le> i \<and> i < p + ?first then ys ! (i - p) else buf ! i)"
    using p n i ov by (auto simp: circ_put_def Let_def nth_overlay) (subst nth_take; auto)
  show ?thesis
  proof (cases "p \<le> i")
    case True
    then have m: "(i + ?N - p) mod ?N = i - p"
      using i by (metis Nat.add_diff_assoc2 add.commute less_imp_diff_less mod_add_self2 mod_less)
    show ?thesis using True m eq p n i by auto
  next
    case False
    then have m: "(i + ?N - p) mod ?N = i + ?N - p"
      using i by auto
    show ?thesis using False m eq p n i by (auto simp: min_def add.commute)
  qed
qed

lemma rotate_circ_put:
  assumes N: "0 < length buf" and fit: "j + length ys \<le> length buf"
  shows "rotate h (circ_put buf ((h + j) mod length buf) ys) = overlay (rotate h buf) j ys"
proof (rule nth_equalityI)
  let ?N = "length buf" and ?p = "(h + j) mod length buf"
  have p: "?p < ?N" using N by simp
  have len: "length (circ_put buf ?p ys) = ?N" using p fit by simp
  then show "length (rotate h (circ_put buf ?p ys)) = length (overlay (rotate h buf) j ys)"
    using fit by simp
  fix i assume "i < length (rotate h (circ_put buf ?p ys))"
  then have i: "i < ?N" using len by simp
  let ?q = "(h + i) mod ?N"
  have q: "?q < ?N" using N by simp
  have dist: "(?q + ?N - ?p) mod ?N = (i + ?N - j) mod ?N"
  proof -
    have "int ((?q + ?N - ?p) mod ?N) = (int ?q + int ?N - int ?p) mod int ?N"
      using p by (simp add: of_nat_diff of_nat_mod)
    also have "\<dots> = (int (h + i) + int ?N - int (h + j)) mod int ?N"
      by (intro mod_diff_cong mod_add_cong) (simp_all add: of_nat_mod)
    also have "\<dots> = (int i + int ?N - int j) mod int ?N"
      by (simp add: algebra_simps)
    also have "\<dots> = int ((i + ?N - j) mod ?N)"
      using fit by (simp add: of_nat_diff of_nat_mod)
    finally show ?thesis by linarith
  qed
  have lhs: "rotate h (circ_put buf ?p ys) ! i =
     (if (i + ?N - j) mod ?N < length ys then ys ! ((i + ?N - j) mod ?N) else buf ! ?q)"
    using i len p q fit by (simp add: nth_rotate nth_circ_put dist)
  show "rotate h (circ_put buf ?p ys) ! i = overlay (rotate h buf) j ys ! i"
  proof (cases "j \<le> i")
    case True
    then have "(i + ?N - j) mod ?N = i - j"
      using i by (metis Nat.add_diff_assoc2 add.commute less_imp_diff_less mod_add_self2 mod_less)
    then show ?thesis using lhs True i fit by (auto simp: nth_overlay nth_rotate)
  next
    case False
    then have "(i + ?N - j) mod ?N = i + ?N - j" using i by auto
    then show ?thesis using lhs False i fit by (auto simp: nth_overlay nth_rotate)
  qed
qed

lemma overlay_single: "i < length xs \<Longrightarrow> overlay xs i [x] = xs[i := x]"
  by (simp add: overlay_def upd_conv_take_nth_drop)

lemma circ_put_single: "p < length xs \<Longrightarrow> circ_put xs p [x] = xs[p := x]"
proof -
  assume p: "p < length xs"
  then have "min 1 (length xs - p) = 1" by simp
  with p show ?thesis by (simp add: circ_put_def overlay_single)
qed

lemma rotate_list_update:
  assumes "i < length xs"
  shows "rotate h (xs[(h + i) mod length xs := x]) = (rotate h xs)[i := x]"
proof -
  have N: "0 < length xs" using assms by (rule le_less_trans [OF le0])
  have "circ_put xs ((h + i) mod length xs) [x] = xs[(h + i) mod length xs := x]"
    by (rule circ_put_single) (rule mod_less_divisor [OF N])
  moreover have "rotate h (circ_put xs ((h + i) mod length xs) [x]) = overlay (rotate h xs) i [x]"
    using assms by (intro rotate_circ_put) auto
  ultimately show ?thesis using assms by (simp add: overlay_single)
qed

lemma take_Suc_list_update: "n < length xs \<Longrightarrow> take (Suc n) (xs[n := x]) = take n xs @ [x]"
  by (simp add: take_Suc_conv_app_nth)

lemma hd_rotate: "h < length xs \<Longrightarrow> hd (rotate h xs) = xs ! h"
  by (metis hd_drop_conv_nth hd_append2 drop_eq_Nil2 linorder_not_le mod_less rotate_drop_take)

lemma take_rotate_tl:
  "n < length xs \<Longrightarrow> take n (rotate (Suc h mod length xs) xs) = tl (take (Suc n) (rotate h xs))"
proof -
  assume n: "n < length xs"
  have "rotate (Suc h mod length xs) xs = rotate1 (rotate h xs)"
    by (simp flip: rotate_conv_mod)
  moreover obtain y ys where "rotate h xs = y # ys"
    using n by (metis gr_implies_not0 length_0_conv length_rotate list.exhaust)
  moreover from this have "length ys = length xs - 1" by (metis diff_Suc_1 length_Cons length_rotate)
  ultimately show ?thesis using n by simp
qed

section \<open>Powers of two\<close>

definition is_pow2 :: "nat \<Rightarrow> bool" where
  "is_pow2 n \<longleftrightarrow> n \<noteq> 0 \<and> n AND (n - 1) = 0"

lemma and_pow2_mask: "(x :: nat) AND (2 ^ k - 1) = x mod 2 ^ k"
  by (metis mask_eq_exp_minus_1 take_bit_eq_mask take_bit_eq_mod)

lemma is_pow2_power: "is_pow2 (2 ^ k)"
  by (simp add: is_pow2_def and_pow2_mask del: One_nat_def)

lemma is_pow2D: "is_pow2 n \<Longrightarrow> \<exists>k. n = 2 ^ k"
proof (induction n rule: less_induct)
  case (less n)
  show ?case
  proof (cases "odd n")
    case True
    then have "n AND (n - 1) = 2 * ((n div 2) AND (n div 2))"
      by (subst and_rec) (auto elim!: oddE)
    with less.prems have "n div 2 = 0" by (simp add: is_pow2_def)
    with True have "n = 1" by (auto elim: oddE)
    then show ?thesis by (intro exI [of _ 0]) simp
  next
    case False
    then obtain m where m: "n = 2 * m" by (auto elim: evenE)
    with less.prems have m0: "m \<noteq> 0" by (auto simp: is_pow2_def)
    have "n AND (n - 1) = 2 * (m AND (m - 1))"
      using m m0 by (subst and_rec) (cases m; simp)
    with less.prems m0 have "is_pow2 m" by (simp add: is_pow2_def)
    with less.IH [of m] m m0 obtain k where "m = 2 ^ k" by auto
    with m show ?thesis by (intro exI [of _ "Suc k"]) simp
  qed
qed

lemma is_pow2_iff: "is_pow2 n \<longleftrightarrow> (\<exists>k. n = 2 ^ k)"
  using is_pow2D is_pow2_power by blast

lemma is_pow2_pos: "is_pow2 n \<Longrightarrow> 0 < n"
  by (simp add: is_pow2_def)

lemma is_pow2_and: "is_pow2 n \<Longrightarrow> x AND (n - 1) = x mod n"
  using and_pow2_mask is_pow2D by blast

lemma is_pow2_dvd_usize: "is_pow2 n \<Longrightarrow> n \<le> 2 ^ 64 \<Longrightarrow> n dvd 2 ^ 64"
  using is_pow2D by (metis le_imp_power_dvd one_less_numeral_iff power_le_imp_le_exp semiring_norm(76))

section \<open>Runs of operations and their simulation\<close>

text \<open>
  \<open>run_ops\<close> makes a sequence of calls, collecting what each returns. The locale
  \<open>simulation\<close> is the contract between a component and its specification: every call, on a
  state that satisfies the invariant, keeps it and returns what the specification returns on the
  abstract state.
\<close>

fun run_ops :: "('s \<Rightarrow> 'o \<Rightarrow> 'a \<times> 's) \<Rightarrow> 's \<Rightarrow> 'o list \<Rightarrow> 'a list \<times> 's" where
  "run_ops step s [] = ([], s)"
| "run_ops step s (x # xs) =
     (let (y, s') = step s x; (ys, s'') = run_ops step s' xs in (y # ys, s''))"

locale simulation =
  fixes invar :: "'s \<Rightarrow> bool"
    and abs :: "'s \<Rightarrow> 't"
    and step :: "'s \<Rightarrow> 'o \<Rightarrow> 'a \<times> 's"
    and spec :: "'t \<Rightarrow> 'o \<Rightarrow> 'a \<times> 't"
  assumes simulates: "invar s \<Longrightarrow> step s x = (y, s') \<Longrightarrow> invar s' \<and> spec (abs s) x = (y, abs s')"
begin

lemma run_simulates:
  "invar s \<Longrightarrow> run_ops step s xs = (ys, s') \<Longrightarrow>
   invar s' \<and> run_ops spec (abs s) xs = (ys, abs s')"
proof (induction xs arbitrary: s ys)
  case Nil
  then show ?case by simp
next
  case (Cons x xs)
  obtain y t zs where t: "step s x = (y, t)" "run_ops step t xs = (zs, s')" "ys = y # zs"
    using Cons.prems(2) by (auto split: prod.splits)
  from simulates [OF Cons.prems(1) t(1)] Cons.IH [OF _ t(2)] t(3)
  show ?case by (auto split: prod.splits)
qed

end

subsection \<open>Signed reading\<close>

lemma signed_32:
  assumes "0 \<le> x" and "x < 2 ^ 32"
  shows "signed_take_bit 31 (x :: int) = (if x < 2 ^ 31 then x else x - 2 ^ 32)"
proof -
  have "x div 2 ^ 31 = (if x < 2 ^ 31 then 0 else 1)"
  proof (cases "x < 2 ^ 31")
    case False
    then show ?thesis
      using assms div_pos_pos_trivial [of "x - 2 ^ 31" "2 ^ 31"] div_add_self2 [of "2 ^ 31" "x - 2 ^ 31"] by simp
  qed (use assms in simp)
  then have "bit x 31 \<longleftrightarrow> \<not> x < 2 ^ 31" by (simp add: bit_iff_odd)
  moreover have "take_bit 32 x = x" using assms by (simp add: take_bit_eq_mod)
  ultimately show ?thesis by (simp add: signed_take_bit_eq_take_bit_minus)
qed

lemma sint32: "sint (w :: 32 word) = (if unat w < 2 ^ 31 then int (unat w) else int (unat w) - 2 ^ 32)"
proof -
  define n where "n = unat w"
  have "sint w = signed_take_bit 31 (int n)" by (simp add: sint_uint n_def)
  moreover have "int n < 2 ^ 32" using uint_lt2p [of w] by (simp add: n_def)
  ultimately have "sint w = (if n < 2 ^ 31 then int n else int n - 2 ^ 32)" using signed_32 [of "int n"] by simp
  then show ?thesis by (simp add: n_def)
qed

end
