(* ===== verification/Ring.thy ===== *)
theory Ring
  imports Prelude
begin

unbundle bit_operations_syntax

text \<open>
  The fixed-capacity byte ring of \<^verbatim>\<open>ring.rs\<close>, used for the send and the receive
  queue. The const parameter \<open>N\<close> is the length of the storage; the cursors are
  \<^verbatim>\<open>usize\<close> values that wrap at \<open>2 ^ 64\<close> and are reduced by a mask. The abstraction
  is the storage read circularly from the read cursor: its first \<open>len\<close> cells are the
  queued bytes (\<open>ring_contents\<close>), the rest is the free space in writing order
  (\<open>ring_parked\<close>), where out-of-order data is parked at its final offset. The locale
  \<open>parking_buffer\<close> states this contract; every operation is shown to meet it.
\<close>

section \<open>Model\<close>

record ring =
  rb_buf :: "u8 list"
  rb_head :: usize
  rb_tail :: usize
  rb_len :: usize

definition ring_new :: "usize \<Rightarrow> ring result" where
  "ring_new N =
     (if N = 0 \<or> N AND (N - 1) \<noteq> 0 then Inl Overflow
      else Inr \<lparr>rb_buf = replicate N 0, rb_head = 0, rb_tail = 0, rb_len = 0\<rparr>)"

definition ring_capacity :: "ring \<Rightarrow> usize" where
  "ring_capacity r = length (rb_buf r)"

definition ring_is_empty :: "ring \<Rightarrow> bool" where
  "ring_is_empty r = (rb_len r = 0)"

definition ring_free :: "ring \<Rightarrow> usize" where
  "ring_free r = ring_capacity r - rb_len r"

definition ring_write :: "ring \<Rightarrow> u8 list \<Rightarrow> usize \<times> ring" where
  "ring_write r src =
     (let n = min (length src) (ring_free r)
      in if n = 0 then (0, r)
         else let N = ring_capacity r;
                  mask = N - 1;
                  first = min n (N - (rb_tail r AND mask));
                  tail_off = rb_tail r AND mask;
                  buf1 = copy_range (rb_buf r) tail_off src 0 first;
                  buf2 = (if first < n then copy_range buf1 0 src first (n - first) else buf1)
              in (n, r\<lparr>rb_buf := buf2, rb_tail := wrapping_add_usize (rb_tail r) n,
                       rb_len := rb_len r + n\<rparr>))"

definition ring_peek_at :: "ring \<Rightarrow> usize \<Rightarrow> u8 list \<Rightarrow> usize \<times> u8 list" where
  "ring_peek_at r offset dst =
     (if rb_len r \<le> offset then (0, dst)
      else let available = rb_len r - offset;
               n = min (length dst) available
           in if n = 0 then (0, dst)
              else let N = ring_capacity r;
                       mask = N - 1;
                       start = wrapping_add_usize (rb_head r) offset AND mask;
                       first = min n (N - start);
                       d1 = copy_range dst 0 (rb_buf r) start first;
                       d2 = (if first < n then copy_range d1 first (rb_buf r) 0 (n - first) else d1)
                   in (n, d2))"

definition ring_peek :: "ring \<Rightarrow> u8 list \<Rightarrow> usize \<times> u8 list" where
  "ring_peek r dst =
     (let n = min (length dst) (rb_len r)
      in if n = 0 then (0, dst)
         else let N = ring_capacity r;
                  mask = N - 1;
                  head_off = rb_head r AND mask;
                  first = min n (N - head_off);
                  d1 = copy_range dst 0 (rb_buf r) head_off first;
                  d2 = (if first < n then copy_range d1 first (rb_buf r) 0 (n - first) else d1)
              in (n, d2))"

definition ring_write_at :: "ring \<Rightarrow> usize \<Rightarrow> u8 list \<Rightarrow> usize \<times> ring" where
  "ring_write_at r offset src =
     (let free = ring_free r
      in if free \<le> offset then (0, r)
         else let n = min (length src) (free - offset)
              in if n = 0 then (0, r)
                 else let N = ring_capacity r;
                          mask = N - 1;
                          start = wrapping_add_usize (rb_tail r) offset AND mask;
                          first = min n (N - start);
                          buf1 = copy_range (rb_buf r) start src 0 first;
                          buf2 = (if first < n then copy_range buf1 0 src first (n - first)
                                  else buf1)
                      in (n, r\<lparr>rb_buf := buf2\<rparr>))"

definition ring_commit :: "ring \<Rightarrow> usize \<Rightarrow> usize \<times> ring" where
  "ring_commit r n0 =
     (let n = min n0 (ring_free r)
      in (n, r\<lparr>rb_tail := wrapping_add_usize (rb_tail r) n, rb_len := rb_len r + n\<rparr>))"

text \<open>
  \<^verbatim>\<open>free_regions\<close> lends two disjoint slices of the storage. The model returns the two
  regions as (start, length) pairs of the storage.
\<close>

definition ring_free_regions :: "ring \<Rightarrow> usize \<Rightarrow> (usize \<times> usize) \<times> (usize \<times> usize)" where
  "ring_free_regions r mx =
     (let n = min mx (ring_free r);
          N = ring_capacity r;
          start = rb_tail r AND (N - 1);
          first = min n (N - start);
          wrapped = n - first
      in if start \<le> N
         then ((start, if start + first \<le> N then first else 0),
               (0, if wrapped \<le> start then wrapped else 0))
         else ((0, 0), (0, 0)))"

definition ring_consume :: "ring \<Rightarrow> usize \<Rightarrow> ring" where
  "ring_consume r n0 =
     (let n = min n0 (rb_len r)
      in r\<lparr>rb_head := wrapping_add_usize (rb_head r) n, rb_len := rb_len r - n\<rparr>)"

definition ring_read :: "ring \<Rightarrow> u8 list \<Rightarrow> usize \<times> u8 list \<times> ring" where
  "ring_read r dst = (let (n, d) = ring_peek r dst in (n, d, ring_consume r n))"

definition ring_clear :: "ring \<Rightarrow> ring" where
  "ring_clear r = r\<lparr>rb_head := 0, rb_tail := 0, rb_len := 0\<rparr>"

section \<open>Invariant and abstraction\<close>

definition ring_inv :: "ring \<Rightarrow> bool" where
  "ring_inv r \<longleftrightarrow>
     is_pow2 (ring_capacity r) \<and> ring_capacity r \<le> 2 ^ 64 \<and> rb_len r \<le> ring_capacity r \<and>
     rb_tail r mod ring_capacity r = (rb_head r + rb_len r) mod ring_capacity r"

definition ring_cells :: "ring \<Rightarrow> u8 list" where
  "ring_cells r = rotate (rb_head r) (rb_buf r)"

definition ring_contents :: "ring \<Rightarrow> u8 list" where
  "ring_contents r = take (rb_len r) (ring_cells r)"

definition ring_parked :: "ring \<Rightarrow> u8 list" where
  "ring_parked r = drop (rb_len r) (ring_cells r)"

lemmas ring_abs_defs = ring_cells_def ring_contents_def ring_parked_def

lemma length_ring_cells [simp]: "length (ring_cells r) = ring_capacity r"
  by (simp add: ring_cells_def ring_capacity_def)

lemma ring_cells_split: "ring_cells r = ring_contents r @ ring_parked r"
  by (simp add: ring_contents_def ring_parked_def)

lemma length_ring_contents [simp]: "ring_inv r \<Longrightarrow> length (ring_contents r) = rb_len r"
  by (simp add: ring_contents_def ring_inv_def)

lemma length_ring_parked [simp]: "length (ring_parked r) = ring_free r"
  by (simp add: ring_parked_def ring_free_def)

lemma ring_inv_len: "ring_inv r \<Longrightarrow> rb_len r \<le> ring_capacity r"
  by (simp add: ring_inv_def)

lemma ring_inv_pos: "ring_inv r \<Longrightarrow> 0 < ring_capacity r"
  by (simp add: ring_inv_def is_pow2_pos)

lemma ring_len_free: "ring_inv r \<Longrightarrow> rb_len r + ring_free r = ring_capacity r"
  by (simp add: ring_free_def ring_inv_def)

text \<open>Reducing a wrapped cursor by the mask is reduction modulo the capacity.\<close>

lemma wrapping_add_mod:
  assumes "is_pow2 N" "N \<le> 2 ^ 64"
  shows "wrapping_add_usize a b mod N = (a + b) mod N"
  using is_pow2_dvd_usize [OF assms] by (simp add: wrapping_add_usize_def mod_mod_cancel)

lemma wrapping_add_and:
  assumes "is_pow2 N" "N \<le> 2 ^ 64"
  shows "wrapping_add_usize a b AND (N - 1) = (a + b) mod N"
  using assms by (simp add: is_pow2_and wrapping_add_mod del: One_nat_def)

lemma rotate_mod_eq: "a mod length xs = b mod length xs \<Longrightarrow> rotate a xs = rotate b xs"
  by (metis rotate_conv_mod)

text \<open>The two guarded copies of the write routines are a circular write.\<close>

lemma rotate_append_parts: "n \<le> length xs \<Longrightarrow> rotate n xs = drop n xs @ take n xs"
  by (cases "n = length xs") (simp_all add: rotate_drop_take)

lemma take_rotate:
  assumes "s < length xs" "n \<le> length xs"
  shows "take n (rotate s xs) =
    take (min n (length xs - s)) (drop s xs) @ take (n - min n (length xs - s)) xs"
proof (cases "n \<le> length xs - s")
  case True
  then show ?thesis using assms by (simp add: rotate_drop_take)
next
  case False
  then have "n - (length xs - s) \<le> s" using assms by simp
  with False show ?thesis using assms by (simp add: rotate_drop_take)
qed

lemma wrap_bounds:
  fixes s n N :: nat
  assumes "s < N" "n \<le> N"
  shows "n - min n (N - s) \<le> s" "s + min n (N - s) \<le> N" "s \<le> N"
  using assms by auto

lemma two_copies_circ_put:
  assumes "p < length buf" "n \<le> length buf" "n \<le> length src"
  shows "(let first = min n (length buf - p); b1 = copy_range buf p src 0 first
          in if first < n then copy_range b1 0 src first (n - first) else b1)
         = circ_put buf p (take n src)"
proof -
  let ?f = "min n (length buf - p)"
  have b1: "copy_range buf p src 0 ?f = overlay buf p (take ?f (take n src))"
    using assms by (auto simp: copy_range_def min_def)
  have "copy_range (overlay buf p (take ?f (take n src))) 0 src ?f (n - ?f)
        = overlay (overlay buf p (take ?f (take n src))) 0 (drop ?f (take n src))"
    using assms by (auto simp: copy_range_def drop_take)
  then show ?thesis
    using assms b1 by (auto simp: circ_put_def Let_def min_def not_less)
qed

text \<open>The two guarded copies of the reading routines read the storage circularly.\<close>

lemma two_copies_circ_get:
  assumes "0 < length buf" "p < length buf" "n \<le> length buf" "n \<le> length dst"
  shows "(let first = min n (length buf - p); d1 = copy_range dst 0 buf p first
          in if first < n then copy_range d1 first buf 0 (n - first) else d1)
         = take n (rotate p buf) @ drop n dst"
proof (cases "n \<le> length buf - p")
  case True
  then have "take n (rotate p buf) = take n (drop p buf)"
    using assms by (simp add: rotate_drop_take)
  then show ?thesis
    using True assms by (auto simp: copy_range_def overlay_def)
next
  case False
  let ?f = "length buf - p"
  have fr: "min n ?f = ?f" "?f < n" using False by simp_all
  have t: "take n (rotate p buf) = drop p buf @ take (n - ?f) buf"
    using False assms by (simp add: rotate_drop_take min_def)
  have d1: "copy_range dst 0 buf p ?f = drop p buf @ drop ?f dst"
    using False assms by (simp add: copy_range_def overlay_def)
  have "copy_range (drop p buf @ drop ?f dst) ?f buf 0 (n - ?f)
        = drop p buf @ take (n - ?f) buf @ drop n dst"
    using False assms by (auto simp: copy_range_def overlay_def)
  then show ?thesis using fr t d1 by (simp add: Let_def)
qed

section \<open>Refinement of each operation\<close>

lemma ring_new_ok:
  assumes "is_pow2 N" "N \<le> 2 ^ 64"
  shows "\<exists>r. ring_new N = Inr r \<and> ring_inv r \<and> ring_capacity r = N \<and> ring_contents r = []"
  using assms
  by (auto simp: ring_new_def ring_inv_def ring_capacity_def ring_contents_def is_pow2_def)

text \<open>Raw circular write at an offset inside the free space.\<close>

lemma ring_cells_put:
  assumes inv: "ring_inv r" and fit: "rb_len r + off + length ys \<le> ring_capacity r"
  shows "rotate (rb_head r)
           (circ_put (rb_buf r) ((rb_tail r + off) mod ring_capacity r) ys)
         = overlay (ring_cells r) (rb_len r + off) ys"
proof -
  have "(rb_tail r + off) mod ring_capacity r
        = (rb_head r + (rb_len r + off)) mod length (rb_buf r)"
    using inv by (metis ring_inv_def add.assoc mod_add_left_eq ring_capacity_def)
  then show ?thesis
    using fit ring_inv_pos [OF inv]
    by (simp add: ring_cells_def rotate_circ_put ring_capacity_def)
qed

lemma ring_write_eq:
  assumes inv: "ring_inv r" and n: "n = min (length src) (ring_free r)" and pos: "0 < n"
  shows "ring_write r src =
    (n, r\<lparr>rb_buf := circ_put (rb_buf r) (rb_tail r mod ring_capacity r) (take n src),
          rb_tail := wrapping_add_usize (rb_tail r) n, rb_len := rb_len r + n\<rparr>)"
proof -
  have N: "is_pow2 (length (rb_buf r))" using inv by (simp add: ring_inv_def ring_capacity_def)
  have "rb_tail r mod length (rb_buf r) < length (rb_buf r)" "n \<le> length (rb_buf r)"
      "n \<le> length src"
    using ring_inv_pos [OF inv] n by (simp_all add: ring_free_def ring_capacity_def)
  note put = two_copies_circ_put [OF this]
  show ?thesis
    using pos put by (simp only: ring_write_def n [symmetric] Let_def is_pow2_and [OF N]
        ring_capacity_def) simp
qed

theorem ring_write_refines:
  assumes inv: "ring_inv r" and w: "ring_write r src = (n, r')"
  shows "n = min (length src) (ring_free r)" and "ring_inv r'"
    and "ring_contents r' = ring_contents r @ take n src"
    and "ring_parked r' = drop n (ring_parked r)"
    and "ring_capacity r' = ring_capacity r"
proof -
  let ?n = "min (length src) (ring_free r)"
  show n: "n = ?n"
    using w by (auto simp: ring_write_def Let_def split: if_splits)
  have goal: "ring_inv r' \<and> ring_contents r' = ring_contents r @ take n src
     \<and> ring_parked r' = drop n (ring_parked r) \<and> ring_capacity r' = ring_capacity r"
  proof (cases "?n = 0")
    case True
    then have "r' = r" "n = 0" using w n by (auto simp: ring_write_def)
    then show ?thesis using inv by simp
  next
    case False
    let ?ys = "take n src" and ?N = "ring_capacity r"
    have r': "r' = r\<lparr>rb_buf := circ_put (rb_buf r) (rb_tail r mod ?N) ?ys,
                rb_tail := wrapping_add_usize (rb_tail r) n, rb_len := rb_len r + n\<rparr>"
      using ring_write_eq [OF inv refl] False w n by simp
    have ly: "length ?ys = n" and fit: "rb_len r + n \<le> ?N"
      using n ring_len_free [OF inv] by auto
    have cap: "ring_capacity r' = ?N"
      using r' fit ly ring_inv_pos [OF inv] by (simp add: ring_capacity_def)
    have cells: "ring_cells r' = overlay (ring_cells r) (rb_len r) ?ys"
      using ring_cells_put [OF inv, of 0 ?ys] fit ly r' by (simp add: ring_cells_def)
    have "(rb_tail r + n) mod ?N = (rb_head r + (rb_len r + n)) mod ?N"
      using inv by (metis ring_inv_def add.assoc mod_add_left_eq)
    then have "ring_inv r'"
      using inv cap r' fit by (simp add: ring_inv_def wrapping_add_mod)
    moreover have "ring_contents r' = ring_contents r @ ?ys"
      using cells ly fit r' by (simp add: ring_contents_def overlay_def)
    moreover have "ring_parked r' = drop n (ring_parked r)"
      using cells ly fit r' by (simp add: ring_parked_def overlay_def add.commute)
    ultimately show ?thesis using cap by simp
  qed
  then show "ring_inv r'" "ring_contents r' = ring_contents r @ take n src"
    "ring_parked r' = drop n (ring_parked r)" "ring_capacity r' = ring_capacity r" by auto
qed

lemma ring_write_at_eq:
  assumes inv: "ring_inv r" and n: "n = min (length src) (ring_free r - off)" and pos: "0 < n"
  shows "ring_write_at r off src =
    (n, r\<lparr>rb_buf := circ_put (rb_buf r) ((rb_tail r + off) mod ring_capacity r) (take n src)\<rparr>)"
proof -
  have N: "is_pow2 (length (rb_buf r))" "length (rb_buf r) \<le> 2 ^ 64"
    using inv by (simp_all add: ring_inv_def ring_capacity_def)
  have "(rb_tail r + off) mod length (rb_buf r) < length (rb_buf r)" "n \<le> length (rb_buf r)"
      "n \<le> length src"
    using ring_inv_pos [OF inv] n by (simp_all add: ring_free_def ring_capacity_def)
  note put = two_copies_circ_put [OF this]
  have "off < ring_free r" using n pos by simp
  then show ?thesis
    using pos put by (simp only: ring_write_at_def n [symmetric] Let_def wrapping_add_and [OF N]
        ring_capacity_def not_le [symmetric]) simp
qed

theorem ring_write_at_refines:
  assumes inv: "ring_inv r" and w: "ring_write_at r off src = (n, r')"
  shows "n = min (length src) (ring_free r - off)" and "ring_inv r'"
    and "ring_contents r' = ring_contents r"
    and "ring_parked r' = overlay (ring_parked r) off (take n src)"
    and "ring_capacity r' = ring_capacity r" and "rb_len r' = rb_len r"
proof -
  let ?n = "min (length src) (ring_free r - off)"
  show n: "n = ?n"
    using w by (auto simp: ring_write_at_def Let_def split: if_splits)
  have goal: "ring_inv r' \<and> ring_contents r' = ring_contents r
     \<and> ring_parked r' = overlay (ring_parked r) off (take n src)
     \<and> ring_capacity r' = ring_capacity r \<and> rb_len r' = rb_len r"
  proof (cases "?n = 0")
    case True
    then have "r' = r" "n = 0" using w n by (auto simp: ring_write_at_def Let_def split: if_splits)
    then show ?thesis using inv by simp
  next
    case False
    let ?ys = "take n src" and ?N = "ring_capacity r"
    have ly: "length ?ys = n" and fit: "rb_len r + off + n \<le> ?N"
      using n False ring_len_free [OF inv] by auto
    have pre: "(rb_tail r + off) mod ?N < length (rb_buf r)" "n \<le> length (rb_buf r)" "n \<le> length src"
      using ring_inv_pos [OF inv] fit n by (simp_all add: ring_capacity_def)
    have N: "is_pow2 ?N" "?N \<le> 2 ^ 64" using inv by (simp_all add: ring_inv_def)
    have r': "r' = r\<lparr>rb_buf := circ_put (rb_buf r) ((rb_tail r + off) mod ?N) ?ys\<rparr>"
      using w ring_write_at_eq [OF inv n] False n by simp
    have cap: "ring_capacity r' = ?N"
      using r' fit ly ring_inv_pos [OF inv] by (simp add: ring_capacity_def)
    have cells: "ring_cells r' = overlay (ring_cells r) (rb_len r + off) ?ys"
      using ring_cells_put [OF inv, of off ?ys] fit ly r' by (simp add: ring_cells_def)
    have "ring_inv r'" using inv cap r' by (simp add: ring_inv_def)
    moreover have "ring_contents r' = ring_contents r"
      using cells fit r' by (simp add: ring_contents_def take_overlay)
    moreover have "ring_parked r' = overlay (ring_parked r) off ?ys"
      using cells fit ly r' by (simp add: ring_parked_def drop_overlay)
    ultimately show ?thesis using cap r' by simp
  qed
  then show "ring_inv r'" "ring_contents r' = ring_contents r"
    "ring_parked r' = overlay (ring_parked r) off (take n src)"
    "ring_capacity r' = ring_capacity r" "rb_len r' = rb_len r" by auto
qed

theorem ring_commit_refines:
  assumes inv: "ring_inv r" and c: "ring_commit r k = (n, r')"
  shows "n = min k (ring_free r)" and "ring_inv r'"
    and "ring_contents r' = ring_contents r @ take n (ring_parked r)"
    and "ring_parked r' = drop n (ring_parked r)"
    and "ring_capacity r' = ring_capacity r"
proof -
  show n: "n = min k (ring_free r)" using c by (simp add: ring_commit_def Let_def)
  have r': "r' = r\<lparr>rb_tail := wrapping_add_usize (rb_tail r) n, rb_len := rb_len r + n\<rparr>"
    using c by (auto simp: ring_commit_def Let_def)
  have fit: "rb_len r + n \<le> ring_capacity r" using n ring_len_free [OF inv] by auto
  have "(rb_tail r + n) mod ring_capacity r = (rb_head r + (rb_len r + n)) mod ring_capacity r"
    using inv by (metis ring_inv_def add.assoc mod_add_left_eq)
  then show "ring_inv r'"
    using inv r' fit by (simp add: ring_inv_def ring_capacity_def wrapping_add_mod)
  show "ring_capacity r' = ring_capacity r" using r' by (simp add: ring_capacity_def)
  show "ring_contents r' = ring_contents r @ take n (ring_parked r)"
    using r' by (simp add: ring_abs_defs take_add)
  show "ring_parked r' = drop n (ring_parked r)"
    using r' by (simp add: ring_abs_defs add.commute)
qed

theorem ring_consume_refines:
  assumes inv: "ring_inv r" and n: "n = min k (rb_len r)" and c: "r' = ring_consume r k"
  shows "ring_inv r'" and "ring_contents r' = drop n (ring_contents r)"
    and "ring_parked r' = ring_parked r @ take n (ring_contents r)"
    and "ring_capacity r' = ring_capacity r" and "rb_len r' = rb_len r - n"
proof -
  have r': "r' = r\<lparr>rb_head := wrapping_add_usize (rb_head r) n, rb_len := rb_len r - n\<rparr>"
    using c n by (simp add: ring_consume_def Let_def)
  have nl: "n \<le> rb_len r" "rb_len r \<le> ring_capacity r" using n ring_inv_len [OF inv] by auto
  have N: "is_pow2 (ring_capacity r)" "ring_capacity r \<le> 2 ^ 64"
    using inv by (simp_all add: ring_inv_def)
  show cap: "ring_capacity r' = ring_capacity r" using r' by (simp add: ring_capacity_def)
  show "rb_len r' = rb_len r - n" using r' by simp
  have "(wrapping_add_usize (rb_head r) n + (rb_len r - n)) mod ring_capacity r
        = (rb_head r + n + (rb_len r - n)) mod ring_capacity r"
    by (metis wrapping_add_mod [OF N] mod_add_left_eq)
  then have "rb_tail r' mod ring_capacity r' = (rb_head r' + rb_len r') mod ring_capacity r'"
    using inv nl unfolding cap by (simp add: r' ring_inv_def)
  moreover have "rb_len r' \<le> ring_capacity r'"
    unfolding cap using nl by (simp add: r')
  ultimately show "ring_inv r'"
    using N unfolding ring_inv_def cap by blast
  have "ring_cells r' = rotate n (ring_cells r)"
    unfolding ring_cells_def rotate_rotate r' using wrapping_add_mod [OF N, of "rb_head r" n]
    by (simp add: ring_capacity_def add.commute [of n]) (rule rotate_mod_eq)
  then have cells: "ring_cells r' = drop n (ring_cells r) @ take n (ring_cells r)"
    using nl by (simp add: rotate_append_parts)
  show "ring_contents r' = drop n (ring_contents r)"
    using cells nl r' by (simp add: ring_contents_def drop_take)
  show "ring_parked r' = ring_parked r @ take n (ring_contents r)"
    using cells nl r' by (simp add: ring_contents_def ring_parked_def min_def)
qed

theorem ring_peek_at_refines:
  assumes inv: "ring_inv r"
  shows "ring_peek_at r off dst =
    (let n = min (length dst) (rb_len r - off)
     in (n, take n (drop off (ring_contents r)) @ drop n dst))"
proof (cases "rb_len r \<le> off \<or> dst = []")
  case True
  then show ?thesis using inv by (auto simp: ring_peek_at_def Let_def)
next
  case False
  let ?n = "min (length dst) (rb_len r - off)" and ?p = "(rb_head r + off) mod length (rb_buf r)"
  have N: "is_pow2 (length (rb_buf r))" "length (rb_buf r) \<le> 2 ^ 64"
    using inv by (simp_all add: ring_inv_def ring_capacity_def)
  have len: "rb_len r \<le> length (rb_buf r)" using inv by (simp add: ring_inv_def ring_capacity_def)
  have pre: "0 < length (rb_buf r)" "?p < length (rb_buf r)" "?n \<le> length (rb_buf r)"
      "?n \<le> length dst"
    using len is_pow2_pos [OF N(1)] by auto
  have "take ?n (rotate ?p (rb_buf r)) = take ?n (rotate off (ring_cells r))"
    by (simp add: ring_cells_def rotate_rotate rotate_conv_mod [symmetric] add.commute)
  also have "\<dots> = take ?n (drop off (ring_contents r))"
    using False len by (auto simp: rotate_drop_take ring_contents_def ring_capacity_def drop_take)
  finally have "take ?n (rotate ?p (rb_buf r)) = take ?n (drop off (ring_contents r))" .
  moreover have "?n \<noteq> 0" "\<not> rb_len r \<le> off" using False by auto
  ultimately show ?thesis
    using two_copies_circ_get [OF pre]
    by (simp only: ring_peek_at_def Let_def wrapping_add_and [OF N] ring_capacity_def) simp
qed

theorem ring_peek_refines:
  assumes inv: "ring_inv r"
  shows "ring_peek r dst =
    (let n = min (length dst) (rb_len r) in (n, take n (ring_contents r) @ drop n dst))"
proof (cases "rb_len r = 0 \<or> dst = []")
  case True
  then show ?thesis using inv by (auto simp: ring_peek_def Let_def)
next
  case False
  let ?n = "min (length dst) (rb_len r)" and ?p = "rb_head r mod length (rb_buf r)"
  have N: "is_pow2 (length (rb_buf r))" using inv by (simp add: ring_inv_def ring_capacity_def)
  have len: "rb_len r \<le> length (rb_buf r)" using inv by (simp add: ring_inv_def ring_capacity_def)
  have pre: "0 < length (rb_buf r)" "?p < length (rb_buf r)" "?n \<le> length (rb_buf r)"
      "?n \<le> length dst"
    using len is_pow2_pos [OF N] by auto
  have "take ?n (rotate ?p (rb_buf r)) = take ?n (ring_contents r)"
    by (simp add: ring_contents_def ring_cells_def rotate_conv_mod [symmetric])
  moreover have "?n \<noteq> 0" using False by auto
  ultimately show ?thesis
    using two_copies_circ_get [OF pre]
    by (simp only: ring_peek_def Let_def is_pow2_and [OF N] ring_capacity_def) simp
qed

lemma ring_clear_refines:
  assumes "ring_inv r"
  shows "ring_inv (ring_clear r)" and "ring_contents (ring_clear r) = []"
    and "ring_capacity (ring_clear r) = ring_capacity r" and "rb_len (ring_clear r) = 0"
  using assms by (simp_all add: ring_clear_def ring_inv_def ring_capacity_def ring_contents_def)

lemma ring_read_refines:
  assumes inv: "ring_inv r" and rd: "ring_read r dst = (n, d, r')"
  shows "n = min (length dst) (rb_len r)" and "d = take n (ring_contents r) @ drop n dst"
    and "ring_inv r'" and "ring_contents r' = drop n (ring_contents r)"
    and "ring_capacity r' = ring_capacity r"
    and "ring_parked r' = ring_parked r @ take n (ring_contents r)"
proof -
  let ?m = "min (length dst) (rb_len r)"
  have rr: "ring_read r dst = (?m, take ?m (ring_contents r) @ drop ?m dst, ring_consume r ?m)"
    by (simp only: ring_read_def ring_peek_refines [OF inv] Let_def split)
  have n: "n = ?m" "d = take ?m (ring_contents r) @ drop ?m dst" and r': "r' = ring_consume r ?m"
    using rd unfolding rr by auto
  have idem: "?m = min ?m (rb_len r)" by simp
  note c = ring_consume_refines [OF inv idem r']
  show "n = ?m" by (rule n(1))
  show "d = take n (ring_contents r) @ drop n dst" by (simp only: n)
  show "ring_inv r'" "ring_capacity r' = ring_capacity r" by (rule c)+
  show "ring_contents r' = drop n (ring_contents r)"
    "ring_parked r' = ring_parked r @ take n (ring_contents r)" unfolding n(1) by (rule c)+
qed

lemma ring_free_regions_parked:
  assumes inv: "ring_inv r" and fr: "ring_free_regions r mx = ((a, m), (b, k))"
  shows "take m (drop a (rb_buf r)) @ take k (drop b (rb_buf r)) = take (min mx (ring_free r)) (ring_parked r)"
    and "m + k = min mx (ring_free r)"
proof -
  let ?N = "length (rb_buf r)" and ?n = "min mx (ring_free r)" and ?s = "rb_tail r mod length (rb_buf r)"
  have N: "is_pow2 ?N" and pos: "0 < ?N"
    using inv ring_inv_pos [OF inv] by (simp_all add: ring_inv_def ring_capacity_def)
  have s: "?s < ?N" using pos by simp
  have n: "?n \<le> ?N" by (simp add: ring_free_def ring_capacity_def)
  have "((a, m), (b, k)) = ((?s, min ?n (?N - ?s)), (0, ?n - min ?n (?N - ?s)))"
    by (simp only: fr [symmetric] ring_free_regions_def Let_def ring_capacity_def
        is_pow2_and [OF N] wrap_bounds [OF s n] if_True)
  then have ab: "a = ?s" "m = min ?n (?N - ?s)" "b = 0" "k = ?n - m" by (simp_all only: prod.inject)
  note k = ab(4)
  have rot: "rotate ?s (rb_buf r) = rotate (rb_len r) (ring_cells r)"
  proof -
    have "rotate ?s (rb_buf r) = rotate (rb_head r + rb_len r) (rb_buf r)"
      using inv by (intro rotate_mod_eq) (simp only: ring_inv_def ring_capacity_def mod_mod_trivial)
    then show ?thesis by (simp only: ring_cells_def rotate_rotate add.commute)
  qed
  have "take ?n (rotate ?s (rb_buf r)) = take ?n (ring_parked r)"
  proof (cases "rb_len r = ring_capacity r")
    case True
    then have "?n = 0" by (simp add: ring_free_def)
    then show ?thesis by (simp only: take0)
  next
    case False
    then have "rb_len r < length (ring_cells r)" "?n \<le> length (ring_cells r) - rb_len r"
      using ring_inv_len [OF inv] by (simp_all add: ring_free_def)
    from take_rotate [OF this(1) le_trans [OF this(2) diff_le_self]] this(2)
    show ?thesis by (simp only: rot ring_parked_def min_absorb1 diff_self_eq_0 take0 append_Nil2)
  qed
  moreover have "take ?n (rotate ?s (rb_buf r)) = take m (drop ?s (rb_buf r)) @ take k (rb_buf r)"
    unfolding k ab(2) using take_rotate [OF s n] .
  ultimately show "take m (drop a (rb_buf r)) @ take k (drop b (rb_buf r)) = take ?n (ring_parked r)"
    by (simp only: ab(1,3) drop0)
  show "m + k = ?n" unfolding k ab(2) by (rule le_add_diff_inverse [OF min.cobounded1])
qed

section \<open>The contract, as an interface\<close>

locale parking_buffer =
  fixes invar :: "'r \<Rightarrow> bool"
    and contents :: "'r \<Rightarrow> 'b list"
    and parked :: "'r \<Rightarrow> 'b list"
    and put :: "'r \<Rightarrow> 'b list \<Rightarrow> nat \<times> 'r"
    and put_at :: "'r \<Rightarrow> nat \<Rightarrow> 'b list \<Rightarrow> nat \<times> 'r"
    and commit :: "'r \<Rightarrow> nat \<Rightarrow> nat \<times> 'r"
    and consume :: "'r \<Rightarrow> nat \<Rightarrow> 'r"
  assumes put_law: "invar r \<Longrightarrow> put r xs = (n, r') \<Longrightarrow>
      n = min (length xs) (length (parked r)) \<and> invar r' \<and>
      contents r' = contents r @ take n xs \<and> parked r' = drop n (parked r)"
    and put_at_law: "invar r \<Longrightarrow> put_at r off xs = (n, r') \<Longrightarrow>
      n = min (length xs) (length (parked r) - off) \<and> invar r' \<and>
      contents r' = contents r \<and> parked r' = overlay (parked r) off (take n xs)"
    and commit_law: "invar r \<Longrightarrow> commit r k = (n, r') \<Longrightarrow>
      n = min k (length (parked r)) \<and> invar r' \<and>
      contents r' = contents r @ take n (parked r) \<and> parked r' = drop n (parked r)"
    and consume_law: "invar r \<Longrightarrow> invar (consume r k) \<and>
      contents (consume r k) = drop k (contents r) \<and>
      parked (consume r k) = parked r @ take k (contents r)"
begin

lemma park_then_fill:
  assumes inv: "invar r" and fit: "length gap + length late \<le> length (parked r)"
    and p: "put_at r (length gap) late = (n1, r1)"
    and f: "put r1 gap = (n2, r2)"
    and c: "commit r2 (length late) = (n3, r3)"
  shows "n1 = length late \<and> n2 = length gap \<and> n3 = length late \<and>
         contents r1 = contents r \<and> contents r3 = contents r @ gap @ late"
proof -
  have 1: "n1 = length late" "invar r1" "contents r1 = contents r"
      "parked r1 = overlay (parked r) (length gap) late"
    using put_at_law [OF inv p] fit by auto
  have l1: "length (parked r1) = length (parked r)" using 1 fit by simp
  have 2: "n2 = length gap" "invar r2" "contents r2 = contents r @ gap"
      "parked r2 = drop (length gap) (parked r1)"
    using put_law [OF 1(2) f] 1 l1 fit by auto
  have p2: "parked r2 = overlay (drop (length gap) (parked r)) 0 late"
    using 2(4) 1(4) fit by (simp add: drop_overlay)
  have "n3 = length late" "contents r3 = contents r2 @ take (length late) (parked r2)"
    using commit_law [OF 2(2) c] p2 fit by auto
  moreover have "take (length late) (parked r2) = late"
    unfolding p2 using fit by (intro take_overlay_0) simp
  ultimately show ?thesis using 1 2 by simp
qed

lemma put_then_drain:
  assumes inv: "invar r" and room: "length xs \<le> length (parked r)" and w: "put r xs = (n, r')"
  shows "contents (consume r' (length (contents r))) = xs"
  using put_law [OF inv w] consume_law [of r' "length (contents r)"] room by simp

end

interpretation rb: parking_buffer ring_inv ring_contents ring_parked ring_write ring_write_at
  ring_commit ring_consume
proof unfold_locales
  fix r xs n r'
  assume "ring_inv r" "ring_write r xs = (n, r')"
  from ring_write_refines [OF this]
  show "n = min (length xs) (length (ring_parked r)) \<and> ring_inv r' \<and>
      ring_contents r' = ring_contents r @ take n xs \<and> ring_parked r' = drop n (ring_parked r)"
    by simp
next
  fix r off xs n r'
  assume "ring_inv r" "ring_write_at r off xs = (n, r')"
  from ring_write_at_refines [OF this]
  show "n = min (length xs) (length (ring_parked r) - off) \<and> ring_inv r' \<and>
      ring_contents r' = ring_contents r \<and>
      ring_parked r' = overlay (ring_parked r) off (take n xs)"
    by simp
next
  fix r k n r'
  assume "ring_inv r" "ring_commit r k = (n, r')"
  from ring_commit_refines [OF this]
  show "n = min k (length (ring_parked r)) \<and> ring_inv r' \<and>
      ring_contents r' = ring_contents r @ take n (ring_parked r) \<and>
      ring_parked r' = drop n (ring_parked r)"
    by simp
next
  fix r k
  assume inv: "ring_inv r"
  from ring_consume_refines [OF inv refl refl, of k] inv
  show "ring_inv (ring_consume r k) \<and>
      ring_contents (ring_consume r k) = drop k (ring_contents r) \<and>
      ring_parked (ring_consume r k) = ring_parked r @ take k (ring_contents r)"
    by (auto simp: min_def)
qed

section \<open>The ring as a bounded FIFO with a parking area\<close>

text \<open>
  Any sequence of calls on a ring gives the results of the same calls on the pair
  (queued bytes, free cells) of the specification.
\<close>

datatype ring_op =
    OpWrite "u8 list" | OpRead "u8 list" | OpPeekAt nat "u8 list"
  | OpWriteAt nat "u8 list" | OpCommit nat | OpConsume nat

fun ring_step :: "ring \<Rightarrow> ring_op \<Rightarrow> (nat \<times> u8 list) \<times> ring" where
  "ring_step r (OpWrite xs) = (let (n, r') = ring_write r xs in ((n, []), r'))"
| "ring_step r (OpRead dst) = (let (n, d, r') = ring_read r dst in ((n, d), r'))"
| "ring_step r (OpPeekAt off dst) = (ring_peek_at r off dst, r)"
| "ring_step r (OpWriteAt off xs) = (let (n, r') = ring_write_at r off xs in ((n, []), r'))"
| "ring_step r (OpCommit k) = (let (n, r') = ring_commit r k in ((n, []), r'))"
| "ring_step r (OpConsume k) = ((0, []), ring_consume r k)"

type_synonym ring_spec = "u8 list \<times> u8 list"

fun spec_step :: "ring_spec \<Rightarrow> ring_op \<Rightarrow> (nat \<times> u8 list) \<times> ring_spec" where
  "spec_step (q, p) (OpWrite xs) =
     (let n = min (length xs) (length p) in ((n, []), (q @ take n xs, drop n p)))"
| "spec_step (q, p) (OpRead dst) =
     (let n = min (length dst) (length q)
      in ((n, take n q @ drop n dst), (drop n q, p @ take n q)))"
| "spec_step (q, p) (OpPeekAt off dst) =
     (let n = min (length dst) (length q - off) in ((n, take n (drop off q) @ drop n dst), (q, p)))"
| "spec_step (q, p) (OpWriteAt off xs) =
     (let n = min (length xs) (length p - off) in ((n, []), (q, overlay p off (take n xs))))"
| "spec_step (q, p) (OpCommit k) =
     (let n = min k (length p) in ((n, []), (q @ take n p, drop n p)))"
| "spec_step (q, p) (OpConsume k) = ((0, []), (drop k q, p @ take k q))"

definition ring_abs :: "ring \<Rightarrow> ring_spec" where
  "ring_abs r = (ring_contents r, ring_parked r)"

lemma ring_step_simulates:
  assumes inv: "ring_inv r" and st: "ring_step r op = (y, r')"
  shows "ring_inv r' \<and> spec_step (ring_abs r) op = (y, ring_abs r')"
proof (cases op)
  case (OpWrite xs)
  obtain n where "ring_write r xs = (n, r')" "y = (n, [])"
    using st OpWrite by (auto split: prod.splits)
  then show ?thesis using rb.put_law [OF inv] OpWrite by (simp add: ring_abs_def Let_def)
next
  case (OpRead dst)
  obtain n d where rd: "ring_read r dst = (n, d, r')" "y = (n, d)"
    using st OpRead by (auto split: prod.splits)
  then show ?thesis
    using ring_read_refines [OF inv rd(1)] OpRead inv by (simp add: ring_abs_def Let_def)
next
  case (OpPeekAt off dst)
  then show ?thesis
    using st inv ring_peek_at_refines [OF inv, of off dst] by (auto simp: ring_abs_def Let_def)
next
  case (OpWriteAt off xs)
  obtain n where "ring_write_at r off xs = (n, r')" "y = (n, [])"
    using st OpWriteAt by (auto split: prod.splits)
  then show ?thesis using rb.put_at_law [OF inv] OpWriteAt by (simp add: ring_abs_def Let_def)
next
  case (OpCommit k)
  obtain n where "ring_commit r k = (n, r')" "y = (n, [])"
    using st OpCommit by (auto split: prod.splits)
  then show ?thesis using rb.commit_law [OF inv] OpCommit by (simp add: ring_abs_def Let_def)
next
  case (OpConsume k)
  then show ?thesis using st rb.consume_law [OF inv, of k] by (auto simp: ring_abs_def)
qed

interpretation rs: simulation ring_inv ring_abs ring_step spec_step
  by unfold_locales (rule ring_step_simulates)

section \<open>Zero-copy writes\<close>

text \<open>
  What an application does between \<^verbatim>\<open>free_regions\<close> and \<^verbatim>\<open>commit\<close>: it
  stores \<open>xs\<close> through the two lent slices, the first one before the second.
\<close>

definition store_regions :: "ring \<Rightarrow> (usize \<times> usize) \<times> (usize \<times> usize) \<Rightarrow> u8 list \<Rightarrow> ring" where
  "store_regions r regs xs =
     (let ((a, m), (b, k)) = regs
      in r\<lparr>rb_buf := overlay (overlay (rb_buf r) a (take m xs)) b (take k (drop m xs))\<rparr>)"

lemma ring_free_regions_eq:
  fixes mx :: usize
  assumes inv: "ring_inv r"
  defines "n \<equiv> min mx (ring_free r)" and "s \<equiv> rb_tail r mod ring_capacity r"
  shows "ring_free_regions r mx = ((s, min n (ring_capacity r - s)), (0, n - min n (ring_capacity r - s)))"
proof -
  have N: "is_pow2 (ring_capacity r)" and s: "s < ring_capacity r"
    using inv ring_inv_pos [OF inv] by (simp_all add: ring_inv_def s_def)
  have n: "n \<le> ring_capacity r" by (simp add: n_def ring_free_def)
  show ?thesis
    by (simp only: ring_free_regions_def Let_def is_pow2_and [OF N] n_def [symmetric]
        s_def [symmetric] wrap_bounds [OF s n] if_True)
qed

lemma store_commit_write:
  assumes inv: "ring_inv r" and usz: "rb_tail r < 2 ^ 64" and fit: "length xs \<le> ring_free r"
  shows "ring_commit (store_regions r (ring_free_regions r (length xs)) xs) (length xs) = ring_write r xs"
proof (cases "xs = []")
  case True
  have "wrapping_add_usize (rb_tail r) 0 = rb_tail r"
    using usz by (simp add: wrapping_add_usize_def)
  then show ?thesis using True inv
    by (simp add: ring_commit_def ring_write_def store_regions_def ring_free_regions_eq [OF inv])
next
  case False
  let ?n = "length xs" and ?s = "rb_tail r mod ring_capacity r"
  have n: "?n = min ?n (ring_free r)" using fit by simp
  have m: "?n - min ?n (ring_capacity r - ?s) = length xs - length (take (ring_capacity r - ?s) xs)"
    by simp
  have "store_regions r (ring_free_regions r ?n) xs =
        r\<lparr>rb_buf := circ_put (rb_buf r) ?s (take ?n xs)\<rparr>"
    by (simp only: ring_free_regions_eq [OF inv] n [symmetric])
       (simp add: store_regions_def circ_put_def Let_def ring_capacity_def)
  moreover have "length (circ_put (rb_buf r) ?s (take ?n xs)) = length (rb_buf r)"
    using ring_inv_pos [OF inv] fit
    by (intro length_circ_put) (simp_all add: ring_capacity_def ring_free_def less_imp_le)
  ultimately show ?thesis
    using ring_write_eq [OF inv n] False fit
    by (simp add: ring_commit_def ring_free_def ring_capacity_def Let_def)
qed

section \<open>Properties\<close>

lemmas ring_eval = ring_new_def ring_write_def ring_write_at_def ring_commit_def ring_consume_def
  ring_peek_def ring_peek_at_def ring_read_def ring_free_regions_def ring_free_def ring_capacity_def
  ring_abs_def ring_abs_defs ring_inv_def is_pow2_def wrapping_add_usize_def copy_range_def
  overlay_def rotate_drop_take Let_def numeral_2_eq_2 [symmetric] replicate_numeral

text \<open>
  C12. The ring is a bounded FIFO with a parking area: whatever sequence of \<^verbatim>\<open>write\<close>,
  \<^verbatim>\<open>read\<close>, \<^verbatim>\<open>peek_at\<close>, \<^verbatim>\<open>write_at\<close>, \<^verbatim>\<open>commit\<close> and
  \<^verbatim>\<open>consume\<close> calls is made on a fresh ring, every call returns what the same call
  returns on the pair of plain lists (queued bytes, free cells), the final ring represents the
  final pair, and the cursor invariant holds at the end.
\<close>

theorem ring_refines_fifo:
  assumes "N < 2 ^ 64" and "ring_new N = Inr r" and "run_ops ring_step r ops = (ys, r')"
  shows "ring_inv r' \<and> run_ops spec_step ([], replicate N 0) ops = (ys, ring_abs r')"
proof -
  have "ring_inv r" "ring_abs r = ([], replicate N 0)"
    using assms(1,2)
    by (auto simp: ring_new_def ring_inv_def ring_capacity_def ring_abs_def ring_abs_defs
        is_pow2_def split: if_splits)
  with rs.run_simulates [OF _ assms(3)] show ?thesis by simp
qed

theorem ring_refines_fifo_witness:
  "run_ops spec_step ([], replicate 4 0) [OpWriteAt 1 [2, 3], OpWrite [1], OpCommit 2, OpRead [0, 0], OpWrite [4, 5, 6, 7]]
   = ([(2, []), (1, []), (2, []), (2, [1, 2]), (3, [])], ([3, 4, 5, 6], []))"
proof -
  let ?r = "\<lparr>rb_buf = [0, 0, 0, 0], rb_head = 0, rb_tail = 0, rb_len = 0\<rparr>"
  let ?r' = "\<lparr>rb_buf = [5, 6, 3, 4], rb_head = 2, rb_tail = 6, rb_len = 4\<rparr>"
  let ?ops = "[OpWriteAt 1 [2, 3], OpWrite [1], OpCommit 2, OpRead [0, 0], OpWrite [4, 5, 6, 7]]"
  have N: "(4 :: nat) < 2 ^ 64" by simp
  have new: "ring_new 4 = Inr ?r" by (simp add: ring_eval)
  have run: "run_ops ring_step ?r ?ops
      = ([(2, []), (1, []), (2, []), (2, [1, 2]), (3, [])], ?r')" by (simp add: ring_eval)
  have "ring_abs ?r' = ([3, 4, 5, 6], [])" by (simp add: ring_eval)
  with ring_refines_fifo [OF N new run] show ?thesis by (simp only:)
qed

text \<open>
  C13. Out-of-order reassembly in place: data parked at its final offset behind a gap, then the
  gap written, then the parked length committed, makes the queue grow by the gap followed by the
  parked data; nothing is visible before the gap is filled, and every count is the full length.
\<close>

theorem ring_park_then_fill:
  assumes "ring_inv r" and "length gap + length late \<le> ring_free r"
    and "ring_write_at r (length gap) late = (n1, r1)" and "ring_write r1 gap = (n2, r2)"
    and "ring_commit r2 (length late) = (n3, r3)"
  shows "n1 = length late \<and> n2 = length gap \<and> n3 = length late \<and>
         ring_contents r1 = ring_contents r \<and> ring_contents r3 = ring_contents r @ gap @ late"
  using rb.park_then_fill [OF assms(1) _ assms(3-5)] assms(2) by simp

theorem ring_park_then_fill_witness:
  "ring_contents \<lparr>rb_buf = [2, 3, 9, 1], rb_head = 2, rb_tail = 6, rb_len = 4\<rparr> = [9] @ [1] @ [2, 3]"
proof -
  let ?r = "\<lparr>rb_buf = [0, 0, 9, 0], rb_head = 2, rb_tail = 3, rb_len = 1\<rparr>"
  let ?r1 = "\<lparr>rb_buf = [2, 3, 9, 0], rb_head = 2, rb_tail = 3, rb_len = 1\<rparr>"
  let ?r2 = "\<lparr>rb_buf = [2, 3, 9, 1], rb_head = 2, rb_tail = 4, rb_len = 2\<rparr>"
  let ?r3 = "\<lparr>rb_buf = [2, 3, 9, 1], rb_head = 2, rb_tail = 6, rb_len = 4\<rparr>"
  have inv: "ring_inv ?r" by (simp add: ring_eval)
  have fit: "length [1 :: u8] + length [2, 3 :: u8] \<le> ring_free ?r" by (simp add: ring_eval)
  have park: "ring_write_at ?r (length [1 :: u8]) [2, 3] = (2, ?r1)" by (simp add: ring_eval)
  have fill: "ring_write ?r1 [1] = (1, ?r2)" by (simp add: ring_eval)
  have comm: "ring_commit ?r2 (length [2, 3 :: u8]) = (2, ?r3)" by (simp add: ring_eval)
  have "ring_contents ?r = [9]" by (simp add: ring_eval)
  with ring_park_then_fill [OF inv fit park fill comm] show ?thesis by simp
qed

text \<open>
  C14. Zero-copy sending equals copying: storing \<open>xs\<close> through the two slices
  \<^verbatim>\<open>free_regions\<close> lends and then committing its length leaves the ring exactly as
  \<^verbatim>\<open>write\<close> would, cursors and storage included.
\<close>

theorem ring_reserve_commit_is_write:
  assumes "ring_inv r" and "rb_tail r < 2 ^ 64" and "length xs \<le> ring_free r"
  shows "ring_commit (store_regions r (ring_free_regions r (length xs)) xs) (length xs) = ring_write r xs"
  using assms by (rule store_commit_write)

theorem ring_reserve_commit_is_write_witness:
  "ring_commit (store_regions \<lparr>rb_buf = [0, 0, 9, 0], rb_head = 2, rb_tail = 3, rb_len = 1\<rparr>
       ((3, 1), (0, 2)) [1, 2, 3]) 3
   = ring_write \<lparr>rb_buf = [0, 0, 9, 0], rb_head = 2, rb_tail = 3, rb_len = 1\<rparr> [1, 2, 3]"
proof -
  let ?r = "\<lparr>rb_buf = [0, 0, 9, 0], rb_head = 2, rb_tail = 3, rb_len = 1\<rparr>"
  have "ring_inv ?r" "rb_tail ?r < 2 ^ 64" "length [1, 2, 3 :: u8] \<le> ring_free ?r" by (simp_all add: ring_eval)
  moreover have "ring_free_regions ?r (length [1, 2, 3 :: u8]) = ((3, 1), (0, 2))" by (simp add: ring_eval)
  ultimately show ?thesis
    using ring_reserve_commit_is_write [of ?r "[1, 2, 3]"] by (simp add: numeral_3_eq_3)
qed

end
