(* ===== verification/Tx_Ring.thy ===== *)
theory Tx_Ring
  imports Prelude
begin

text \<open>
  The egress staging ring of \<^verbatim>\<open>tx_ring.rs\<close>: \<open>SLOTS\<close> packet slots of
  \<open>MAX_PACKET\<close> bytes, pushed at the tail by the emit paths and popped at the head by
  the host. The const parameter is the length of the slot list. \<open>tx_packets\<close> abstracts
  the ring to the list of staged packets, and the locale \<open>packet_fifo\<close> states the strict
  FIFO contract the engine relies on. The closure passed to \<^verbatim>\<open>push_with\<close> is a function
  from the slot's bytes to its result and the bytes it leaves there, whether it fails or not.
\<close>

section \<open>Model\<close>

definition MAX_PACKET :: usize where
  "MAX_PACKET = 1500"

definition TX_RING_CAP :: usize where
  "TX_RING_CAP = 32"

definition tx_slots_for :: "usize \<Rightarrow> usize" where
  "tx_slots_for buf =
     (if buf \<le> 64 * 1024 then 8 else if buf \<le> 256 * 1024 then 16 else TX_RING_CAP)"

record slot =
  sl_buf :: "u8 list"
  sl_len :: u16

definition slot_new :: slot where
  "slot_new = \<lparr>sl_buf = replicate MAX_PACKET 0, sl_len = 0\<rparr>"

record tx_ring =
  tx_slots :: "slot list"
  tx_head :: usize
  tx_len :: usize

definition tx_new :: "usize \<Rightarrow> tx_ring" where
  "tx_new SLOTS = \<lparr>tx_slots = replicate SLOTS slot_new, tx_head = 0, tx_len = 0\<rparr>"

definition tx_is_empty :: "tx_ring \<Rightarrow> bool" where
  "tx_is_empty t = (tx_len t = 0)"

definition tx_is_full :: "tx_ring \<Rightarrow> bool" where
  "tx_is_full t = (tx_len t = length (tx_slots t))"

definition tx_clear :: "tx_ring \<Rightarrow> tx_ring" where
  "tx_clear t = t\<lparr>tx_head := 0, tx_len := 0\<rparr>"

definition tx_peek_head_len :: "tx_ring \<Rightarrow> usize option" where
  "tx_peek_head_len t =
     (if tx_len t = 0 then None
      else map_option (\<lambda>s. unat (sl_len s)) (get_at (tx_slots t) (tx_head t)))"

definition tx_push_with :: "(u8 list, usize) rsm \<Rightarrow> (tx_ring, bool) rsm" where
  "tx_push_with f t =
     (if tx_len t = length (tx_slots t) then (Inr False, t)
      else let tail = (tx_head t + tx_len t) mod length (tx_slots t)
           in case get_at (tx_slots t) tail of
                None \<Rightarrow> (Inl Overflow, t)
              | Some slot \<Rightarrow>
                  (case f (sl_buf slot) of
                     (Inl e, b) \<Rightarrow> (Inl e, t\<lparr>tx_slots := (tx_slots t)[tail := slot\<lparr>sl_buf := b\<rparr>]\<rparr>)
                   | (Inr n, b) \<Rightarrow>
                       if n = 0 \<or> MAX_PACKET < n
                       then (Inl Overflow, t\<lparr>tx_slots := (tx_slots t)[tail := slot\<lparr>sl_buf := b\<rparr>]\<rparr>)
                       else (Inr True,
                             t\<lparr>tx_slots := (tx_slots t)[tail := slot\<lparr>sl_buf := b, sl_len := of_nat n\<rparr>],
                               tx_len := tx_len t + 1\<rparr>)))"

definition tx_pop_into :: "u8 list \<Rightarrow> tx_ring \<Rightarrow> usize result \<times> u8 list \<times> tx_ring" where
  "tx_pop_into out t =
     (if tx_len t = 0 then (Inr 0, out, t)
      else case get_at (tx_slots t) (tx_head t) of
             None \<Rightarrow> (Inl Overflow, out, t)
           | Some slot \<Rightarrow>
               let n = unat (sl_len slot)
               in if length out < n then (Inl BufferTooSmall, out, t)
                  else case get_range (sl_buf slot) 0 n of
                         None \<Rightarrow> (Inl Overflow, out, t)
                       | Some src \<Rightarrow>
                           (Inr n, overlay out 0 src,
                            t\<lparr>tx_head := (tx_head t + 1) mod length (tx_slots t),
                              tx_len := tx_len t - 1\<rparr>))"

definition tx_pop_with :: "(u8 list \<Rightarrow> 'r) \<Rightarrow> tx_ring \<Rightarrow> 'r option \<times> tx_ring" where
  "tx_pop_with f t =
     (if tx_len t = 0 then (None, t)
      else case get_at (tx_slots t) (tx_head t) of
             None \<Rightarrow> (None, t)
           | Some slot \<Rightarrow>
               case get_range (sl_buf slot) 0 (unat (sl_len slot)) of
                 None \<Rightarrow> (None, t)
               | Some src \<Rightarrow>
                   (Some (f src),
                    t\<lparr>tx_head := (tx_head t + 1) mod length (tx_slots t),
                      tx_len := tx_len t - 1\<rparr>))"

section \<open>Invariant and abstraction\<close>

definition slot_bytes :: "slot \<Rightarrow> u8 list" where
  "slot_bytes s = take (unat (sl_len s)) (sl_buf s)"

definition tx_staged :: "tx_ring \<Rightarrow> slot list" where
  "tx_staged t = take (tx_len t) (rotate (tx_head t) (tx_slots t))"

definition tx_packets :: "tx_ring \<Rightarrow> u8 list list" where
  "tx_packets t = map slot_bytes (tx_staged t)"

definition slot_ok :: "slot \<Rightarrow> bool" where
  "slot_ok s \<longleftrightarrow> sl_len s \<noteq> 0 \<and> unat (sl_len s) \<le> MAX_PACKET"

definition tx_inv :: "tx_ring \<Rightarrow> bool" where
  "tx_inv t \<longleftrightarrow>
     tx_head t < length (tx_slots t) \<and> tx_len t \<le> length (tx_slots t) \<and>
     list_all (\<lambda>s. length (sl_buf s) = MAX_PACKET) (tx_slots t) \<and>
     list_all slot_ok (tx_staged t)"

definition fills_slot :: "(u8 list, usize) rsm \<Rightarrow> bool" where
  "fills_slot f \<longleftrightarrow> (\<forall>b. length (snd (f b)) = length b)"

lemma slot_ok_of_nat: "0 < n \<Longrightarrow> n \<le> MAX_PACKET \<Longrightarrow> unat (of_nat n :: u16) = n"
  by (simp add: MAX_PACKET_def unat_of_nat_small)

lemma tx_head_slot:
  assumes "tx_inv t" "0 < tx_len t"
  shows "get_at (tx_slots t) (tx_head t) = Some (hd (tx_staged t))" and "tx_staged t \<noteq> []"
    and "slot_ok (hd (tx_staged t))" and "length (sl_buf (hd (tx_staged t))) = MAX_PACKET"
proof -
  have h: "tx_head t < length (tx_slots t)" using assms by (simp add: tx_inv_def)
  then have hd: "hd (tx_staged t) = tx_slots t ! tx_head t"
    using assms hd_rotate by (simp add: tx_staged_def)
  then show "get_at (tx_slots t) (tx_head t) = Some (hd (tx_staged t))"
    using h by (simp add: get_at_def)
  show ne: "tx_staged t \<noteq> []" using assms h by (auto simp: tx_staged_def)
  show "slot_ok (hd (tx_staged t))" using ne assms by (simp add: tx_inv_def list_all_iff)
  show "length (sl_buf (hd (tx_staged t))) = MAX_PACKET"
    using hd h assms by (simp add: tx_inv_def list_all_iff)
qed

lemma tx_popped:
  assumes inv: "tx_inv t" and pos: "0 < tx_len t"
  defines "t' \<equiv> t\<lparr>tx_head := (tx_head t + 1) mod length (tx_slots t), tx_len := tx_len t - 1\<rparr>"
  shows "tx_inv t'" and "tx_staged t' = tl (tx_staged t)"
proof -
  have h: "tx_head t < length (tx_slots t)" "tx_len t \<le> length (tx_slots t)"
    using inv by (simp_all add: tx_inv_def)
  obtain n where n: "tx_len t = Suc n" using pos by (cases "tx_len t") auto
  show st: "tx_staged t' = tl (tx_staged t)"
    using n h take_rotate_tl [of n "tx_slots t" "tx_head t"] by (simp add: tx_staged_def t'_def)
  have "0 < length (tx_slots t)" using h(1) by (rule le_less_trans [OF le0])
  then show "tx_inv t'"
    using inv st h by (cases "tx_staged t") (auto simp: tx_inv_def t'_def list_all_iff)
qed

lemma tx_pushed:
  fixes s :: slot and b :: "u8 list" and n :: nat
  assumes inv: "tx_inv t" and room: "tx_len t < length (tx_slots t)"
    and len: "length b = MAX_PACKET" and n: "0 < n" "n \<le> MAX_PACKET"
  defines "tail \<equiv> (tx_head t + tx_len t) mod length (tx_slots t)"
  defines "t' \<equiv> t\<lparr>tx_slots := (tx_slots t)[tail := s\<lparr>sl_buf := b, sl_len := of_nat n\<rparr>],
                  tx_len := tx_len t + 1\<rparr>"
  shows "tx_inv t'" and "tx_packets t' = tx_packets t @ [take n b]"
proof -
  have rot: "rotate (tx_head t) (tx_slots t') =
      (rotate (tx_head t) (tx_slots t))[tx_len t := s\<lparr>sl_buf := b, sl_len := of_nat n\<rparr>]"
    using rotate_list_update [OF room] by (simp add: t'_def tail_def)
  have st: "tx_staged t' = tx_staged t @ [s\<lparr>sl_buf := b, sl_len := of_nat n\<rparr>]"
    using room rot by (simp add: tx_staged_def t'_def take_Suc_list_update)
  have "slot_ok (s\<lparr>sl_buf := b, sl_len := of_nat n\<rparr>)"
    using n slot_ok_of_nat [OF n] by (auto simp: slot_ok_def unsigned_0 simp flip: unat_eq_0)
  then show "tx_inv t'"
    using inv st room len
    by (auto simp: tx_inv_def t'_def list_all_iff dest!: subsetD [OF set_update_subset_insert])
  show "tx_packets t' = tx_packets t @ [take n b]"
    using st slot_ok_of_nat [OF n] by (simp add: tx_packets_def slot_bytes_def)
qed

lemma tx_scribbled:
  fixes s :: slot and b :: "u8 list"
  assumes inv: "tx_inv t" and room: "tx_len t < length (tx_slots t)" and len: "length b = MAX_PACKET"
  defines "tail \<equiv> (tx_head t + tx_len t) mod length (tx_slots t)"
  defines "t' \<equiv> t\<lparr>tx_slots := (tx_slots t)[tail := s\<lparr>sl_buf := b\<rparr>]\<rparr>"
  shows "tx_inv t'" and "tx_packets t' = tx_packets t"
proof -
  have "rotate (tx_head t) (tx_slots t') = (rotate (tx_head t) (tx_slots t))[tx_len t := s\<lparr>sl_buf := b\<rparr>]"
    using rotate_list_update [OF room] by (simp add: t'_def tail_def)
  then have st: "tx_staged t' = tx_staged t" by (simp add: tx_staged_def t'_def)
  then show "tx_packets t' = tx_packets t" by (simp add: tx_packets_def)
  show "tx_inv t'"
    using inv st room len
    by (auto simp: tx_inv_def t'_def list_all_iff dest!: subsetD [OF set_update_subset_insert])
qed

lemma tx_tail_slot:
  assumes "tx_inv t" "tx_len t < length (tx_slots t)"
  obtains s where "get_at (tx_slots t) ((tx_head t + tx_len t) mod length (tx_slots t)) = Some s"
    and "length (sl_buf s) = MAX_PACKET"
proof -
  have "(tx_head t + tx_len t) mod length (tx_slots t) < length (tx_slots t)"
    using assms by (intro mod_less_divisor) auto
  then show ?thesis using assms by (intro that) (auto simp: get_at_def tx_inv_def list_all_iff)
qed

section \<open>The operations refine a FIFO of packets\<close>

lemma tx_inv_new: "0 < n \<Longrightarrow> tx_inv (tx_new n) \<and> tx_packets (tx_new n) = []"
  by (auto simp: tx_inv_def tx_new_def tx_packets_def tx_staged_def slot_new_def list_all_iff)

lemma tx_inv_clear:
  assumes "tx_inv t"
  shows "tx_inv (tx_clear t) \<and> tx_packets (tx_clear t) = []"
  using assms by (auto simp: tx_inv_def tx_clear_def tx_packets_def tx_staged_def)

lemma tx_len_packets: "tx_inv t \<Longrightarrow> length (tx_packets t) = tx_len t"
  by (simp add: tx_inv_def tx_packets_def tx_staged_def)

lemma tx_push_full: "tx_is_full t \<Longrightarrow> tx_push_with f t = (Inr False, t)"
  by (simp add: tx_push_with_def tx_is_full_def)

lemma tx_push_refines:
  assumes inv: "tx_inv t" and f: "fills_slot f" and p: "tx_push_with f t = (res, t')"
  shows "tx_inv t' \<and> length (tx_slots t') = length (tx_slots t) \<and>
    (case res of
       Inr True \<Rightarrow> \<not> tx_is_full t \<and>
         (\<exists>b b' n. f b = (Inr n, b') \<and> length b = MAX_PACKET \<and> 0 < n \<and> n \<le> MAX_PACKET \<and>
            tx_packets t' = tx_packets t @ [take n b'])
     | Inr False \<Rightarrow> tx_is_full t \<and> t' = t
     | Inl e \<Rightarrow> tx_packets t' = tx_packets t)"
proof (cases "tx_is_full t")
  case True
  then show ?thesis using p inv by (auto simp: tx_push_full)
next
  case False
  then have room: "tx_len t < length (tx_slots t)" using inv by (auto simp: tx_inv_def tx_is_full_def)
  obtain s where s: "get_at (tx_slots t) ((tx_head t + tx_len t) mod length (tx_slots t)) = Some s"
      and sl: "length (sl_buf s) = MAX_PACKET"
    using tx_tail_slot [OF inv room] .
  obtain r b where fb: "f (sl_buf s) = (r, b)" by (cases "f (sl_buf s)")
  then have bl: "length b = MAX_PACKET" using f sl by (metis fills_slot_def snd_conv)
  note scr = tx_scribbled [OF inv room bl, of s]
  show ?thesis
  proof (cases r)
    case (Inl e)
    then show ?thesis using p room s fb scr by (auto simp: tx_push_with_def Let_def)
  next
    case (Inr n)
    show ?thesis
    proof (cases "n = 0 \<or> MAX_PACKET < n")
      case True
      then show ?thesis using Inr p room s fb scr by (auto simp: tx_push_with_def Let_def)
    next
      case nb: False
      then have n: "0 < n" "n \<le> MAX_PACKET" by auto
      then have "res = Inr True" "t' = t\<lparr>tx_slots := (tx_slots t)[(tx_head t + tx_len t) mod length (tx_slots t)
            := s\<lparr>sl_buf := b, sl_len := of_nat n\<rparr>], tx_len := tx_len t + 1\<rparr>"
        using Inr p room s fb by (auto simp: tx_push_with_def Let_def)
      then show ?thesis using tx_pushed [OF inv room bl n, of s] False fb Inr sl n by auto
    qed
  qed
qed

lemma tx_pop_with_refines:
  assumes inv: "tx_inv t"
  shows "case tx_packets t of
           [] \<Rightarrow> tx_pop_with f t = (None, t)
         | p # ps \<Rightarrow> \<exists>t'. tx_pop_with f t = (Some (f p), t') \<and> tx_inv t' \<and> tx_packets t' = ps"
proof (cases "tx_len t = 0")
  case True
  then show ?thesis by (simp add: tx_packets_def tx_staged_def tx_pop_with_def)
next
  case False
  then have pos: "0 < tx_len t" by simp
  note hd = tx_head_slot [OF inv pos]
  from hd(2) obtain s ss where st: "tx_staged t = s # ss" by (cases "tx_staged t") auto
  have "get_range (sl_buf s) 0 (unat (sl_len s)) = Some (slot_bytes s)"
    using hd(3,4) st by (simp add: get_range_def slot_ok_def slot_bytes_def)
  then show ?thesis
    using False hd(1) st tx_popped [OF inv pos] by (simp add: tx_pop_with_def tx_packets_def)
qed

lemma tx_pop_into_refines:
  assumes inv: "tx_inv t"
  shows "case tx_packets t of
           [] \<Rightarrow> tx_pop_into out t = (Inr 0, out, t)
         | p # ps \<Rightarrow>
             if length out < length p then tx_pop_into out t = (Inl BufferTooSmall, out, t)
             else \<exists>t'. tx_pop_into out t = (Inr (length p), p @ drop (length p) out, t') \<and>
                       p \<noteq> [] \<and> tx_inv t' \<and> tx_packets t' = ps"
proof (cases "tx_len t = 0")
  case True
  then show ?thesis by (simp add: tx_packets_def tx_staged_def tx_pop_into_def)
next
  case False
  then have pos: "0 < tx_len t" by simp
  note hd = tx_head_slot [OF inv pos]
  from hd(2) obtain s ss where st: "tx_staged t = s # ss" by (cases "tx_staged t") auto
  have sl: "length (slot_bytes s) = unat (sl_len s)" "slot_bytes s \<noteq> []"
      "get_range (sl_buf s) 0 (unat (sl_len s)) = Some (slot_bytes s)"
    using hd(3,4) st by (auto simp: get_range_def slot_ok_def slot_bytes_def MAX_PACKET_def simp flip: unat_pos_iff)
  then show ?thesis
    using False hd(1) st tx_popped [OF inv pos]
    by (simp add: tx_pop_into_def tx_packets_def Let_def overlay_def)
qed

section \<open>Every sequence of calls\<close>

text \<open>
  Staging a given packet is \<^verbatim>\<open>push_with\<close> with a closure that copies it into the slot.
\<close>

definition put_packet :: "u8 list \<Rightarrow> (u8 list, usize) rsm" where
  "put_packet p b =
     (if length p \<le> length b then (Inr (length p), overlay b 0 p) else (Inl BufferTooSmall, b))"

lemma fills_put_packet [simp]: "fills_slot (put_packet p)"
  by (simp add: fills_slot_def put_packet_def)

datatype tx_op = TxPush "u8 list" | TxPopInto "u8 list" | TxPop | TxPeekHeadLen | TxClear

datatype tx_reply = Pushed "bool result" | Popped "usize result" "u8 list"
  | PoppedSlice "u8 list option" | HeadLen "usize option" | Cleared

fun tx_step :: "tx_ring \<Rightarrow> tx_op \<Rightarrow> tx_reply \<times> tx_ring" where
  "tx_step t (TxPush p) = (case tx_push_with (put_packet p) t of (r, t') \<Rightarrow> (Pushed r, t'))"
| "tx_step t (TxPopInto out) = (case tx_pop_into out t of (r, d, t') \<Rightarrow> (Popped r d, t'))"
| "tx_step t TxPop = (case tx_pop_with id t of (r, t') \<Rightarrow> (PoppedSlice r, t'))"
| "tx_step t TxPeekHeadLen = (HeadLen (tx_peek_head_len t), t)"
| "tx_step t TxClear = (Cleared, tx_clear t)"

text \<open>The specification: a capacity and a list of packets.\<close>

type_synonym tx_spec = "nat \<times> u8 list list"

fun tx_spec_step :: "tx_spec \<Rightarrow> tx_op \<Rightarrow> tx_reply \<times> tx_spec" where
  "tx_spec_step (n, q) (TxPush p) =
     (if length q = n then (Pushed (Inr False), (n, q))
      else if MAX_PACKET < length p then (Pushed (Inl BufferTooSmall), (n, q))
      else if p = [] then (Pushed (Inl Overflow), (n, q))
      else (Pushed (Inr True), (n, q @ [p])))"
| "tx_spec_step (n, q) (TxPopInto out) =
     (case q of
        [] \<Rightarrow> (Popped (Inr 0) out, (n, q))
      | p # ps \<Rightarrow>
          if length out < length p then (Popped (Inl BufferTooSmall) out, (n, q))
          else (Popped (Inr (length p)) (p @ drop (length p) out), (n, ps)))"
| "tx_spec_step (n, q) TxPop =
     (case q of [] \<Rightarrow> (PoppedSlice None, (n, q)) | p # ps \<Rightarrow> (PoppedSlice (Some p), (n, ps)))"
| "tx_spec_step (n, q) TxPeekHeadLen =
     (HeadLen (case q of [] \<Rightarrow> None | p # ps \<Rightarrow> Some (length p)), (n, q))"
| "tx_spec_step (n, q) TxClear = (Cleared, (n, []))"

definition tx_abs :: "tx_ring \<Rightarrow> tx_spec" where
  "tx_abs t = (length (tx_slots t), tx_packets t)"

lemma tx_push_packet:
  assumes inv: "tx_inv t" and push: "tx_push_with (put_packet p) t = (r, t')"
  shows "tx_inv t' \<and> tx_spec_step (tx_abs t) (TxPush p) = (Pushed r, tx_abs t')"
proof (cases "tx_is_full t")
  case True
  then show ?thesis
    using push inv tx_len_packets [OF inv] by (auto simp: tx_push_full tx_abs_def tx_is_full_def)
next
  case False
  then have room: "tx_len t < length (tx_slots t)" using inv by (auto simp: tx_inv_def tx_is_full_def)
  then have "length (tx_packets t) \<noteq> length (tx_slots t)" using tx_len_packets [OF inv] by simp
  moreover obtain s where s: "get_at (tx_slots t) ((tx_head t + tx_len t) mod length (tx_slots t)) = Some s"
      "length (sl_buf s) = MAX_PACKET"
    using tx_tail_slot [OF inv room] .
  then have "r = (if MAX_PACKET < length p then Inl BufferTooSmall
                  else if p = [] then Inl Overflow else Inr True)"
    using push room by (auto simp: tx_push_with_def put_packet_def split: if_splits)
  moreover note tx_push_refines [OF inv fills_put_packet push]
  ultimately show ?thesis
    using False by (auto simp: tx_abs_def put_packet_def overlay_def split: if_splits)
qed

lemma tx_peek_spec:
  assumes inv: "tx_inv t"
  shows "tx_peek_head_len t = (case tx_packets t of [] \<Rightarrow> None | p # ps \<Rightarrow> Some (length p))"
proof (cases "tx_len t = 0")
  case True
  then show ?thesis by (simp add: tx_peek_head_len_def tx_packets_def tx_staged_def)
next
  case False
  then have pos: "0 < tx_len t" by simp
  note hd = tx_head_slot [OF inv pos]
  from hd(2) obtain s ss where "tx_staged t = s # ss" by (cases "tx_staged t") auto
  then show ?thesis
    using hd False by (simp add: tx_peek_head_len_def tx_packets_def slot_bytes_def slot_ok_def)
qed

lemma tx_pop_slots:
  "tx_pop_into out t = (r, d, t') \<Longrightarrow> length (tx_slots t') = length (tx_slots t)"
  "tx_pop_with f t = (x, t') \<Longrightarrow> length (tx_slots t') = length (tx_slots t)"
  by (auto simp: tx_pop_into_def tx_pop_with_def Let_def split: if_splits option.splits)

lemma tx_step_simulates:
  assumes inv: "tx_inv t" and st: "tx_step t x = (y, t')"
  shows "tx_inv t' \<and> tx_spec_step (tx_abs t) x = (y, tx_abs t')"
proof (cases x)
  case (TxPush p)
  then obtain r where "tx_push_with (put_packet p) t = (r, t')" "y = Pushed r"
    using st by (auto split: prod.splits)
  then show ?thesis using tx_push_packet [OF inv] TxPush by simp
next
  case (TxPopInto out)
  then obtain r d where pop: "tx_pop_into out t = (r, d, t')" "y = Popped r d"
    using st by (auto split: prod.splits)
  from tx_pop_into_refines [OF inv, of out] pop tx_pop_slots(1) [OF pop(1)] inv TxPopInto
  show ?thesis by (auto simp: tx_abs_def split: list.splits if_splits)
next
  case TxPop
  then obtain r where pop: "tx_pop_with id t = (r, t')" "y = PoppedSlice r"
    using st by (auto split: prod.splits)
  from tx_pop_with_refines [OF inv, of id] pop tx_pop_slots(2) [OF pop(1)] inv TxPop
  show ?thesis by (auto simp: tx_abs_def split: list.splits)
next
  case TxPeekHeadLen
  then show ?thesis using st inv tx_peek_spec [OF inv] by (auto simp: tx_abs_def)
next
  case TxClear
  then show ?thesis using st tx_inv_clear [OF inv] by (auto simp: tx_abs_def tx_clear_def)
qed

lemma tx_spec_capacity:
  "run_ops tx_spec_step (m, q) xs = (ys, (m', q')) \<Longrightarrow> m' = m"
proof (induction xs arbitrary: q ys)
  case (Cons x xs)
  obtain y k r zs where st: "tx_spec_step (m, q) x = (y, (k, r))" "run_ops tx_spec_step (k, r) xs = (zs, (m', q'))"
    using Cons.prems by (auto split: prod.splits)
  then have "k = m" by (cases x) (auto split: if_splits list.splits)
  with st Cons.IH show ?case by simp
qed simp

interpretation ts: simulation tx_inv tx_abs tx_step tx_spec_step
  by unfold_locales (rule tx_step_simulates)

section \<open>Properties\<close>

text \<open>
  C15. The egress ring is a strict FIFO of packets: whatever sequence of pushes, pops, peeks and
  clears is made on a fresh ring of \<open>n\<close> slots, every call answers as the same call on a
  list of at most \<open>n\<close> packets. In particular no packet is lost, duplicated, reordered or
  altered, a push is refused only when the ring is full, and a pop into a buffer that is too
  short leaves the packet in place.
\<close>

theorem tx_ring_refines_fifo:
  assumes "0 < n" and "run_ops tx_step (tx_new n) xs = (ys, t')"
  shows "run_ops tx_spec_step (n, []) xs = (ys, tx_abs t') \<and> length (tx_packets t') \<le> n"
proof -
  have new: "tx_inv (tx_new n)" "tx_abs (tx_new n) = (n, [])"
    using tx_inv_new [OF assms(1)] by (simp_all add: tx_abs_def tx_new_def)
  have "tx_inv t' \<and> run_ops tx_spec_step (n, []) xs = (ys, tx_abs t')"
    using ts.run_simulates [OF new(1) assms(2)] new(2) by simp
  moreover from this have "length (tx_slots t') = n"
    using tx_spec_capacity [of n "[]" xs ys] by (simp add: tx_abs_def)
  ultimately show ?thesis
    using tx_len_packets [of t'] by (simp add: tx_inv_def)
qed

theorem tx_ring_refines_fifo_witness:
  "fst (run_ops tx_step (tx_new 2)
     [TxPush [1, 2], TxPush [3], TxPush [4], TxPopInto [0], TxPopInto [0, 0, 9], TxPeekHeadLen, TxPop, TxPop])
   = [Pushed (Inr True), Pushed (Inr True), Pushed (Inr False), Popped (Inl BufferTooSmall) [0],
      Popped (Inr 2) [1, 2, 9], HeadLen (Some 1), PoppedSlice (Some [3]), PoppedSlice None]"
  (is "fst (run_ops _ _ ?xs) = _")
proof -
  have pos: "(0 :: nat) < 2" by simp
  have "run_ops tx_step (tx_new 2) ?xs =
     (fst (run_ops tx_step (tx_new 2) ?xs), snd (run_ops tx_step (tx_new 2) ?xs))"
    by (rule prod.collapse [symmetric])
  from tx_ring_refines_fifo [OF pos this]
  have "fst (run_ops tx_spec_step (2, []) ?xs) = fst (run_ops tx_step (tx_new 2) ?xs)"
    by (metis fst_conv)
  moreover have "fst (run_ops tx_spec_step (2, []) ?xs) =
     [Pushed (Inr True), Pushed (Inr True), Pushed (Inr False), Popped (Inl BufferTooSmall) [0],
      Popped (Inr 2) [1, 2, 9], HeadLen (Some 1), PoppedSlice (Some [3]), PoppedSlice None]"
    by (simp add: MAX_PACKET_def)
  ultimately show ?thesis by simp
qed

end
