(* ===== verification/State.thy ===== *)
theory State
  imports Prelude
begin

text \<open>
  The connection states of \<^verbatim>\<open>state.rs\<close>, the predicates the engine tests on them,
  and \<^verbatim>\<open>debug_transition_allowed\<close>, the table of the state changes one call of the
  public interface may make. The table is the contract the state-machine theories are held to.
\<close>

section \<open>Model\<close>

datatype state =
    Closed | SynSent | Established | FinWait1 | FinWait2 | Closing | TimeWait | CloseWait
  | LastAck | Listen | SynRcvd

fun state_code :: "state \<Rightarrow> u8" where
  "state_code Closed = 0"
| "state_code SynSent = 1"
| "state_code Established = 2"
| "state_code FinWait1 = 3"
| "state_code FinWait2 = 4"
| "state_code Closing = 5"
| "state_code TimeWait = 6"
| "state_code CloseWait = 7"
| "state_code LastAck = 8"
| "state_code Listen = 9"
| "state_code SynRcvd = 10"

definition can_send :: "state \<Rightarrow> bool" where
  "can_send s \<longleftrightarrow> s = Established \<or> s = CloseWait"

definition can_recv :: "state \<Rightarrow> bool" where
  "can_recv s \<longleftrightarrow> s = Established \<or> s = FinWait1 \<or> s = FinWait2"

definition is_closed :: "state \<Rightarrow> bool" where
  "is_closed s \<longleftrightarrow> s = Closed"

definition is_listening :: "state \<Rightarrow> bool" where
  "is_listening s \<longleftrightarrow> s = Listen \<or> s = SynRcvd"

definition is_synchronized :: "state \<Rightarrow> bool" where
  "is_synchronized s \<longleftrightarrow>
     s = Established \<or> s = FinWait1 \<or> s = FinWait2 \<or> s = Closing \<or> s = CloseWait \<or>
     s = LastAck \<or> s = TimeWait"

fun listed_move :: "state \<Rightarrow> state \<Rightarrow> bool" where
  "listed_move Closed n = (n \<in> {SynSent, Listen})"
| "listed_move Listen n = (n \<in> {SynRcvd, Established, CloseWait, Closed})"
| "listed_move SynSent n = (n \<in> {Established, SynRcvd, Closed})"
| "listed_move SynRcvd n = (n \<in> {Established, CloseWait, FinWait1, Listen, Closed})"
| "listed_move Established n = (n \<in> {FinWait1, CloseWait, Closed})"
| "listed_move FinWait1 n = (n \<in> {FinWait2, Closing, TimeWait, Closed})"
| "listed_move FinWait2 n = (n \<in> {TimeWait, Closed})"
| "listed_move Closing n = (n \<in> {TimeWait, Closed})"
| "listed_move TimeWait n = (n \<in> {Closed, Listen})"
| "listed_move CloseWait n = (n \<in> {LastAck, Closed})"
| "listed_move LastAck n = (n \<in> {Closed})"

definition debug_transition_allowed :: "state \<Rightarrow> state \<Rightarrow> bool" where
  "debug_transition_allowed s n \<longleftrightarrow> s = n \<or> listed_move s n"

section \<open>Lemmas\<close>

lemmas state_preds = can_send_def can_recv_def is_closed_def is_listening_def is_synchronized_def

lemma state_code_inject [simp]: "state_code a = state_code b \<longleftrightarrow> a = b"
  by (cases a; cases b) simp_all

lemma transition_refl [simp, intro]: "debug_transition_allowed s s"
  by (simp add: debug_transition_allowed_def)

lemma transition_to_Closed: "s \<noteq> Closed \<Longrightarrow> debug_transition_allowed s Closed"
  by (cases s) (simp_all add: debug_transition_allowed_def)

end
