(* ===== verification/Checksum.thy ===== *)
theory Checksum
  imports Prelude
begin

unbundle bit_operations_syntax

text \<open>
  The Internet checksum of \<^verbatim>\<open>wire.rs\<close>: the folding loop, the 32-bit-at-a-time ones'
  complement sum with its byte-order correction, the pseudo-header sum and the full and partial
  TCP checksums. The reference is RFC 1071: the sum of the big-endian 16-bit words, reduced to
  the canonical representative \<open>oc16\<close> of its class modulo 65535 (0 only for the empty sum).
  The lemmas show that the optimised routine computes it, on either byte order, and that a
  datagram whose checksum field holds the complement of its sum verifies.
\<close>

section \<open>Model\<close>

type_synonym ip4 = "u8 \<times> u8 \<times> u8 \<times> u8"

fun u32_from_le_bytes :: "ip4 \<Rightarrow> u32" where
  "u32_from_le_bytes (a, b, c, d) =
     ucast a OR push_bit 8 (ucast b) OR push_bit 16 (ucast c) OR push_bit 24 (ucast d)"

fun u32_from_be_bytes :: "ip4 \<Rightarrow> u32" where
  "u32_from_be_bytes (a, b, c, d) =
     push_bit 24 (ucast a) OR push_bit 16 (ucast b) OR push_bit 8 (ucast c) OR ucast d"

definition u32_from_ne_bytes :: "bool \<Rightarrow> ip4 \<Rightarrow> u32" where
  "u32_from_ne_bytes le w = (if le then u32_from_le_bytes w else u32_from_be_bytes w)"

fun u16_from_be_bytes :: "u8 \<times> u8 \<Rightarrow> u16" where
  "u16_from_be_bytes (a, b) = push_bit 8 (ucast a) OR ucast b"

definition u16_to_be_bytes :: "u16 \<Rightarrow> u8 list" where
  "u16_to_be_bytes v = [ucast (drop_bit 8 v), ucast v]"

definition u32_to_be_bytes :: "u32 \<Rightarrow> u8 list" where
  "u32_to_be_bytes v =
     [ucast (drop_bit 24 v), ucast (drop_bit 16 v), ucast (drop_bit 8 v), ucast v]"

definition swap_bytes16 :: "u16 \<Rightarrow> u16" where
  "swap_bytes16 v = push_bit 8 v OR drop_bit 8 v"

lemma quot_rem_less: "0 < q \<Longrightarrow> n = q * 2 ^ 16 + r \<Longrightarrow> r + q < (n :: nat)"
  by simp

lemma fold_decreases:
  assumes "0xFFFF < (acc :: u64)"
  shows "unat ((acc AND 0xFFFF) + drop_bit 16 acc) = unat acc mod 2 ^ 16 + unat acc div 2 ^ 16"
    and "unat acc mod 2 ^ 16 + unat acc div 2 ^ 16 < unat acc"
proof -
  have m: "(0xFFFF :: u64) = mask 16" by (simp add: mask_eq_exp_minus_1)
  have u: "unat (acc AND 0xFFFF) = unat acc mod 2 ^ 16" "unat (drop_bit 16 acc) = unat acc div 2 ^ 16"
    by (simp_all only: m take_bit_eq_mask [symmetric] take_bit_eq_mod drop_bit_eq_div)
      (simp_all add: unat_mod_distrib unat_div_distrib)
  have lt: "unat acc < 2 ^ 64" using unsigned_less [of acc] by simp
  then have "unat acc div 2 ^ 16 < 2 ^ 48" by (simp add: less_mult_imp_div_less)
  then show "unat ((acc AND 0xFFFF) + drop_bit 16 acc) = unat acc mod 2 ^ 16 + unat acc div 2 ^ 16"
    using u by (simp add: unat_word_ariths)
  have "2 ^ 16 \<le> unat acc" using assms by (simp add: word_less_nat_alt)
  then have "0 < unat acc div 2 ^ 16" by (simp add: div_greater_zero_iff)
  moreover have "unat acc = unat acc div 2 ^ 16 * 2 ^ 16 + unat acc mod 2 ^ 16" by simp
  ultimately show "unat acc mod 2 ^ 16 + unat acc div 2 ^ 16 < unat acc"
    by (rule quot_rem_less)
qed

function fold_csum :: "u64 \<Rightarrow> u16" where
  "fold_csum acc = (if 0xFFFF < acc then fold_csum ((acc AND 0xFFFF) + drop_bit 16 acc) else ucast acc)"
  by auto
termination
  by (relation "measure unat") (use fold_decreases in auto)

declare fold_csum.simps [simp del]

fun sum_words :: "bool \<Rightarrow> u8 list \<Rightarrow> u64" where
  "sum_words le (a # b # c # d # rest) =
     ucast (u32_from_ne_bytes le (a, b, c, d)) + sum_words le rest"
| "sum_words le tail =
     (case tail @ replicate (4 - length tail) 0 of
        [a, b, c, d] \<Rightarrow> ucast (u32_from_ne_bytes le (a, b, c, d))
      | _ \<Rightarrow> 0)"

definition ones_sum_on :: "bool \<Rightarrow> u8 list \<Rightarrow> u16" where
  "ones_sum_on le data =
     (let sum = fold_csum (sum_words le data) in if le then swap_bytes16 sum else sum)"

definition ones_sum :: "u8 list \<Rightarrow> u16" where
  "ones_sum = ones_sum_on True"

definition checksum :: "u8 list \<Rightarrow> u32 \<Rightarrow> u16" where
  "checksum data seed = NOT (fold_csum (ucast (ones_sum data) + ucast seed))"

definition IPPROTO_TCP :: u8 where
  "IPPROTO_TCP = 6"

fun pseudo_sum :: "ip4 \<Rightarrow> ip4 \<Rightarrow> u32 \<Rightarrow> u32" where
  "pseudo_sum (s0, s1, s2, s3) (d0, d1, d2, d3) tcp_len =
     (push_bit 8 (ucast s0) OR ucast s1) + (push_bit 8 (ucast s2) OR ucast s3)
     + (push_bit 8 (ucast d0) OR ucast d1) + (push_bit 8 (ucast d2) OR ucast d3)
     + ucast IPPROTO_TCP + (tcp_len AND 0xFFFF)"

definition tcp_checksum :: "ip4 \<Rightarrow> ip4 \<Rightarrow> u8 list \<Rightarrow> u16" where
  "tcp_checksum src dst seg = checksum seg (pseudo_sum src dst (of_nat (length seg)))"

definition tcp_partial_checksum :: "ip4 \<Rightarrow> ip4 \<Rightarrow> u32 \<Rightarrow> u16" where
  "tcp_partial_checksum src dst tcp_len = NOT (checksum [] (pseudo_sum src dst tcp_len))"

section \<open>The reference: sums of 16-bit words modulo 65535\<close>

definition oc16 :: "nat \<Rightarrow> nat" where
  "oc16 n = (if n = 0 then 0 else (n - 1) mod 65535 + 1)"

fun be_sum :: "u8 list \<Rightarrow> nat" where
  "be_sum (a # b # rest) = 256 * unat a + unat b + be_sum rest"
| "be_sum [a] = 256 * unat a"
| "be_sum [] = 0"

lemma oc16_0 [simp]: "oc16 0 = 0"
  by (simp add: oc16_def)

lemma oc16_eq_0 [simp]: "oc16 n = 0 \<longleftrightarrow> n = 0"
  by (simp add: oc16_def)

lemma oc16_le: "oc16 n \<le> 65535"
  using pos_mod_bound [of "65535" "int n - 1"] by (simp add: oc16_def Suc_le_eq)

lemma oc16_mod: "oc16 n mod 65535 = n mod 65535"
  by (cases n) (simp_all add: oc16_def mod_Suc_eq)

lemma oc16_small: "n \<le> 65535 \<Longrightarrow> oc16 n = n"
  by (auto simp: oc16_def)

lemma oc16_unique:
  assumes "m \<le> 65535" "m = 0 \<longleftrightarrow> n = 0" "m mod 65535 = n mod 65535"
  shows "m = oc16 n"
proof (cases "m = 65535")
  case True
  then have "n mod 65535 = 0" "n \<noteq> 0" using assms by auto
  then obtain k where "n = 65535 * Suc k" by (metis mod_eq_0_iff_dvd dvdE mult_is_0 not0_implies_Suc)
  then show ?thesis using True by (simp add: oc16_def)
next
  case False
  then have m: "m = n mod 65535" using assms by simp
  have "oc16 n \<noteq> 65535"
  proof
    assume *: "oc16 n = 65535"
    then have "m = 0" using oc16_mod [of n] m by simp
    then show False using * assms(2) by simp
  qed
  then have "oc16 n mod 65535 = oc16 n" using oc16_le [of n] by simp
  then show ?thesis using oc16_mod [of n] m by simp
qed

lemma oc16_cong: "a mod 65535 = b mod 65535 \<Longrightarrow> (a = 0 \<longleftrightarrow> b = 0) \<Longrightarrow> oc16 a = oc16 b"
  by (intro oc16_unique) (auto simp: oc16_le oc16_mod)

lemma oc16_add: "oc16 (oc16 a + b) = oc16 (a + b)"
proof (rule oc16_cong)
  show "(oc16 a + b) mod 65535 = (a + b) mod 65535" by (rule mod_add_cong [OF oc16_mod refl])
qed simp

lemma mod_65535_hi: "(65536 * q + r) mod 65535 = (r + q) mod (65535 :: nat)"
proof -
  have "65536 * q + r = (r + q) + 65535 * q" by simp
  then show ?thesis by (simp only: mod_mult_self2)
qed

lemma oc16_hi: "oc16 (65536 * q + r) = oc16 (r + q)"
  by (rule oc16_cong [OF mod_65535_hi]) auto

lemma oc16_split: "oc16 (n mod 2 ^ 16 + n div 2 ^ 16) = oc16 n"
proof -
  have "n = 65536 * (n div 2 ^ 16) + n mod 2 ^ 16" by simp
  then show ?thesis by (metis oc16_hi)
qed

lemma unat_fold_csum: "unat (fold_csum acc) = oc16 (unat acc)"
proof (induction acc rule: fold_csum.induct)
  case (1 acc)
  show ?case
  proof (cases "0xFFFF < acc")
    case True
    then have "unat (fold_csum acc) = oc16 (unat ((acc AND 0xFFFF) + drop_bit 16 acc))"
      using "1.IH" by (subst fold_csum.simps) simp
    also have "\<dots> = oc16 (unat acc)" by (simp only: fold_decreases(1) [OF True] oc16_split)
    finally show ?thesis .
  next
    case False
    then have "unat acc \<le> 65535" by (simp add: word_less_nat_alt)
    then have "unat (ucast acc :: u16) = unat acc"
      by (simp add: unsigned_ucast_eq take_bit_nat_eq_self)
    with False \<open>unat acc \<le> 65535\<close> show ?thesis
      by (subst fold_csum.simps) (simp add: oc16_small)
  qed
qed

section \<open>Bytes and words\<close>

lemma unat_push_or:
  fixes a b :: "'a::len word"
  assumes b: "unat b < 2 ^ n" and fits: "unat a * 2 ^ n + unat b < 2 ^ LENGTH('a)"
  shows "unat (push_bit n a OR b) = unat a * 2 ^ n + unat b"
proof -
  have "\<not> bit b m" if "n \<le> m" for m
  proof -
    have "\<not> bit (unat b) m"
      using b that by (metis bit_take_bit_iff not_less take_bit_nat_eq_self)
    then show ?thesis by (simp add: bit_unsigned_iff)
  qed
  then have "push_bit n a OR b = push_bit n a + b"
    by (intro disjunctive_add [symmetric]) (auto simp: bit_push_bit_iff)
  moreover have "unat (push_bit n a) = unat a * 2 ^ n"
    using fits by (simp only: unsigned_push_bit_eq) (simp add: push_bit_eq_mult take_bit_nat_eq_self)
  ultimately show ?thesis using fits by (simp add: unat_word_ariths)
qed

lemma unat_byte: "unat (x :: u8) < 256"
  using unsigned_less [of x] by simp

lemma unat_byte_up [simp]: "unat (ucast (x :: u8) :: u16) = unat x" "unat (ucast x :: u32) = unat x"
  by (simp_all add: unsigned_ucast_eq take_bit_nat_eq_self less_trans [OF unat_byte])

lemma unat_u16_from_be: "unat (u16_from_be_bytes (a, b)) = 256 * unat a + unat b"
proof -
  have "unat a * 2 ^ 8 + unat b < 2 ^ 16" using unat_byte [of a] unat_byte [of b] by simp
  then show ?thesis
    using unat_byte [of b] unat_push_or [of "ucast b :: u16" 8 "ucast a"] by simp
qed

lemma unat_u32_from_be:
  "unat (u32_from_be_bytes (a, b, c, d)) =
     16777216 * unat a + 65536 * unat b + 256 * unat c + unat d"
proof -
  note lt = unat_byte [of a] unat_byte [of b] unat_byte [of c] unat_byte [of d]
  have 1: "unat (push_bit 8 (ucast c) OR ucast d :: u32) = 256 * unat c + unat d"
    using lt by (subst unat_push_or) auto
  have 2: "unat (push_bit 16 (ucast b) OR push_bit 8 (ucast c) OR ucast d :: u32) =
      65536 * unat b + 256 * unat c + unat d"
    using lt by (subst unat_push_or) (auto simp: 1)
  show ?thesis using lt by (simp, subst unat_push_or) (auto simp: 2)
qed

lemma u32_from_le: "u32_from_le_bytes (a, b, c, d) = u32_from_be_bytes (d, c, b, a)"
  by (simp add: ac_simps)

lemma u16_from_to_be: "u16_from_be_bytes (ucast (drop_bit 8 v), ucast v) = v"
  by (simp, rule bit_word_eqI) (auto simp: bit_simps)

lemma u32_from_to_be:
  "u32_from_be_bytes (ucast (drop_bit 24 v), ucast (drop_bit 16 v), ucast (drop_bit 8 v), ucast v) = v"
proof (rule bit_word_eqI)
  fix n :: nat
  assume n: "n < LENGTH(32)"
  consider "n < 8" | "8 \<le> n" "n < 16" | "16 \<le> n" "n < 24" | "24 \<le> n" by linarith
  then show "bit (u32_from_be_bytes (ucast (drop_bit 24 v), ucast (drop_bit 16 v),
      ucast (drop_bit 8 v), ucast v)) n = bit v n"
    using n by cases (auto simp: bit_simps)
qed

lemma be_sum_u16: "be_sum (u16_to_be_bytes v @ xs) = unat v + be_sum xs"
proof -
  have "unat v = 256 * unat (ucast (drop_bit 8 v) :: u8) + unat (ucast v :: u8)"
    using unat_u16_from_be [of "ucast (drop_bit 8 v)" "ucast v"] by (simp only: u16_from_to_be)
  then show ?thesis by (simp add: u16_to_be_bytes_def)
qed

lemma unat_swap_bytes16:
  "unat (swap_bytes16 v) = 256 * (unat v mod 256) + unat v div 256"
proof -
  have "swap_bytes16 v = u16_from_be_bytes (ucast v, ucast (drop_bit 8 v))"
    by (simp add: swap_bytes16_def, rule bit_word_eqI)
      (auto simp: bit_simps not_less dest: bit_imp_le_length)
  moreover have "unat v div 256 < 256"
    using unat_less_exp [of v] by (simp add: less_mult_imp_div_less)
  ultimately show ?thesis
    by (simp only: unat_u16_from_be)
      (simp add: unsigned_ucast_eq take_bit_eq_mod drop_bit_eq_div unat_div_distrib)
qed

section \<open>The optimised sum is the reference sum\<close>

fun le_sum :: "u8 list \<Rightarrow> nat" where
  "le_sum (a # b # rest) = unat a + 256 * unat b + le_sum rest"
| "le_sum [a] = unat a"
| "le_sum [] = 0"

definition half_sum :: "bool \<Rightarrow> u8 list \<Rightarrow> nat" where
  "half_sum le = (if le then le_sum else be_sum)"

text \<open>The accumulator as a natural number: it never wraps below \<open>2 ^ 32\<close> words.\<close>

fun word_sum :: "bool \<Rightarrow> u8 list \<Rightarrow> nat" where
  "word_sum le (a # b # c # d # rest) = unat (u32_from_ne_bytes le (a, b, c, d)) + word_sum le rest"
| "word_sum le [a, b, c] = unat (u32_from_ne_bytes le (a, b, c, 0))"
| "word_sum le [a, b] = unat (u32_from_ne_bytes le (a, b, 0, 0))"
| "word_sum le [a] = unat (u32_from_ne_bytes le (a, 0, 0, 0))"
| "word_sum le [] = 0"

lemma unat_ucast_u32_u64 [simp]: "unat (ucast (x :: u32) :: u64) = unat x"
  using unat_less_exp [of x] by (simp add: unsigned_ucast_eq take_bit_nat_eq_self)

lemma word_sum_bound: "word_sum le xs \<le> (2 ^ 32 - 1) * ((length xs + 3) div 4)"
proof -
  have le: "unat (x :: u32) \<le> 2 ^ 32 - 1" for x using unat_less_exp [of x] by simp
  have eq: "(length (a # b # c # d # rest) + 3) div 4 = Suc ((length rest + 3) div 4)"
    for a b c d :: u8 and rest by simp
  show ?thesis
  proof (induction le xs rule: word_sum.induct)
    case (1 le a b c d rest)
    then show ?case unfolding eq word_sum.simps mult_Suc_right by (intro add_mono le)
  qed (use le in auto)
qed

lemma sum_words_tail:
  "sum_words le [a, b, c] = ucast (u32_from_ne_bytes le (a, b, c, 0))"
  "sum_words le [a, b] = ucast (u32_from_ne_bytes le (a, b, 0, 0))"
  "sum_words le [a] = ucast (u32_from_ne_bytes le (a, 0, 0, 0))"
  "sum_words le [] = ucast (u32_from_ne_bytes le (0, 0, 0, 0))"
  by (simp_all add: replicate_numeral)

lemma unat_sum_words_mod: "unat (sum_words le xs) = word_sum le xs mod 2 ^ 64"
proof (induction le xs rule: word_sum.induct)
  case (1 le a b c d rest)
  show ?case
    unfolding sum_words.simps(1) word_sum.simps(1) unat_word_ariths(1) unat_ucast_u32_u64 1
    by (simp add: mod_add_right_eq)
next
  case (5 le)
  show ?case by (simp only: sum_words_tail) (simp add: u32_from_ne_bytes_def)
qed (simp_all only: sum_words_tail word_sum.simps unat_ucast_u32_u64
    mod_less less_trans [OF unat_less_exp], simp_all add: less_trans [OF unat_less_exp])

lemma unat_sum_words:
  assumes "length xs \<le> 2 ^ 33"
  shows "unat (sum_words le xs) = word_sum le xs"
proof -
  have "(length xs + 3) div 4 \<le> 2 ^ 32" using assms by simp
  then have "(2 ^ 32 - 1) * ((length xs + 3) div 4) \<le> (2 ^ 32 - 1) * 2 ^ 32"
    by (rule mult_le_mono2)
  then have "word_sum le xs < 2 ^ 64" using word_sum_bound [of le xs] by simp
  then show ?thesis by (simp add: unat_sum_words_mod)
qed

lemma ne_half:
  "unat (u32_from_ne_bytes le (a, b, c, d)) mod 65535 = half_sum le [a, b, c, d] mod 65535"
  "unat (u32_from_ne_bytes le (a, b, c, d)) = 0 \<longleftrightarrow> half_sum le [a, b, c, d] = 0"
proof -
  have w: "unat (u32_from_ne_bytes le (a, b, c, d)) =
      65536 * (if le then 256 * unat d + unat c else 256 * unat a + unat b)
        + (if le then 256 * unat b + unat a else 256 * unat c + unat d)"
    by (simp add: u32_from_ne_bytes_def u32_from_le unat_u32_from_be
        del: u32_from_le_bytes.simps u32_from_be_bytes.simps)
  show "unat (u32_from_ne_bytes le (a, b, c, d)) mod 65535 = half_sum le [a, b, c, d] mod 65535"
    unfolding w mod_65535_hi by (simp add: half_sum_def ac_simps)
  show "unat (u32_from_ne_bytes le (a, b, c, d)) = 0 \<longleftrightarrow> half_sum le [a, b, c, d] = 0"
    unfolding w by (auto simp: half_sum_def)
qed

lemma half_sum_pad:
  "half_sum le [a, b, c] = half_sum le [a, b, c, 0]"
  "half_sum le [a, b] = half_sum le [a, b, 0, 0]"
  "half_sum le [a] = half_sum le [a, 0, 0, 0]"
  by (simp_all add: half_sum_def)

lemma word_sum_half:
  "word_sum le xs mod 65535 = half_sum le xs mod 65535 \<and> (word_sum le xs = 0 \<longleftrightarrow> half_sum le xs = 0)"
proof (induction le xs rule: word_sum.induct)
  case (1 le a b c d rest)
  have h: "half_sum le (a # b # c # d # rest) = half_sum le [a, b, c, d] + half_sum le rest"
    by (simp add: half_sum_def)
  show ?case
    unfolding h word_sum.simps using 1 ne_half [of le a b c d] by (auto intro: mod_add_cong)
qed (simp_all only: word_sum.simps half_sum_pad ne_half, simp_all add: half_sum_def)

lemma be_le_sum: "be_sum xs mod 65535 = 256 * le_sum xs mod 65535 \<and> (be_sum xs = 0 \<longleftrightarrow> le_sum xs = 0)"
proof (induction xs rule: be_sum.induct)
  case (1 a b rest)
  have "256 * (unat a + 256 * unat b) = 65536 * unat b + 256 * unat a" by simp
  then have "(256 * unat a + unat b) mod 65535 = 256 * (unat a + 256 * unat b) mod 65535"
    by (simp only: mod_65535_hi)
  with 1 have "(256 * unat a + unat b + be_sum rest) mod 65535
      = (256 * (unat a + 256 * unat b) + 256 * le_sum rest) mod 65535"
    by (intro mod_add_cong) auto
  with 1 show ?case by (auto simp: algebra_simps)
qed auto

lemma swap_mod: "256 * k mod 65535 = (256 * (k mod 256) + k div 256) mod (65535 :: nat)"
proof -
  have shift: "256 * (256 * q + r) = 65536 * q + 256 * r" for q r :: nat by simp
  have "256 * k = 256 * (256 * (k div 256) + k mod 256)" by (simp only: mult_div_mod_eq)
  then have "256 * k = 65536 * (k div 256) + 256 * (k mod 256)" unfolding shift .
  then show ?thesis using mod_65535_hi by metis
qed

lemma swap_zero: "256 * (k mod 256) + k div 256 = 0 \<longleftrightarrow> k = (0 :: nat)"
proof
  assume "256 * (k mod 256) + k div 256 = 0"
  then have "k mod 256 = 0" "k div 256 = 0" by simp_all
  then show "k = 0" using div_mult_mod_eq [of k 256] by simp
qed simp

lemma ones_sum_on_ref:
  assumes len: "length xs \<le> 2 ^ 33"
  shows "unat (ones_sum_on le xs) = oc16 (be_sum xs)"
proof (cases le)
  case False
  then have "unat (ones_sum_on le xs) = oc16 (word_sum le xs)"
    by (simp add: ones_sum_on_def Let_def unat_fold_csum unat_sum_words [OF len])
  also have "\<dots> = oc16 (be_sum xs)"
    using word_sum_half [of le xs] False by (intro oc16_cong) (auto simp: half_sum_def)
  finally show ?thesis .
next
  case True
  let ?m = "oc16 (le_sum xs)"
  have "oc16 (word_sum le xs) = ?m"
    using word_sum_half [of le xs] True by (intro oc16_cong) (auto simp: half_sum_def)
  then have sw: "unat (ones_sum_on le xs) = 256 * (?m mod 256) + ?m div 256"
    using True by (simp add: ones_sum_on_def Let_def unat_swap_bytes16 unat_fold_csum unat_sum_words [OF len])
  have "256 * ?m mod 65535 = (256 * (?m mod 256) + ?m div 256) mod 65535"
    by (rule swap_mod)
  moreover have "256 * ?m mod 65535 = 256 * le_sum xs mod 65535"
    by (rule mod_mult_cong [OF refl oc16_mod])
  ultimately have "unat (ones_sum_on le xs) mod 65535 = be_sum xs mod 65535"
    using sw be_le_sum [of xs] by simp
  moreover have "unat (ones_sum_on le xs) \<le> 65535"
    using unat_less_exp [of "ones_sum_on le xs"] by simp
  moreover have "unat (ones_sum_on le xs) = 0 \<longleftrightarrow> be_sum xs = 0"
  proof -
    have "unat (ones_sum_on le xs) = 0 \<longleftrightarrow> ?m = 0" unfolding sw by (rule swap_zero)
    then show ?thesis using be_le_sum [of xs] by simp
  qed
  ultimately show ?thesis by (intro oc16_unique)
qed

lemma unat_not_u16: "unat (NOT (x :: u16)) = 65535 - unat x"
proof -
  have "NOT x = - 1 - x" by (simp add: not_eq_complement)
  moreover have "unat (- 1 - x) = unat (- 1 :: u16) - unat x"
    by (rule unat_sub) (rule word_order.extremum)
  ultimately show ?thesis by (simp add: unat_max_word)
qed

lemma unat_ucast_u16_u64 [simp]: "unat (ucast (x :: u16) :: u64) = unat x"
  using unat_less_exp [of x] by (simp add: unsigned_ucast_eq take_bit_nat_eq_self)

lemma unat_checksum:
  assumes len: "length xs \<le> 2 ^ 33"
  shows "unat (checksum xs seed) = 65535 - oc16 (be_sum xs + unat seed)"
proof -
  have "unat (ucast (ones_sum xs) :: u64) + unat (ucast seed :: u64) < 2 ^ 64"
    using unat_less_exp [of "ones_sum xs"] unat_less_exp [of seed] by simp
  then have "unat (ucast (ones_sum xs) + ucast seed :: u64) = oc16 (be_sum xs) + unat seed"
    by (simp add: unat_word_ariths ones_sum_def ones_sum_on_ref [OF len])
  then show ?thesis by (simp add: checksum_def unat_not_u16 unat_fold_csum oc16_add)
qed

lemma be_sum_append: "even (length xs) \<Longrightarrow> be_sum (xs @ ys) = be_sum xs + be_sum ys"
  by (induction xs rule: be_sum.induct) auto

lemma be_sum_field:
  assumes "even (length pre)"
  shows "be_sum (pre @ u16_to_be_bytes c @ post) = be_sum (pre @ [0, 0] @ post) + unat c"
  using assms be_sum_u16 [of c post] by (simp add: be_sum_append)

lemma oc16_complement: "oc16 (n + (65535 - oc16 n)) = 65535"
proof -
  have "oc16 (n + (65535 - oc16 n)) = oc16 (oc16 n + (65535 - oc16 n))" by (simp only: oc16_add)
  also have "\<dots> = 65535" using oc16_le [of n] by (simp add: oc16_small)
  finally show ?thesis .
qed

lemma checksum_verifies:
  assumes "even (length pre)" and len: "length pre + length post \<le> 2 ^ 32"
    and c: "c = checksum (pre @ [0, 0] @ post) seed"
  shows "checksum (pre @ u16_to_be_bytes c @ post) seed = 0"
proof -
  have l: "length (pre @ [0, 0] @ post) \<le> 2 ^ 33" "length (pre @ u16_to_be_bytes c @ post) \<le> 2 ^ 33"
    using len by (simp_all add: u16_to_be_bytes_def)
  let ?S = "be_sum (pre @ [0, 0] @ post) + unat seed"
  have "unat c = 65535 - oc16 ?S" using unat_checksum [OF l(1)] c by simp
  then have "unat (checksum (pre @ u16_to_be_bytes c @ post) seed) = 65535 - oc16 (?S + (65535 - oc16 ?S))"
    unfolding unat_checksum [OF l(2)] be_sum_field [OF assms(1)] by (simp only: ac_simps)
  then have "unat (checksum (pre @ u16_to_be_bytes c @ post) seed) = 0"
    by (simp only: oc16_complement)
  then show ?thesis by (simp add: unsigned_eq_0_iff)
qed

lemma unat_tcp_partial: "unat (tcp_partial_checksum src dst n) = oc16 (unat (pseudo_sum src dst n))"
  using unat_checksum [of "[]"] oc16_le
  by (simp add: tcp_partial_checksum_def unat_not_u16)

section \<open>Properties\<close>

text \<open>
  C17. The checksum routine computes the Internet checksum of RFC 1071: on a little-endian and on a
  big-endian target, adding native 32-bit words into a 64-bit accumulator, folding and swapping
  gives the ones' complement sum of the big-endian 16-bit words, and \<^verbatim>\<open>checksum\<close>
  returns the complement of that sum plus the seed. The bound on the length is that of an
  accumulator that does not wrap.
\<close>

theorem checksum_is_rfc1071:
  assumes "length data \<le> 2 ^ 33"
  shows "unat (ones_sum_on le data) = oc16 (be_sum data) \<and>
         unat (checksum data seed) = 65535 - oc16 (be_sum data + unat seed)"
  using assms by (simp add: ones_sum_on_ref unat_checksum)

theorem checksum_is_rfc1071_witness:
  "unat (ones_sum_on True [0x45, 0x00, 0xFF]) = 0x45 * 256 + 0xFF * 256 + 1 - 65536 \<and>
   unat (ones_sum_on False [0x45, 0x00, 0xFF]) = 0x45 * 256 + 0xFF * 256 + 1 - 65536"
  using checksum_is_rfc1071 [of "[0x45, 0x00, 0xFF]" True 0]
    checksum_is_rfc1071 [of "[0x45, 0x00, 0xFF]" False 0]
  by (simp add: oc16_def)

text \<open>
  C18. Checksum offload is sound: a host that finishes a \<open>CHECKSUM_PARTIAL\<close> segment, by
  summing the segment with the partial value in its checksum field and storing the complement,
  stores exactly the checksum the stack would have computed itself, and the finished segment
  verifies at the receiver.
\<close>

theorem partial_checksum_completes:
  assumes "even (length pre)" and "length pre + length post \<le> 65535"
    and "n = length pre + 2 + length post"
  shows "checksum (pre @ u16_to_be_bytes (tcp_partial_checksum src dst (of_nat n)) @ post) 0
         = tcp_checksum src dst (pre @ [0, 0] @ post) \<and>
         tcp_checksum src dst (pre @ u16_to_be_bytes (tcp_checksum src dst (pre @ [0, 0] @ post)) @ post) = 0"
proof
  let ?ps = "pseudo_sum src dst (of_nat n)" and ?p = "tcp_partial_checksum src dst (of_nat n)"
  have lens: "length (pre @ u16_to_be_bytes c @ post) = n" "length (pre @ [0, 0] @ post) = n" for c
    using assms(3) by (simp_all add: u16_to_be_bytes_def)
  then have l: "length (pre @ u16_to_be_bytes ?p @ post) \<le> 2 ^ 33" "length (pre @ [0, 0] @ post) \<le> 2 ^ 33"
    using assms(2,3) by simp_all
  have t: "tcp_checksum src dst (pre @ [0, 0] @ post) = checksum (pre @ [0, 0] @ post) ?ps"
    unfolding tcp_checksum_def lens ..
  have "unat (checksum (pre @ u16_to_be_bytes ?p @ post) 0)
      = 65535 - oc16 (oc16 (unat ?ps) + be_sum (pre @ [0, 0] @ post))"
    unfolding unat_checksum [OF l(1)] be_sum_field [OF assms(1)] unat_tcp_partial
    by (simp add: ac_simps)
  also have "\<dots> = unat (checksum (pre @ [0, 0] @ post) ?ps)"
    unfolding unat_checksum [OF l(2)] oc16_add by (simp only: ac_simps)
  finally show "checksum (pre @ u16_to_be_bytes ?p @ post) 0 = tcp_checksum src dst (pre @ [0, 0] @ post)"
    unfolding t by (rule unsigned_word_eqI)
  have len: "length pre + length post \<le> 2 ^ 32" using assms(2) by simp
  show "tcp_checksum src dst (pre @ u16_to_be_bytes (tcp_checksum src dst (pre @ [0, 0] @ post)) @ post) = 0"
    unfolding tcp_checksum_def lens by (rule checksum_verifies [OF assms(1) len refl])
qed

theorem partial_checksum_completes_witness:
  "checksum ([1, 2] @ u16_to_be_bytes (tcp_partial_checksum (10, 0, 0, 1) (10, 0, 0, 2) (of_nat 5)) @ [3]) 0
   = tcp_checksum (10, 0, 0, 1) (10, 0, 0, 2) ([1, 2] @ [0, 0] @ [3])"
  using partial_checksum_completes [of "[1, 2]" "[3]" 5 "(10, 0, 0, 1)" "(10, 0, 0, 2)"] by simp

end
