(* ===== verification/Wire.thy ===== *)
theory Wire
  imports Checksum
begin

unbundle bit_operations_syntax

text \<open>
  The IPv4 and TCP wire format of \<^verbatim>\<open>wire.rs\<close>: SACK block lists, TCP options and their
  encoding, the parsed segment, \<^verbatim>\<open>parse_opts\<close> and \<^verbatim>\<open>emit_with\<close>. Writing into
  \<^verbatim>\<open>&mut [u8]\<close> is a method on the byte list that keeps what was written before an error;
  a mutable sub-slice is \<open>on_slice\<close>. The lemmas give the bytes an emission leaves in the
  buffer and show that parsing them gives the segment back.
\<close>

section \<open>Constants\<close>

definition IPV4_HDR_LEN :: usize where "IPV4_HDR_LEN = 20"
definition TCP_HDR_LEN :: usize where "TCP_HDR_LEN = 20"

definition FLAG_FIN :: u8 where "FLAG_FIN = 0x01"
definition FLAG_SYN :: u8 where "FLAG_SYN = 0x02"
definition FLAG_RST :: u8 where "FLAG_RST = 0x04"
definition FLAG_PSH :: u8 where "FLAG_PSH = 0x08"
definition FLAG_ACK :: u8 where "FLAG_ACK = 0x10"
definition FLAG_ECE :: u8 where "FLAG_ECE = 0x40"
definition FLAG_CWR :: u8 where "FLAG_CWR = 0x80"

lemmas flag_defs = FLAG_FIN_def FLAG_SYN_def FLAG_RST_def FLAG_PSH_def FLAG_ACK_def
  FLAG_ECE_def FLAG_CWR_def

definition ECN_NOT_ECT :: u8 where "ECN_NOT_ECT = 0"
definition ECN_ECT_0 :: u8 where "ECN_ECT_0 = 2"
definition ECN_CE :: u8 where "ECN_CE = 3"
definition ECN_MASK :: u8 where "ECN_MASK = 3"

section \<open>SACK blocks\<close>

record sack_blocks =
  sk_n :: u8
  sk_blocks :: "(u32 \<times> u32) list"

definition sack_empty :: sack_blocks where
  "sack_empty = \<lparr>sk_n = 0, sk_blocks = replicate 4 (0, 0)\<rparr>"

definition sack_one :: "u32 \<Rightarrow> u32 \<Rightarrow> sack_blocks" where
  "sack_one left right = sack_empty\<lparr>sk_n := 1, sk_blocks := (sk_blocks sack_empty)[0 := (left, right)]\<rparr>"

definition sack_from_slice :: "(u32 \<times> u32) list \<Rightarrow> sack_blocks" where
  "sack_from_slice src =
     (let n = min (length src) 4
      in \<lparr>sk_n = of_nat n, sk_blocks = overlay (sk_blocks sack_empty) 0 (take n src)\<rparr>)"

definition sack_push :: "u32 \<Rightarrow> u32 \<Rightarrow> sack_blocks \<Rightarrow> sack_blocks" where
  "sack_push left right s =
     (if unat (sk_n s) < length (sk_blocks s)
      then s\<lparr>sk_blocks := (sk_blocks s)[unat (sk_n s) := (left, right)], sk_n := sk_n s + 1\<rparr>
      else s)"

definition sack_len :: "sack_blocks \<Rightarrow> usize" where
  "sack_len s = unat (sk_n s)"

definition sack_is_empty :: "sack_blocks \<Rightarrow> bool" where
  "sack_is_empty s = (sk_n s = 0)"

definition sack_as_slice :: "sack_blocks \<Rightarrow> (u32 \<times> u32) list" where
  "sack_as_slice s =
     (case get_range (sk_blocks s) 0 (unat (sk_n s)) of None \<Rightarrow> [] | Some xs \<Rightarrow> xs)"

definition sack_truncate :: "usize \<Rightarrow> sack_blocks \<Rightarrow> sack_blocks" where
  "sack_truncate mx s = (if mx < unat (sk_n s) then s\<lparr>sk_n := of_nat mx\<rparr> else s)"

section \<open>Options\<close>

record tcp_options =
  op_mss :: "u16 option"
  op_wscale :: "u8 option"
  op_ts :: "(u32 \<times> u32) option"
  op_sack_permitted :: bool
  op_sack :: sack_blocks

definition options_none :: tcp_options where
  "options_none = \<lparr>op_mss = None, op_wscale = None, op_ts = None, op_sack_permitted = False,
                   op_sack = sack_empty\<rparr>"

definition options_raw_len :: "tcp_options \<Rightarrow> usize" where
  "options_raw_len opt =
     (if op_mss opt \<noteq> None then 4 else 0) + (if op_wscale opt \<noteq> None then 3 else 0)
     + (if op_sack_permitted opt then 2 else 0) + (if op_ts opt \<noteq> None then 10 else 0)
     + (if sack_is_empty (op_sack opt) then 0 else 2 + 8 * sack_len (op_sack opt))"

text \<open>\<^verbatim>\<open>(n + 3) & !3\<close>: clear the two low bits.\<close>

definition align4 :: "usize \<Rightarrow> usize" where
  "align4 n = (n + 3) div 4 * 4"

definition options_encoded_len :: "tcp_options \<Rightarrow> usize" where
  "options_encoded_len opt = align4 (options_raw_len opt)"

subsection \<open>Bounds-checked accessors\<close>

definition read2 :: "u8 list \<Rightarrow> usize \<Rightarrow> (u8 \<times> u8) result" where
  "read2 buf off =
     (case get_range buf off (off + 2) of
        Some [a, b] \<Rightarrow> Inr (a, b) | _ \<Rightarrow> Inl MalformedPacket)"

definition read4 :: "u8 list \<Rightarrow> usize \<Rightarrow> ip4 result" where
  "read4 buf off =
     (case get_range buf off (off + 4) of
        Some [a, b, c, d] \<Rightarrow> Inr (a, b, c, d) | _ \<Rightarrow> Inl MalformedPacket)"

definition put_bytes :: "usize \<Rightarrow> u8 list \<Rightarrow> (u8 list, unit) rsm" where
  "put_bytes off bs buf =
     (if off + length bs \<le> length buf then (Inr (), overlay buf off bs)
      else (Inl BufferTooSmall, buf))"

definition put_u8 :: "usize \<Rightarrow> u8 \<Rightarrow> (u8 list, unit) rsm" where
  "put_u8 off v = put_bytes off [v]"

definition put_u16 :: "usize \<Rightarrow> u16 \<Rightarrow> (u8 list, unit) rsm" where
  "put_u16 off v = put_bytes off (u16_to_be_bytes v)"

definition put_u32 :: "usize \<Rightarrow> u32 \<Rightarrow> (u8 list, unit) rsm" where
  "put_u32 off v = put_bytes off (u32_to_be_bytes v)"

fun put4 :: "usize \<Rightarrow> ip4 \<Rightarrow> (u8 list, unit) rsm" where
  "put4 off (a, b, c, d) = put_bytes off [a, b, c, d]"

text \<open>\<open>on_slice a b m\<close> runs \<open>m\<close> on \<^verbatim>\<open>out.get_mut(a..b).ok_or(BufferTooSmall)?\<close>.\<close>

definition on_slice :: "usize \<Rightarrow> usize \<Rightarrow> (u8 list, 'a) rsm \<Rightarrow> (u8 list, 'a) rsm" where
  "on_slice a b m buf =
     (case get_range buf a b of
        None \<Rightarrow> (Inl BufferTooSmall, buf)
      | Some sl \<Rightarrow> (case m sl of (r, sl') \<Rightarrow> (r, overlay buf a sl')))"

definition fill_zero :: "(u8 list, unit) rsm" where
  "fill_zero buf = (Inr (), replicate (length buf) 0)"

subsection \<open>Writing options\<close>

fun put_sack_blocks :: "usize \<Rightarrow> usize \<Rightarrow> (u32 \<times> u32) list \<Rightarrow> (u8 list, unit) rsm" where
  "put_sack_blocks idx k [] = ret_rs ()"
| "put_sack_blocks idx k ((left, right) # bs) =
     then_rs (put_u32 (idx + 2 + k * 8) left)
       (then_rs (put_u32 (idx + 6 + k * 8) right) (put_sack_blocks idx (k + 1) bs))"

fun put_nops :: "usize \<Rightarrow> nat \<Rightarrow> (u8 list, unit) rsm" where
  "put_nops idx 0 = ret_rs ()"
| "put_nops idx (Suc n) = then_rs (put_u8 idx 1) (put_nops (idx + 1) n)"

definition write_mss :: "tcp_options \<Rightarrow> usize \<Rightarrow> (u8 list, usize) rsm" where
  "write_mss opt idx =
     (case op_mss opt of None \<Rightarrow> ret_rs idx
      | Some mss \<Rightarrow> then_rs (put_u8 idx 2) (then_rs (put_u8 (idx + 1) 4)
          (then_rs (put_u16 (idx + 2) mss) (ret_rs (idx + 4)))))"

definition write_wscale :: "tcp_options \<Rightarrow> usize \<Rightarrow> (u8 list, usize) rsm" where
  "write_wscale opt idx =
     (case op_wscale opt of None \<Rightarrow> ret_rs idx
      | Some ws \<Rightarrow> then_rs (put_u8 idx 3) (then_rs (put_u8 (idx + 1) 3)
          (then_rs (put_u8 (idx + 2) (min ws 14)) (ret_rs (idx + 3)))))"

definition write_sack_permitted :: "tcp_options \<Rightarrow> usize \<Rightarrow> (u8 list, usize) rsm" where
  "write_sack_permitted opt idx =
     (if op_sack_permitted opt
      then then_rs (put_u8 idx 4) (then_rs (put_u8 (idx + 1) 2) (ret_rs (idx + 2)))
      else ret_rs idx)"

definition write_ts :: "tcp_options \<Rightarrow> usize \<Rightarrow> (u8 list, usize) rsm" where
  "write_ts opt idx =
     (case op_ts opt of None \<Rightarrow> ret_rs idx
      | Some (tsval, tsecr) \<Rightarrow> then_rs (put_u8 idx 8) (then_rs (put_u8 (idx + 1) 10)
          (then_rs (put_u32 (idx + 2) tsval) (then_rs (put_u32 (idx + 6) tsecr)
            (ret_rs (idx + 10))))))"

definition write_sack :: "tcp_options \<Rightarrow> usize \<Rightarrow> (u8 list, usize) rsm" where
  "write_sack opt idx =
     (if sack_is_empty (op_sack opt) then ret_rs idx
      else let n = sack_len (op_sack opt); len = 2 + 8 * n
           in if 255 < len then fail_rs Overflow
              else then_rs (put_u8 idx 5) (then_rs (put_u8 (idx + 1) (of_nat len))
                (then_rs (put_sack_blocks idx 0 (sack_as_slice (op_sack opt))) (ret_rs (idx + len)))))"

definition write_padding :: "usize \<Rightarrow> (u8 list, usize) rsm" where
  "write_padding idx = then_rs (put_nops idx (align4 idx - idx)) (ret_rs (align4 idx))"

definition options_write :: "tcp_options \<Rightarrow> (u8 list, usize) rsm" where
  "options_write opt =
     bind_rs (write_mss opt 0) (\<lambda>idx.
     bind_rs (write_wscale opt idx) (\<lambda>idx.
     bind_rs (write_sack_permitted opt idx) (\<lambda>idx.
     bind_rs (write_ts opt idx) (\<lambda>idx.
     bind_rs (write_sack opt idx) write_padding))))"

subsection \<open>Parsing options\<close>

fun read_sack_blocks :: "u8 list \<Rightarrow> usize \<Rightarrow> nat \<Rightarrow> nat \<Rightarrow> sack_blocks \<Rightarrow> sack_blocks result" where
  "read_sack_blocks bs i k 0 sb = Inr sb"
| "read_sack_blocks bs i k (Suc n) sb =
     res_bind (read4 bs (i + 2 + k * 8)) (\<lambda>left.
     res_bind (read4 bs (i + 2 + k * 8 + 4)) (\<lambda>right.
       read_sack_blocks bs i (k + 1) n
         (sack_push (u32_from_be_bytes left) (u32_from_be_bytes right) sb)))"

text \<open>
  One iteration of the option loop at index \<open>i\<close>: the options so far and the next index,
  or \<open>None\<close> where the loop ends (end of options).
\<close>

definition parse_option :: "u8 list \<Rightarrow> usize \<Rightarrow> tcp_options \<Rightarrow> (tcp_options \<times> usize) option result" where
  "parse_option bs i opt =
     res_bind (ok_or (get_at bs i) MalformedPacket) (\<lambda>kind.
       if kind = 0 then Inr None
       else if kind = 1 then Inr (Some (opt, i + 1))
       else res_bind (ok_or (get_at bs (i + 1)) MalformedPacket) (\<lambda>len.
         if kind = 2 then
           (if len \<noteq> 4 \<or> length bs < i + 4 then Inl MalformedPacket
            else res_bind (read2 bs (i + 2)) (\<lambda>v.
              Inr (Some (opt\<lparr>op_mss := Some (u16_from_be_bytes v)\<rparr>, i + 4))))
         else if kind = 3 then
           (if len \<noteq> 3 \<or> length bs < i + 3 then Inl MalformedPacket
            else res_bind (ok_or (get_at bs (i + 2)) MalformedPacket) (\<lambda>shift.
              Inr (Some (opt\<lparr>op_wscale := Some (min shift 14)\<rparr>, i + 3))))
         else if kind = 4 then
           (if len \<noteq> 2 \<or> length bs < i + 2 then Inl MalformedPacket
            else Inr (Some (opt\<lparr>op_sack_permitted := True\<rparr>, i + 2)))
         else if kind = 5 then
           (if len < 10 \<or> (len - 2) mod 8 \<noteq> 0 \<or> 4 < (len - 2) div 8 \<or> length bs < i + unat len
            then Inl MalformedPacket
            else res_bind (read_sack_blocks bs i 0 (unat ((len - 2) div 8)) sack_empty) (\<lambda>sb.
              Inr (Some (opt\<lparr>op_sack := sb\<rparr>, i + unat len))))
         else if kind = 8 then
           (if len \<noteq> 10 \<or> length bs < i + 10 then Inl MalformedPacket
            else res_bind (read4 bs (i + 2)) (\<lambda>tsval. res_bind (read4 bs (i + 6)) (\<lambda>tsecr.
              Inr (Some (opt\<lparr>op_ts := Some (u32_from_be_bytes tsval, u32_from_be_bytes tsecr)\<rparr>,
                         i + 10)))))
         else (if len < 2 \<or> length bs < i + unat len then Inl MalformedPacket
               else Inr (Some (opt, i + unat len)))))"

lemma parse_option_advances:
  "parse_option bs i opt = Inr (Some (opt', i')) \<Longrightarrow> i < i'"
  by (auto simp: parse_option_def res_bind_Inr_conv word_less_nat_alt split: if_splits)

function options_parse_loop :: "u8 list \<Rightarrow> usize \<Rightarrow> tcp_options \<Rightarrow> tcp_options result" where
  "options_parse_loop bs i opt =
     (if i < length bs
      then (case parse_option bs i opt of
              Inl e \<Rightarrow> Inl e
            | Inr None \<Rightarrow> Inr opt
            | Inr (Some (opt', i')) \<Rightarrow> options_parse_loop bs i' opt')
      else Inr opt)"
  by auto
termination
  by (relation "measure (\<lambda>(bs, i, opt). length bs - i)")
    (auto dest!: parse_option_advances)

declare options_parse_loop.simps [simp del]

definition options_parse :: "u8 list \<Rightarrow> tcp_options result" where
  "options_parse bs = options_parse_loop bs 0 options_none"

section \<open>Segments\<close>

record segment =
  sg_src_ip :: ip4
  sg_dst_ip :: ip4
  sg_src_port :: u16
  sg_dst_port :: u16
  sg_seq :: u32
  sg_ack :: u32
  sg_flags :: u8
  sg_window :: u16
  sg_options :: tcp_options
  sg_payload :: "u8 list"
  sg_ecn :: u8

definition seg_has :: "segment \<Rightarrow> u8 \<Rightarrow> bool" where
  "seg_has s f \<longleftrightarrow> sg_flags s AND f = f"

definition seg_seq_len :: "segment \<Rightarrow> u32" where
  "seg_seq_len s =
     of_nat (length (sg_payload s)) + (if seg_has s FLAG_SYN then 1 else 0)
     + (if seg_has s FLAG_FIN then 1 else 0)"

definition parse_opts :: "u8 list \<Rightarrow> bool \<Rightarrow> segment result" where
  "parse_opts packet verify_l4 =
     res_bind (ok_or (get_range packet 0 IPV4_HDR_LEN) MalformedPacket) (\<lambda>ip.
     res_bind (ok_or (get_at ip 0) MalformedPacket) (\<lambda>version_ihl.
     if drop_bit 4 version_ihl \<noteq> 4 then Inl MalformedPacket else
     let ihl = unat (version_ihl AND 0x0F) * 4 in
     if ihl < IPV4_HDR_LEN then Inl MalformedPacket else
     res_bind (read2 ip 2) (\<lambda>tl.
     let total_len = unat (u16_from_be_bytes tl) in
     if length packet < total_len \<or> total_len < ihl + TCP_HDR_LEN then Inl MalformedPacket else
     res_bind (read2 ip 6) (\<lambda>ff.
     let flags_frag = u16_from_be_bytes ff in
     if flags_frag AND 0x2000 \<noteq> 0 \<or> flags_frag AND 0x1FFF \<noteq> 0 then Inl MalformedPacket else
     res_bind (ok_or (get_at ip 9) MalformedPacket) (\<lambda>proto.
     if proto \<noteq> IPPROTO_TCP then Inl NotForUs else
     res_bind (ok_or (get_at ip 1) MalformedPacket) (\<lambda>tos.
     let ecn = tos AND ECN_MASK in
     res_bind (read4 ip 12) (\<lambda>src_ip.
     res_bind (read4 ip 16) (\<lambda>dst_ip.
     res_bind (ok_or (get_range packet 0 ihl) MalformedPacket) (\<lambda>ip_full.
     if checksum ip_full 0 \<noteq> 0 then Inl MalformedPacket else
     let tcp_total = total_len - ihl in
     res_bind (ok_or (get_range packet ihl (ihl + tcp_total)) MalformedPacket) (\<lambda>tcp.
     if length tcp < TCP_HDR_LEN then Inl MalformedPacket else
     res_bind (read2 tcp 0) (\<lambda>sp.
     res_bind (read2 tcp 2) (\<lambda>dp.
     res_bind (read4 tcp 4) (\<lambda>sq.
     res_bind (read4 tcp 8) (\<lambda>ak.
     res_bind (ok_or (get_at tcp 12) MalformedPacket) (\<lambda>doff.
     let data_off = unat (drop_bit 4 doff) * 4 in
     if data_off < TCP_HDR_LEN \<or> length tcp < data_off then Inl MalformedPacket else
     res_bind (ok_or (get_at tcp 13) MalformedPacket) (\<lambda>flags.
     res_bind (read2 tcp 14) (\<lambda>wn.
     if verify_l4 \<and> tcp_checksum src_ip dst_ip tcp \<noteq> 0 then Inl MalformedPacket else
     res_bind (ok_or (get_range tcp TCP_HDR_LEN data_off) MalformedPacket) (\<lambda>opt_bytes.
     res_bind (options_parse opt_bytes) (\<lambda>options.
     res_bind (ok_or (get_range tcp data_off (length tcp)) MalformedPacket) (\<lambda>payload.
     Inr \<lparr>sg_src_ip = src_ip, sg_dst_ip = dst_ip, sg_src_port = u16_from_be_bytes sp,
          sg_dst_port = u16_from_be_bytes dp, sg_seq = u32_from_be_bytes sq,
          sg_ack = u32_from_be_bytes ak, sg_flags = flags, sg_window = u16_from_be_bytes wn,
          sg_options = options, sg_payload = payload, sg_ecn = ecn\<rparr>))))))))))))))))))))"

definition parse :: "u8 list \<Rightarrow> segment result" where
  "parse packet = parse_opts packet True"

subsection \<open>Emission\<close>

definition u16_try_from :: "usize \<Rightarrow> u16 result" where
  "u16_try_from n = (if n < 2 ^ 16 then Inr (of_nat n) else Inl Overflow)"

definition lift_res :: "'a result \<Rightarrow> ('s, 'a) rsm" where
  "lift_res r s = (r, s)"

definition read_rs :: "('s \<Rightarrow> 'a) \<Rightarrow> ('s, 'a) rsm" where
  "read_rs f s = (Inr (f s), s)"

definition emit_ip_header :: "ip4 \<Rightarrow> ip4 \<Rightarrow> u16 \<Rightarrow> u16 \<Rightarrow> u8 \<Rightarrow> (u8 list, unit) rsm" where
  "emit_ip_header src_ip dst_ip total_u16 ip_id ecn =
     then_rs fill_zero (then_rs (put_u8 0 0x45) (then_rs (put_u8 1 (ecn AND ECN_MASK))
     (then_rs (put_u16 2 total_u16) (then_rs (put_u16 4 ip_id) (then_rs (put_u16 6 0x4000)
     (then_rs (put_u8 8 64) (then_rs (put_u8 9 IPPROTO_TCP) (then_rs (put_u16 10 0)
     (then_rs (put4 12 src_ip) (then_rs (put4 16 dst_ip)
     (bind_rs (read_rs (\<lambda>ip. checksum ip 0)) (\<lambda>ip_csum. put_u16 10 ip_csum))))))))))))"

definition emit_tcp_header ::
  "u16 \<Rightarrow> u16 \<Rightarrow> u32 \<Rightarrow> u32 \<Rightarrow> u8 \<Rightarrow> u16 \<Rightarrow> tcp_options \<Rightarrow> (u8 list, unit) rsm" where
  "emit_tcp_header src_port dst_port seq ack flags window options =
     (let opt_len = options_encoded_len options; tcp_hdr_len = TCP_HDR_LEN + opt_len in
     then_rs fill_zero (then_rs (put_u16 0 src_port) (then_rs (put_u16 2 dst_port)
     (then_rs (put_u32 4 seq) (then_rs (put_u32 8 ack)
     (then_rs (put_u8 12 (push_bit 4 (of_nat (tcp_hdr_len div 4))))
     (then_rs (put_u8 13 flags) (then_rs (put_u16 14 window)
     (if 0 < opt_len
      then bind_rs (on_slice TCP_HDR_LEN (TCP_HDR_LEN + opt_len) (options_write options)) (\<lambda>written.
             if written \<noteq> opt_len then fail_rs Overflow else ret_rs ())
      else ret_rs ())))))))))"

definition run_fill :: "(u8 list \<Rightarrow> bool \<times> u8 list) \<Rightarrow> (u8 list, unit) rsm" where
  "run_fill fill dst =
     (case fill dst of (ok, d) \<Rightarrow> (if ok then Inr () else Inl Overflow, d))"

definition emit_with ::
  "ip4 \<Rightarrow> ip4 \<Rightarrow> u16 \<Rightarrow> u16 \<Rightarrow> u32 \<Rightarrow> u32 \<Rightarrow> u8 \<Rightarrow> u16 \<Rightarrow> tcp_options \<Rightarrow> usize
   \<Rightarrow> (u8 list \<Rightarrow> bool \<times> u8 list) \<Rightarrow> u16 \<Rightarrow> u8 \<Rightarrow> bool \<Rightarrow> (u8 list, usize) rsm" where
  "emit_with src_ip dst_ip src_port dst_port seq ack flags window options payload_len fill
     ip_id ecn full_csum out =
     (let opt_len = options_encoded_len options in
      if opt_len mod 4 \<noteq> 0 \<or> 40 < opt_len then (Inl Overflow, out) else
      let tcp_hdr_len = TCP_HDR_LEN + opt_len;
          total = IPV4_HDR_LEN + tcp_hdr_len + payload_len;
          tcp_end = IPV4_HDR_LEN + tcp_hdr_len + payload_len
      in if length out < total then (Inl BufferTooSmall, out) else
     bind_rs (lift_res (u16_try_from total)) (\<lambda>total_u16.
     then_rs (on_slice 0 IPV4_HDR_LEN (emit_ip_header src_ip dst_ip total_u16 ip_id ecn))
     (then_rs (on_slice IPV4_HDR_LEN tcp_end
        (then_rs (on_slice 0 tcp_hdr_len
           (emit_tcp_header src_port dst_port seq ack flags window options))
         (on_slice tcp_hdr_len (tcp_hdr_len + payload_len) (run_fill fill))))
     (bind_rs (read_rs (\<lambda>b. take (tcp_end - IPV4_HDR_LEN) (drop IPV4_HDR_LEN b))) (\<lambda>tcp_segment.
      let tcp_csum = (if full_csum then tcp_checksum src_ip dst_ip tcp_segment
                      else tcp_partial_checksum src_ip dst_ip (of_nat (length tcp_segment)))
      in then_rs (on_slice IPV4_HDR_LEN tcp_end (put_u16 16 tcp_csum)) (ret_rs total))))) out)"

definition emit ::
  "ip4 \<Rightarrow> ip4 \<Rightarrow> u16 \<Rightarrow> u16 \<Rightarrow> u32 \<Rightarrow> u32 \<Rightarrow> u8 \<Rightarrow> u16 \<Rightarrow> tcp_options \<Rightarrow> u8 list
   \<Rightarrow> u16 \<Rightarrow> u8 \<Rightarrow> (u8 list, usize) rsm" where
  "emit src_ip dst_ip src_port dst_port seq ack flags window options payload ip_id ecn =
     emit_with src_ip dst_ip src_port dst_port seq ack flags window options (length payload)
       (\<lambda>dst. (True, payload)) ip_id ecn True"

section \<open>What a sequence of writes leaves in the buffer\<close>

text \<open>
  \<open>appends idx m bs x\<close>: run on a buffer with at least \<open>length bs\<close> bytes after
  index \<open>idx\<close>, \<open>m\<close> returns \<open>x\<close> and replaces exactly those bytes by \<open>bs\<close>.
\<close>

definition appends :: "usize \<Rightarrow> (u8 list, 'a) rsm \<Rightarrow> u8 list \<Rightarrow> 'a \<Rightarrow> bool" where
  "appends idx m bs x \<longleftrightarrow>
     (\<forall>pre rest. length pre = idx \<longrightarrow> length bs \<le> length rest \<longrightarrow>
        m (pre @ rest) = (Inr x, pre @ bs @ drop (length bs) rest))"

named_theorems appends_intros \<open>composition of consecutive writes\<close>

lemma appendsD:
  "appends idx m bs x \<Longrightarrow> length pre = idx \<Longrightarrow> length bs \<le> length rest \<Longrightarrow>
   m (pre @ rest) = (Inr x, pre @ bs @ drop (length bs) rest)"
  by (simp add: appends_def)

lemma appends_put_bytes [appends_intros]: "appends idx (put_bytes idx bs) bs ()"
  by (simp add: appends_def put_bytes_def overlay_def)

lemma appends_ret [appends_intros]: "appends idx (ret_rs x) [] x"
  by (simp add: appends_def ret_rs_def)

lemma appends_bind:
  assumes "appends idx m bs x" and "appends (idx + length bs) (f x) cs y"
  shows "appends idx (bind_rs m f) (bs @ cs) y"
proof -
  have "bind_rs m f (pre @ rest) = (Inr y, pre @ (bs @ cs) @ drop (length (bs @ cs)) rest)"
    if "length pre = idx" "length (bs @ cs) \<le> length rest" for pre rest
  proof -
    have "m (pre @ rest) = (Inr x, pre @ bs @ drop (length bs) rest)"
      using that by (intro appendsD [OF assms(1)]) auto
    moreover have "f x ((pre @ bs) @ drop (length bs) rest)
        = (Inr y, (pre @ bs) @ cs @ drop (length cs) (drop (length bs) rest))"
      using that by (intro appendsD [OF assms(2)]) auto
    ultimately show ?thesis by (simp add: bind_rs_def add.commute)
  qed
  then show ?thesis by (simp add: appends_def)
qed

lemma appends_then:
  "appends idx m bs x \<Longrightarrow> appends (idx + length bs) k cs y \<Longrightarrow> appends idx (then_rs m k) (bs @ cs) y"
  unfolding then_rs_def by (rule appends_bind)

lemma appends_then_put:
  "i = idx \<Longrightarrow> appends (idx + length bs) k cs y \<Longrightarrow> appends idx (then_rs (put_bytes i bs) k) (bs @ cs) y"
  by (simp add: appends_then [OF appends_put_bytes])

lemmas put_defs = put_u8_def put_u16_def put_u32_def

lemma length_be [simp]: "length (u16_to_be_bytes v) = 2" "length (u32_to_be_bytes w) = 4"
  by (simp_all add: u16_to_be_bytes_def u32_to_be_bytes_def)

subsection \<open>The encoding of options\<close>

definition sack_ok :: "sack_blocks \<Rightarrow> bool" where
  "sack_ok s \<longleftrightarrow> unat (sk_n s) \<le> 4 \<and> length (sk_blocks s) = 4"

definition enc_mss :: "tcp_options \<Rightarrow> u8 list" where
  "enc_mss opt = (case op_mss opt of None \<Rightarrow> [] | Some mss \<Rightarrow> [2] @ [4] @ u16_to_be_bytes mss)"

definition enc_wscale :: "tcp_options \<Rightarrow> u8 list" where
  "enc_wscale opt = (case op_wscale opt of None \<Rightarrow> [] | Some ws \<Rightarrow> [3] @ [3] @ [min ws 14])"

definition enc_sack_permitted :: "tcp_options \<Rightarrow> u8 list" where
  "enc_sack_permitted opt = (if op_sack_permitted opt then [4] @ [2] else [])"

definition enc_ts :: "tcp_options \<Rightarrow> u8 list" where
  "enc_ts opt = (case op_ts opt of None \<Rightarrow> []
     | Some (v, e) \<Rightarrow> [8] @ [10] @ u32_to_be_bytes v @ u32_to_be_bytes e)"

definition enc_blocks :: "(u32 \<times> u32) list \<Rightarrow> u8 list" where
  "enc_blocks bs = concat (map (\<lambda>(l, r). u32_to_be_bytes l @ u32_to_be_bytes r) bs)"

definition enc_sack :: "tcp_options \<Rightarrow> u8 list" where
  "enc_sack opt = (if sack_is_empty (op_sack opt) then []
     else [5] @ [of_nat (2 + 8 * sack_len (op_sack opt))] @ enc_blocks (sack_as_slice (op_sack opt)))"

definition options_body :: "tcp_options \<Rightarrow> u8 list" where
  "options_body opt =
     enc_mss opt @ enc_wscale opt @ enc_sack_permitted opt @ enc_ts opt @ enc_sack opt"

definition options_bytes :: "tcp_options \<Rightarrow> u8 list" where
  "options_bytes opt =
     options_body opt @ replicate (options_encoded_len opt - length (options_body opt)) 1"

lemma length_enc_blocks [simp]: "length (enc_blocks bs) = 8 * length bs"
  by (induction bs) (auto simp: enc_blocks_def)

lemma length_as_slice: "sack_ok s \<Longrightarrow> length (sack_as_slice s) = sack_len s"
  by (simp add: sack_ok_def sack_as_slice_def get_range_def sack_len_def)

lemma length_options_body: "sack_ok (op_sack opt) \<Longrightarrow> length (options_body opt) = options_raw_len opt"
  by (auto simp: options_body_def options_raw_len_def enc_mss_def enc_wscale_def
      enc_sack_permitted_def enc_ts_def enc_sack_def length_as_slice split: option.splits)

lemma align4_ge: "n \<le> align4 n"
  unfolding align4_def by linarith

lemma align4_dvd: "4 dvd align4 n"
  by (simp add: align4_def)

lemma length_options_bytes:
  "sack_ok (op_sack opt) \<Longrightarrow> length (options_bytes opt) = options_encoded_len opt"
  using align4_ge [of "options_raw_len opt"]
  by (simp add: options_bytes_def length_options_body options_encoded_len_def)

lemma appends_write_mss: "appends idx (write_mss opt idx) (enc_mss opt) (idx + length (enc_mss opt))"
proof (cases "op_mss opt")
  case None
  then show ?thesis by (simp add: write_mss_def enc_mss_def appends_ret)
next
  case (Some m)
  have "appends idx (then_rs (put_bytes idx [2]) (then_rs (put_bytes (idx + 1) [4])
          (then_rs (put_bytes (idx + 2) (u16_to_be_bytes m)) (ret_rs (idx + 4)))))
        ([2] @ [4] @ u16_to_be_bytes m @ []) (idx + 4)"
    by (rule appends_then_put, simp)+ (rule appends_ret)
  then show ?thesis using Some by (simp add: write_mss_def enc_mss_def put_defs)
qed

lemma appends_write_wscale:
  "appends idx (write_wscale opt idx) (enc_wscale opt) (idx + length (enc_wscale opt))"
proof (cases "op_wscale opt")
  case None
  then show ?thesis by (simp add: write_wscale_def enc_wscale_def appends_ret)
next
  case (Some ws)
  have "appends idx (then_rs (put_bytes idx [3]) (then_rs (put_bytes (idx + 1) [3])
          (then_rs (put_bytes (idx + 2) [min ws 14]) (ret_rs (idx + 3)))))
        ([3] @ [3] @ [min ws 14] @ []) (idx + 3)"
    by (rule appends_then_put, simp)+ (rule appends_ret)
  then show ?thesis using Some by (simp add: write_wscale_def enc_wscale_def put_defs numeral_3_eq_3)
qed

lemma appends_write_sack_permitted:
  "appends idx (write_sack_permitted opt idx) (enc_sack_permitted opt) (idx + length (enc_sack_permitted opt))"
proof (cases "op_sack_permitted opt")
  case False
  then show ?thesis by (simp add: write_sack_permitted_def enc_sack_permitted_def appends_ret)
next
  case True
  have "appends idx (then_rs (put_bytes idx [4]) (then_rs (put_bytes (idx + 1) [2]) (ret_rs (idx + 2))))
        ([4] @ [2] @ []) (idx + 2)"
    by (rule appends_then_put, simp)+ (rule appends_ret)
  then show ?thesis using True by (simp add: write_sack_permitted_def enc_sack_permitted_def put_defs)
qed

lemma appends_write_ts: "appends idx (write_ts opt idx) (enc_ts opt) (idx + length (enc_ts opt))"
proof (cases "op_ts opt")
  case None
  then show ?thesis by (simp add: write_ts_def enc_ts_def appends_ret)
next
  case (Some ve)
  obtain v e where ve: "ve = (v, e)" by (cases ve)
  have "appends idx (then_rs (put_bytes idx [8]) (then_rs (put_bytes (idx + 1) [10])
          (then_rs (put_bytes (idx + 2) (u32_to_be_bytes v))
            (then_rs (put_bytes (idx + 6) (u32_to_be_bytes e)) (ret_rs (idx + 10))))))
        ([8] @ [10] @ u32_to_be_bytes v @ u32_to_be_bytes e @ []) (idx + 10)"
    by (rule appends_then_put, simp)+ (rule appends_ret)
  then show ?thesis using Some ve by (simp add: write_ts_def enc_ts_def put_defs)
qed

lemma appends_put_sack_blocks:
  "appends (idx + 2 + k * 8) (put_sack_blocks idx k bs) (enc_blocks bs) ()"
proof (induction bs arbitrary: k)
  case Nil
  show ?case by (simp add: enc_blocks_def appends_ret)
next
  case (Cons b bs)
  obtain l r where b: "b = (l, r)" by (cases b)
  have "appends (idx + 2 + k * 8) (then_rs (put_bytes (idx + 2 + k * 8) (u32_to_be_bytes l))
          (then_rs (put_bytes (idx + 6 + k * 8) (u32_to_be_bytes r)) (put_sack_blocks idx (k + 1) bs)))
        (u32_to_be_bytes l @ u32_to_be_bytes r @ enc_blocks bs) ()"
    using Cons.IH [of "k + 1"]
    by (intro appends_then_put) (simp_all add: algebra_simps)
  then show ?case using b by (simp add: enc_blocks_def put_defs)
qed

lemma appends_write_sack:
  assumes "sack_ok (op_sack opt)"
  shows "appends idx (write_sack opt idx) (enc_sack opt) (idx + length (enc_sack opt))"
proof (cases "sack_is_empty (op_sack opt)")
  case True
  then show ?thesis by (simp add: write_sack_def enc_sack_def appends_ret)
next
  case False
  let ?n = "sack_len (op_sack opt)" and ?bs = "sack_as_slice (op_sack opt)"
  have n: "?n \<le> 4" "length ?bs = ?n" using assms by (simp_all add: sack_ok_def sack_len_def length_as_slice)
  have "appends idx (then_rs (put_bytes idx [5]) (then_rs (put_bytes (idx + 1) [of_nat (2 + 8 * ?n)])
          (then_rs (put_sack_blocks idx 0 ?bs) (ret_rs (idx + (2 + 8 * ?n))))))
        ([5] @ [of_nat (2 + 8 * ?n)] @ enc_blocks ?bs @ []) (idx + (2 + 8 * ?n))"
    using appends_put_sack_blocks [of idx 0 ?bs]
    by (intro appends_then_put appends_then [of _ _ "enc_blocks ?bs"] appends_ret) simp_all
  then show ?thesis using False n by (simp add: write_sack_def enc_sack_def put_defs Let_def)
qed

lemma appends_put_nops: "appends idx (put_nops idx n) (replicate n 1) ()"
proof (induction n arbitrary: idx)
  case (Suc n)
  have "appends idx (then_rs (put_bytes idx [1]) (put_nops (idx + 1) n)) ([1] @ replicate n 1) ()"
    using Suc.IH [of "idx + 1"] by (intro appends_then_put) simp_all
  then show ?case by (simp add: put_defs)
qed (simp add: appends_ret)

lemma appends_options_write:
  assumes ok: "sack_ok (op_sack opt)"
  shows "appends 0 (options_write opt) (options_bytes opt) (options_encoded_len opt)"
proof -
  have pad: "appends idx (write_padding idx) (replicate (align4 idx - idx) 1 @ []) (align4 idx)" for idx
    unfolding write_padding_def by (rule appends_then [OF appends_put_nops appends_ret])
  have "appends 0 (options_write opt)
     (enc_mss opt @ enc_wscale opt @ enc_sack_permitted opt @ enc_ts opt @ enc_sack opt @
      replicate (align4 (length (options_body opt)) - length (options_body opt)) 1 @ [])
     (align4 (length (options_body opt)))"
    unfolding options_write_def
    by (rule appends_bind, rule appends_write_mss, rule appends_bind, rule appends_write_wscale,
        rule appends_bind, rule appends_write_sack_permitted, rule appends_bind, rule appends_write_ts,
        rule appends_bind, rule appends_write_sack [OF ok])
      (use pad [of "length (options_body opt)"] in \<open>simp add: options_body_def add.assoc\<close>)
  then have "appends 0 (options_write opt)
     (options_body opt @ replicate (align4 (length (options_body opt)) - length (options_body opt)) 1)
     (align4 (length (options_body opt)))"
    by (simp add: options_body_def)
  then show ?thesis
    by (simp add: options_bytes_def options_encoded_len_def length_options_body [OF ok])
qed

subsection \<open>Parsing what was written\<close>

lemma get_at_shift [simp]: "get_at (pre @ xs) (length pre + k) = get_at xs k"
  by (simp add: get_at_def)

lemma get_range_shift [simp]:
  "get_range (pre @ xs) (length pre + a) (length pre + b) = get_range xs a b"
  by (simp add: get_range_def)

lemma read2_shift: "read2 (pre @ xs) (length pre + k) = read2 xs k"
  by (simp only: read2_def add.assoc get_range_shift)

lemma read4_shift: "read4 (pre @ xs) (length pre + k) = read4 xs k"
  by (simp only: read4_def add.assoc get_range_shift)

lemma read_sack_blocks_shift:
  "read_sack_blocks (pre @ xs) (length pre + i) k n sb = read_sack_blocks xs i k n sb"
  by (induction n arbitrary: k sb) (simp_all only: read_sack_blocks.simps add.assoc read4_shift)

definition shift_result :: "nat \<Rightarrow> ('a \<times> nat) option result \<Rightarrow> ('a \<times> nat) option result" where
  "shift_result d r = (case r of Inl e \<Rightarrow> Inl e | Inr x \<Rightarrow> Inr (map_option (apsnd (\<lambda>i. d + i)) x))"

lemma shift_result_simps [simp]:
  "shift_result d (Inl e) = Inl e" "shift_result d (Inr None) = Inr None"
  "shift_result d (Inr (Some (x, i))) = Inr (Some (x, d + i))"
  by (simp_all add: shift_result_def)

lemma shift_res_bind: "shift_result d (res_bind r f) = res_bind r (\<lambda>x. shift_result d (f x))"
  by (cases r) auto

lemma parse_option_shift:
  "parse_option (pre @ xs) (length pre + i) opt = shift_result (length pre) (parse_option xs i opt)"
  unfolding parse_option_def
  by (simp only: shift_res_bind add.assoc get_at_shift read2_shift read4_shift
      read_sack_blocks_shift length_append nat_add_left_cancel_less shift_result_simps
      if_distrib [of "shift_result _"])

lemma options_parse_loop_shift:
  "options_parse_loop (pre @ xs) (length pre + i) opt = options_parse_loop xs i opt"
proof (induction xs i opt rule: options_parse_loop.induct)
  case (1 xs i opt)
  show ?case
  proof (cases "i < length xs")
    case False
    then show ?thesis by (simp add: options_parse_loop.simps)
  next
    case True
    show ?thesis
    proof (cases "parse_option xs i opt")
      case (Inl e)
      then show ?thesis using True
        by (simp add: parse_option_shift options_parse_loop.simps [of _ "length pre + i"]
            options_parse_loop.simps [of xs i])
    next
      case (Inr r)
      show ?thesis
      proof (cases r)
        case None
        then show ?thesis using True Inr
          by (simp add: parse_option_shift options_parse_loop.simps [of _ "length pre + i"]
              options_parse_loop.simps [of xs i])
      next
        case (Some oi)
        obtain opt' i' where oi: "oi = (opt', i')" by (cases oi)
        then have "options_parse_loop (pre @ xs) (length pre + i') opt' = options_parse_loop xs i' opt'"
          using True Inr Some "1.IH" by blast
        then show ?thesis using True Inr Some oi
          by (simp add: parse_option_shift options_parse_loop.simps [of _ "length pre + i"]
              options_parse_loop.simps [of xs i])
      qed
    qed
  qed
qed

lemma parse_one:
  assumes "parse_option (ys @ zs) 0 opt = Inr (Some (opt', length ys))" and "ys \<noteq> []"
  shows "options_parse_loop (ys @ zs) 0 opt = options_parse_loop zs 0 opt'"
proof -
  have "options_parse_loop (ys @ zs) 0 opt = options_parse_loop (ys @ zs) (length ys) opt'"
    using assms by (subst options_parse_loop.simps) simp
  then show ?thesis using options_parse_loop_shift [of ys zs 0 opt'] by simp
qed

lemma parse_nops: "options_parse_loop (replicate n 1) 0 opt = Inr opt"
proof (induction n)
  case 0
  then show ?case by (simp add: options_parse_loop.simps)
next
  case (Suc n)
  have "parse_option ([1] @ replicate n 1) 0 opt = Inr (Some (opt, length [1 :: u8]))"
    by (simp add: parse_option_def get_at_def)
  from parse_one [OF this] Suc show ?case by simp
qed

lemmas parse_eval = parse_option_def get_at_def read2_def read4_def get_range_def
  u16_to_be_bytes_def u32_to_be_bytes_def u16_from_to_be u32_from_to_be

lemma parse_mss:
  "options_parse_loop (enc_mss opt @ zs) 0 acc =
   options_parse_loop zs 0 (if op_mss opt = None then acc else acc\<lparr>op_mss := op_mss opt\<rparr>)"
proof (cases "op_mss opt")
  case (Some m)
  have "parse_option (([2] @ [4] @ u16_to_be_bytes m) @ zs) 0 acc =
      Inr (Some (acc\<lparr>op_mss := Some m\<rparr>, length ([2] @ [4] @ u16_to_be_bytes m)))"
    by (simp add: parse_eval del: u16_from_be_bytes.simps)
  from parse_one [OF this] Some show ?thesis by (simp add: enc_mss_def)
qed (simp add: enc_mss_def)

lemma parse_wscale:
  "options_parse_loop (enc_wscale opt @ zs) 0 acc =
   options_parse_loop zs 0
     (if op_wscale opt = None then acc else acc\<lparr>op_wscale := map_option (\<lambda>w. min w 14) (op_wscale opt)\<rparr>)"
proof (cases "op_wscale opt")
  case (Some w)
  have "parse_option (([3] @ [3] @ [min w 14]) @ zs) 0 acc =
      Inr (Some (acc\<lparr>op_wscale := Some (min w 14)\<rparr>, length ([3] @ [3] @ [min w 14])))"
    by (simp add: parse_eval)
  from parse_one [OF this] Some show ?thesis by (simp add: enc_wscale_def)
qed (simp add: enc_wscale_def)

lemma parse_sack_permitted:
  "options_parse_loop (enc_sack_permitted opt @ zs) 0 acc =
   options_parse_loop zs 0 (if op_sack_permitted opt then acc\<lparr>op_sack_permitted := True\<rparr> else acc)"
proof (cases "op_sack_permitted opt")
  case True
  have "parse_option (([4] @ [2]) @ zs) 0 acc =
      Inr (Some (acc\<lparr>op_sack_permitted := True\<rparr>, length ([4] @ [2 :: u8])))"
    by (simp add: parse_eval)
  from parse_one [OF this] True show ?thesis by (simp add: enc_sack_permitted_def)
qed (simp add: enc_sack_permitted_def)

lemma parse_ts:
  "options_parse_loop (enc_ts opt @ zs) 0 acc =
   options_parse_loop zs 0 (if op_ts opt = None then acc else acc\<lparr>op_ts := op_ts opt\<rparr>)"
proof (cases "op_ts opt")
  case (Some ve)
  obtain v e where ve: "ve = (v, e)" by (cases ve)
  have "parse_option (([8] @ [10] @ u32_to_be_bytes v @ u32_to_be_bytes e) @ zs) 0 acc =
      Inr (Some (acc\<lparr>op_ts := Some (v, e)\<rparr>, length ([8] @ [10] @ u32_to_be_bytes v @ u32_to_be_bytes e)))"
    by (simp add: parse_eval del: u32_from_be_bytes.simps)
  from parse_one [OF this] Some ve show ?thesis by (simp add: enc_ts_def)
qed (simp add: enc_ts_def)

lemma read4_be: "read4 (u32_to_be_bytes v @ zs) 0 =
    Inr (ucast (drop_bit 24 v), ucast (drop_bit 16 v), ucast (drop_bit 8 v), ucast v)"
  by (simp add: read4_def get_range_def u32_to_be_bytes_def)

lemma read_sack_blocks_enc:
  "length pre = i + 2 + 8 * k \<Longrightarrow>
   read_sack_blocks (pre @ enc_blocks bs @ zs) i k (length bs) sb
   = Inr (fold (\<lambda>(l, r). sack_push l r) bs sb)"
proof (induction bs arbitrary: pre k sb)
  case (Cons b bs)
  obtain l r where b: "b = (l, r)" by (cases b)
  let ?pre = "pre @ u32_to_be_bytes l"
  have e: "pre @ enc_blocks (b # bs) @ zs = ?pre @ u32_to_be_bytes r @ enc_blocks bs @ zs"
    using b by (simp add: enc_blocks_def)
  have e': "pre @ enc_blocks (b # bs) @ zs = pre @ u32_to_be_bytes l @ u32_to_be_bytes r @ enc_blocks bs @ zs"
    using b by (simp add: enc_blocks_def)
  have 1: "read4 (pre @ enc_blocks (b # bs) @ zs) (i + 2 + k * 8) =
      Inr (ucast (drop_bit 24 l), ucast (drop_bit 16 l), ucast (drop_bit 8 l), ucast l)"
    using read4_shift [of pre "u32_to_be_bytes l @ u32_to_be_bytes r @ enc_blocks bs @ zs" 0]
      Cons.prems unfolding e' by (simp add: read4_be mult.commute)
  have 2: "read4 (pre @ enc_blocks (b # bs) @ zs) (i + 2 + k * 8 + 4) =
      Inr (ucast (drop_bit 24 r), ucast (drop_bit 16 r), ucast (drop_bit 8 r), ucast r)"
    using read4_shift [of ?pre "u32_to_be_bytes r @ enc_blocks bs @ zs" 0]
      Cons.prems unfolding e by (simp add: read4_be mult.commute)
  have "read_sack_blocks ((?pre @ u32_to_be_bytes r) @ enc_blocks bs @ zs) i (k + 1) (length bs) (sack_push l r sb)
      = Inr (fold (\<lambda>(l, r). sack_push l r) bs (sack_push l r sb))"
    by (rule Cons.IH) (use Cons.prems in simp)
  then show ?case using b e
    unfolding length_Cons read_sack_blocks.simps 1 2 by (simp only: res_bind.simps u32_from_to_be)
      simp
qed simp

definition sack_norm :: "sack_blocks \<Rightarrow> sack_blocks" where
  "sack_norm s = sack_from_slice (sack_as_slice s)"

lemma fold_sack_push:
  assumes "length bs \<le> 4"
  shows "fold (\<lambda>(l, r). sack_push l r) bs sack_empty = sack_from_slice bs"
proof -
  have "bs = [] \<or> (\<exists>x. bs = [x]) \<or> (\<exists>x y. bs = [x, y]) \<or> (\<exists>x y z. bs = [x, y, z]) \<or>
      (\<exists>x y z w. bs = [x, y, z, w])"
    using assms by (auto simp: le_Suc_eq length_Suc_conv numeral_eq_Suc)
  then consider "bs = []" | x where "bs = [x]" | x y where "bs = [x, y]"
    | x y z where "bs = [x, y, z]" | x y z w where "bs = [x, y, z, w]" by blast
  then show ?thesis
    by cases (simp_all add: sack_push_def sack_empty_def sack_from_slice_def overlay_def
        replicate_numeral list_update_numeral split: prod.splits)
qed

lemma parse_sack:
  assumes ok: "sack_ok (op_sack opt)"
  shows "options_parse_loop (enc_sack opt @ zs) 0 acc =
   options_parse_loop zs 0
     (if sack_is_empty (op_sack opt) then acc else acc\<lparr>op_sack := sack_norm (op_sack opt)\<rparr>)"
proof (cases "sack_is_empty (op_sack opt)")
  case False
  let ?n = "sack_len (op_sack opt)" and ?bs = "sack_as_slice (op_sack opt)"
  let ?L = "of_nat (2 + 8 * ?n) :: u8"
  have n: "0 < ?n" "?n \<le> 4" "length ?bs = ?n"
    using ok False by (auto simp: sack_ok_def sack_len_def sack_is_empty_def length_as_slice unat_pos_iff)
  then have L: "unat ?L = 2 + 8 * ?n" by (intro unat_of_nat_small) simp
  have L2: "unat (?L - 2) = 8 * ?n"
    using L by (subst unat_sub) (simp_all add: word_le_nat_alt)
  have "unat ((?L - 2) mod 8) = 0" using L2 by (simp add: unat_mod_distrib)
  then have "(?L - 2) mod 8 = 0" by (rule unat_zeroD)
  moreover have "\<not> ?L < 10" "\<not> 4 < (?L - 2) div 8" "unat ((?L - 2) div 8) = ?n"
    using n L2 L by (simp_all add: word_less_nat_alt unat_div_distrib)
  ultimately have L3: "\<not> ?L < 10" "(?L - 2) mod 8 = 0" "\<not> 4 < (?L - 2) div 8"
      "unat ((?L - 2) div 8) = ?n" by simp_all
  have rd: "read_sack_blocks ([5, ?L] @ enc_blocks ?bs @ zs) 0 0 ?n sack_empty = Inr (sack_norm (op_sack opt))"
    using read_sack_blocks_enc [of "[5, ?L]" 0 0 ?bs zs sack_empty] n fold_sack_push [of ?bs]
    by (simp add: sack_norm_def)
  have "parse_option (([5] @ [?L] @ enc_blocks ?bs) @ zs) 0 acc =
      Inr (Some (acc\<lparr>op_sack := sack_norm (op_sack opt)\<rparr>, length ([5] @ [?L] @ enc_blocks ?bs)))"
    using rd L L3 n by (simp add: parse_option_def get_at_def)
  from parse_one [OF this] False show ?thesis by (simp add: enc_sack_def)
qed (simp add: enc_sack_def)

definition options_norm :: "tcp_options \<Rightarrow> tcp_options" where
  "options_norm opt = opt\<lparr>op_wscale := map_option (\<lambda>w. min w 14) (op_wscale opt),
                         op_sack := sack_norm (op_sack opt)\<rparr>"

lemma sack_norm_empty: "sack_is_empty s \<Longrightarrow> sack_norm s = sack_empty"
  by (simp add: sack_norm_def sack_as_slice_def sack_is_empty_def get_range_def sack_from_slice_def
      sack_empty_def)

lemma options_parse_write:
  assumes ok: "sack_ok (op_sack opt)"
  shows "options_parse (options_bytes opt) = Inr (options_norm opt)"
proof -
  have "options_parse (options_bytes opt) = Inr
     (let a = (if op_mss opt = None then options_none else options_none\<lparr>op_mss := op_mss opt\<rparr>);
          b = (if op_wscale opt = None then a
               else a\<lparr>op_wscale := map_option (\<lambda>w. min w 14) (op_wscale opt)\<rparr>);
          c = (if op_sack_permitted opt then b\<lparr>op_sack_permitted := True\<rparr> else b);
          d = (if op_ts opt = None then c else c\<lparr>op_ts := op_ts opt\<rparr>)
      in if sack_is_empty (op_sack opt) then d else d\<lparr>op_sack := sack_norm (op_sack opt)\<rparr>)"
    unfolding options_parse_def options_bytes_def options_body_def append_assoc
    by (simp only: parse_mss parse_wscale parse_sack_permitted parse_ts parse_sack [OF ok] parse_nops Let_def)
  also have "\<dots> = Inr (options_norm opt)"
    by (cases opt) (auto simp: Let_def options_none_def options_norm_def sack_norm_empty)
  finally show ?thesis .
qed

section \<open>The bytes of an emitted datagram\<close>

fun ip4_bytes :: "ip4 \<Rightarrow> u8 list" where
  "ip4_bytes (a, b, c, d) = [a, b, c, d]"

definition ip_prefix :: "u16 \<Rightarrow> u16 \<Rightarrow> u8 \<Rightarrow> u8 list" where
  "ip_prefix total_u16 ip_id ecn =
     [0x45] @ [ecn AND ECN_MASK] @ u16_to_be_bytes total_u16 @ u16_to_be_bytes ip_id
     @ u16_to_be_bytes 0x4000 @ [64] @ [IPPROTO_TCP]"

definition ip_header :: "ip4 \<Rightarrow> ip4 \<Rightarrow> u16 \<Rightarrow> u16 \<Rightarrow> u8 \<Rightarrow> u16 \<Rightarrow> u8 list" where
  "ip_header src dst total_u16 ip_id ecn csum =
     ip_prefix total_u16 ip_id ecn @ u16_to_be_bytes csum @ ip4_bytes src @ ip4_bytes dst"

definition tcp_prefix :: "u16 \<Rightarrow> u16 \<Rightarrow> u32 \<Rightarrow> u32 \<Rightarrow> nat \<Rightarrow> u8 \<Rightarrow> u16 \<Rightarrow> u8 list" where
  "tcp_prefix sp dp seq ack hlen flags window =
     u16_to_be_bytes sp @ u16_to_be_bytes dp @ u32_to_be_bytes seq @ u32_to_be_bytes ack
     @ [push_bit 4 (of_nat (hlen div 4))] @ [flags] @ u16_to_be_bytes window"

lemma length_ip4_bytes [simp]: "length (ip4_bytes a) = 4"
  by (cases a) simp

lemma length_prefixes [simp]:
  "length (ip_prefix t i e) = 10" "length (tcp_prefix sp dp s a h f w) = 16"
  "length (ip_header src dst t i e c) = 20"
  by (simp_all add: ip_prefix_def tcp_prefix_def ip_header_def)

lemma then_put:
  "length pre = i \<Longrightarrow> length bs \<le> length rest \<Longrightarrow>
   then_rs (put_bytes i bs) k (pre @ rest) = k ((pre @ bs) @ drop (length bs) rest)"
  using appendsD [OF appends_put_bytes, of pre i bs rest] by (simp add: then_rs_def bind_rs_def)

lemma then_fill_zero: "then_rs fill_zero k buf = k ([] @ replicate (length buf) 0)"
  by (simp add: then_rs_def bind_rs_def fill_zero_def)

lemma put4_eq: "put4 off a = put_bytes off (ip4_bytes a)"
  by (cases a) simp

lemma put_in_middle:
  "length pre = i \<Longrightarrow> length bs = length old \<Longrightarrow>
   put_bytes i bs (pre @ old @ post) = (Inr (), pre @ bs @ post)"
  by (simp add: put_bytes_def overlay_def)

lemma emit_ip_header_bytes:
  assumes "length buf = 20"
  shows "emit_ip_header src dst t i e buf =
    (Inr (), ip_header src dst t i e (checksum (ip_header src dst t i e 0) 0))"
proof -
  have "emit_ip_header src dst t i e buf =
     bind_rs (read_rs (\<lambda>ip. checksum ip 0)) (\<lambda>ip_csum. put_u16 10 ip_csum) (ip_header src dst t i e 0)"
    unfolding emit_ip_header_def put_defs put4_eq then_fill_zero assms
    by (rule trans [OF then_put], simp, simp)+ (simp add: ip_header_def ip_prefix_def)
  also have "\<dots> = put_bytes 10 (u16_to_be_bytes (checksum (ip_header src dst t i e 0) 0)) (ip_header src dst t i e 0)"
    by (simp add: bind_rs_def read_rs_def put_defs)
  also have "\<dots> = (Inr (), ip_header src dst t i e (checksum (ip_header src dst t i e 0) 0))"
    unfolding ip_header_def by (rule put_in_middle) simp_all
  finally show ?thesis .
qed

lemma on_slice_split:
  assumes "length pre = a" "b = a + length mid" "m mid = (r, mid')" "length mid' = length mid"
  shows "on_slice a b m (pre @ mid @ post) = (r, pre @ mid' @ post)"
  using assms by (simp add: on_slice_def get_range_def overlay_def)

lemma emit_tcp_header_bytes:
  assumes ok: "sack_ok (op_sack opt)" and len: "length buf = TCP_HDR_LEN + options_encoded_len opt"
  shows "emit_tcp_header sp dp seq ack flags window opt buf =
    (Inr (), tcp_prefix sp dp seq ack (TCP_HDR_LEN + options_encoded_len opt) flags window @ [0, 0]
      @ [0, 0] @ options_bytes opt)"
proof -
  let ?ol = "options_encoded_len opt" and ?h = "TCP_HDR_LEN + options_encoded_len opt"
  let ?pre = "tcp_prefix sp dp seq ack ?h flags window @ [0, 0] @ [0, 0]"
  let ?K = "if 0 < ?ol then bind_rs (on_slice TCP_HDR_LEN (TCP_HDR_LEN + ?ol) (options_write opt))
              (\<lambda>written. if written \<noteq> ?ol then fail_rs Overflow else ret_rs ())
            else ret_rs ()"
  have buf: "emit_tcp_header sp dp seq ack flags window opt buf = ?K (?pre @ replicate ?ol 0)"
    unfolding emit_tcp_header_def put_defs Let_def then_fill_zero len
    by (rule trans [OF then_put], simp, simp add: TCP_HDR_LEN_def)+
      (simp add: tcp_prefix_def TCP_HDR_LEN_def replicate_add replicate_numeral)
  have ob: "length (options_bytes opt) = ?ol" using length_options_bytes [OF ok] .
  show ?thesis
  proof (cases "0 < ?ol")
    case True
    have "options_write opt ([] @ replicate ?ol 0) = (Inr ?ol, [] @ options_bytes opt @ drop ?ol (replicate ?ol 0))"
      using appendsD [OF appends_options_write [OF ok], of "[]" "replicate ?ol 0"] ob by simp
    then have "on_slice TCP_HDR_LEN (TCP_HDR_LEN + ?ol) (options_write opt) (?pre @ replicate ?ol 0 @ [])
        = (Inr ?ol, ?pre @ options_bytes opt @ [])"
      using ob by (intro on_slice_split) (simp_all add: TCP_HDR_LEN_def)
    then show ?thesis using buf True by (simp add: bind_rs_def ret_rs_def)
  next
    case False
    then show ?thesis using buf ob by (simp add: ret_rs_def)
  qed
qed

definition tcp_segment_bytes ::
  "u16 \<Rightarrow> u16 \<Rightarrow> u32 \<Rightarrow> u32 \<Rightarrow> u8 \<Rightarrow> u16 \<Rightarrow> tcp_options \<Rightarrow> u16 \<Rightarrow> u8 list \<Rightarrow> u8 list" where
  "tcp_segment_bytes sp dp seq ack flags window opt csum payload =
     tcp_prefix sp dp seq ack (TCP_HDR_LEN + options_encoded_len opt) flags window
     @ u16_to_be_bytes csum @ [0, 0] @ options_bytes opt @ payload"

lemma length_tcp_segment_bytes [simp]:
  "sack_ok (op_sack opt) \<Longrightarrow>
   length (tcp_segment_bytes sp dp seq ack flags window opt csum payload)
   = 20 + options_encoded_len opt + length payload"
  by (simp add: tcp_segment_bytes_def length_options_bytes)

definition emitted_bytes where
  "emitted_bytes src dst sp dp seq ack flags window opt payload ip_id ecn full_csum =
     (let total = 40 + options_encoded_len opt + length payload;
          seg = (\<lambda>c. tcp_segment_bytes sp dp seq ack flags window opt c payload)
      in ip_header src dst (of_nat total) ip_id ecn
           (checksum (ip_header src dst (of_nat total) ip_id ecn 0) 0)
         @ seg (if full_csum then tcp_checksum src dst (seg 0)
                else tcp_partial_checksum src dst (of_nat (length (seg 0)))))"

lemma emit_with_bytes:
  assumes ok: "sack_ok (op_sack opt)" and ol: "options_encoded_len opt \<le> 40"
    and tt: "tt = 40 + options_encoded_len opt + length payload"
    and room: "tt \<le> length out" and fits: "tt < 65536"
    and fill: "\<And>d. length d = length payload \<Longrightarrow> fill d = (True, payload)"
  shows "emit_with src dst sp dp seq ack flags window opt (length payload) fill ip_id ecn full_csum out
    = (Inr tt, emitted_bytes src dst sp dp seq ack flags window opt payload ip_id ecn full_csum
        @ drop tt out)"
proof -
  let ?ol = "options_encoded_len opt" and ?n = "length payload"
  let ?ip = "ip_header src dst (of_nat tt) ip_id ecn (checksum (ip_header src dst (of_nat tt) ip_id ecn 0) 0)"
  let ?seg = "\<lambda>c. tcp_segment_bytes sp dp seq ack flags window opt c payload"
  let ?hdr = "tcp_prefix sp dp seq ack (TCP_HDR_LEN + ?ol) flags window @ [0, 0] @ [0, 0] @ options_bytes opt"
  let ?body = "then_rs (on_slice 0 (TCP_HDR_LEN + ?ol) (emit_tcp_header sp dp seq ack flags window opt))
         (on_slice (TCP_HDR_LEN + ?ol) (TCP_HDR_LEN + ?ol + ?n) (run_fill fill))"
  have out: "out = take 20 out @ take (20 + ?ol + ?n) (drop 20 out) @ drop tt out"
  proof -
    have "drop tt out = drop (20 + ?ol + ?n) (drop 20 out)" using tt by (simp add: ac_simps)
    then show ?thesis by (simp only: append_take_drop_id)
  qed
  let ?mid = "take (20 + ?ol + ?n) (drop 20 out)" and ?post = "drop tt out"
  have lens: "length (take 20 out) = 20" "length ?mid = 20 + ?ol + ?n"
    using room tt by simp_all
  have mid: "?mid = [] @ take (20 + ?ol) ?mid @ drop (20 + ?ol) ?mid"
    by (simp only: append_Nil append_take_drop_id)
  have hl: "length ?hdr = 20 + ?ol" using length_options_bytes [OF ok] by simp
  have d4: "?ol mod 4 = 0" using align4_dvd by (simp add: options_encoded_len_def mod_0_imp_dvd dvd_imp_mod_0)
  have ip: "on_slice 0 IPV4_HDR_LEN (emit_ip_header src dst (of_nat tt) ip_id ecn) ([] @ take 20 out @ ?mid @ ?post)
      = (Inr (), [] @ ?ip @ ?mid @ ?post)"
    using lens by (intro on_slice_split) (simp_all add: emit_ip_header_bytes IPV4_HDR_LEN_def)
  have hdr: "on_slice 0 (TCP_HDR_LEN + ?ol) (emit_tcp_header sp dp seq ack flags window opt)
        ([] @ take (20 + ?ol) ?mid @ drop (20 + ?ol) ?mid) = (Inr (), [] @ ?hdr @ drop (20 + ?ol) ?mid)"
    using lens hl by (intro on_slice_split emit_tcp_header_bytes [OF ok]) (simp_all add: TCP_HDR_LEN_def)
  have fl: "on_slice (TCP_HDR_LEN + ?ol) (TCP_HDR_LEN + ?ol + ?n) (run_fill fill)
        (?hdr @ drop (20 + ?ol) ?mid @ []) = (Inr (), ?hdr @ payload @ [])"
    using lens hl fill by (intro on_slice_split) (simp_all add: run_fill_def TCP_HDR_LEN_def)
  have body: "?body ?mid = (Inr (), ?seg 0)"
    using hdr fl by (subst mid) (simp add: then_rs_def bind_rs_def tcp_segment_bytes_def u16_to_be_bytes_def)
  have tcp: "on_slice IPV4_HDR_LEN (IPV4_HDR_LEN + (TCP_HDR_LEN + ?ol) + ?n) ?body (?ip @ ?mid @ ?post)
      = (Inr (), ?ip @ ?seg 0 @ ?post)"
    using lens body ok by (intro on_slice_split) (simp_all add: IPV4_HDR_LEN_def TCP_HDR_LEN_def)
  have put: "on_slice IPV4_HDR_LEN (IPV4_HDR_LEN + (TCP_HDR_LEN + ?ol) + ?n) (put_u16 16 c) (?ip @ ?seg 0 @ ?post)
      = (Inr (), ?ip @ ?seg c @ ?post)" for c
  proof (rule on_slice_split)
    show "put_u16 16 c (?seg 0) = (Inr (), ?seg c)"
      unfolding put_defs tcp_segment_bytes_def by (rule put_in_middle) simp_all
  qed (use ok in \<open>simp_all add: IPV4_HDR_LEN_def TCP_HDR_LEN_def\<close>)
  have tot: "IPV4_HDR_LEN + (TCP_HDR_LEN + ?ol) + ?n = tt"
    using tt by (simp_all add: IPV4_HDR_LEN_def TCP_HDR_LEN_def)
  have rd: "take (tt - IPV4_HDR_LEN) (drop IPV4_HDR_LEN (?ip @ ?seg 0 @ ?post)) = ?seg 0"
    using ok tt by (simp add: IPV4_HDR_LEN_def)
  have u16: "u16_try_from tt = Inr (of_nat tt)" using fits by (simp add: u16_try_from_def)
  let ?c = "if full_csum then tcp_checksum src dst (?seg 0)
            else tcp_partial_checksum src dst (of_nat (length (?seg 0)))"
  let ?C = "bind_rs (read_rs (\<lambda>b. take (tt - IPV4_HDR_LEN) (drop IPV4_HDR_LEN b))) (\<lambda>sg.
      then_rs (on_slice IPV4_HDR_LEN tt (put_u16 16 (if full_csum then tcp_checksum src dst sg
        else tcp_partial_checksum src dst (of_nat (length sg))))) (ret_rs tt))"
  have guards: "\<not> (?ol mod 4 \<noteq> 0 \<or> 40 < ?ol)" "\<not> length out < tt" using d4 ol room by simp_all
  have "emit_with src dst sp dp seq ack flags window opt ?n fill ip_id ecn full_csum out
      = then_rs (on_slice 0 IPV4_HDR_LEN (emit_ip_header src dst (of_nat tt) ip_id ecn))
          (then_rs (on_slice IPV4_HDR_LEN tt ?body) ?C) out"
    unfolding emit_with_def Let_def tot if_not_P [OF guards(1)] if_not_P [OF guards(2)] u16
    by (simp add: bind_rs_def lift_res_def)
  also have "\<dots> = then_rs (on_slice IPV4_HDR_LEN tt ?body) ?C (?ip @ ?mid @ ?post)"
    by (rule then_rs_Inr) (rule ip [unfolded append_Nil, folded out])
  also have "\<dots> = ?C (?ip @ ?seg 0 @ ?post)"
    by (rule then_rs_Inr) (rule tcp [unfolded tot])
  also have "\<dots> = then_rs (on_slice IPV4_HDR_LEN tt (put_u16 16 ?c)) (ret_rs tt) (?ip @ ?seg 0 @ ?post)"
    by (simp only: bind_rs_def read_rs_def rd split sum.case)
  also have "\<dots> = (Inr tt, ?ip @ ?seg ?c @ ?post)"
    by (rule trans [OF then_rs_Inr], rule put [unfolded tot]) (simp only: ret_rs_def)
  finally have "emit_with src dst sp dp seq ack flags window opt ?n fill ip_id ecn full_csum out
      = (Inr tt, ?ip @ ?seg ?c @ ?post)" .
  then show ?thesis by (simp add: emitted_bytes_def Let_def tt)
qed

section \<open>Parsing an emitted datagram\<close>

lemma ip_header_reads:
  shows "get_at (ip_header src dst t i e c) 0 = Some 0x45"
    and "get_at (ip_header src dst t i e c) 1 = Some (e AND ECN_MASK)"
    and "get_at (ip_header src dst t i e c) 9 = Some IPPROTO_TCP"
    and "read2 (ip_header src dst t i e c) 2 = Inr (ucast (drop_bit 8 t), ucast t)"
    and "read2 (ip_header src dst t i e c) 6 = Inr (0x40, 0)"
    and "read4 (ip_header src dst t i e c) 12 = Inr src"
    and "read4 (ip_header src dst t i e c) 16 = Inr dst"
  by (cases src; cases dst; simp add: ip_header_def ip_prefix_def get_at_def read2_def read4_def
      get_range_def u16_to_be_bytes_def)+

lemma tcp_segment_reads:
  fixes sp dp window :: u16 and seq ack :: u32 and flags :: u8 and opt :: tcp_options
    and payload :: "u8 list" and c :: u16
  defines "seg \<equiv> tcp_segment_bytes sp dp seq ack flags window opt c payload"
  shows "read2 seg 0 = Inr (ucast (drop_bit 8 sp), ucast sp)"
    and "read2 seg 2 = Inr (ucast (drop_bit 8 dp), ucast dp)"
    and "read4 seg 4 = Inr (ucast (drop_bit 24 seq), ucast (drop_bit 16 seq), ucast (drop_bit 8 seq), ucast seq)"
    and "read4 seg 8 = Inr (ucast (drop_bit 24 ack), ucast (drop_bit 16 ack), ucast (drop_bit 8 ack), ucast ack)"
    and "get_at seg 12 = Some (push_bit 4 (of_nat ((TCP_HDR_LEN + options_encoded_len opt) div 4)))"
    and "get_at seg 13 = Some flags"
    and "read2 seg 14 = Inr (ucast (drop_bit 8 window), ucast window)"
  unfolding seg_def
  by (simp_all add: tcp_segment_bytes_def tcp_prefix_def get_at_def read2_def read4_def
      get_range_def u16_to_be_bytes_def u32_to_be_bytes_def)

lemma tcp_segment_ranges:
  fixes sp dp window :: u16 and seq ack :: u32 and flags :: u8 and opt :: tcp_options
    and payload :: "u8 list" and c :: u16
  assumes ok: "sack_ok (op_sack opt)"
  defines "seg \<equiv> tcp_segment_bytes sp dp seq ack flags window opt c payload"
  shows "get_range seg 20 (20 + options_encoded_len opt) = Some (options_bytes opt)"
    and "get_range seg (20 + options_encoded_len opt) (length seg) = Some payload"
proof -
  let ?h = "tcp_prefix sp dp seq ack (TCP_HDR_LEN + options_encoded_len opt) flags window
     @ u16_to_be_bytes c @ [0, 0]"
  have s: "seg = ?h @ options_bytes opt @ payload" by (simp add: seg_def tcp_segment_bytes_def)
  have l: "length ?h = 20" "length (options_bytes opt) = options_encoded_len opt"
    using length_options_bytes [OF ok] by simp_all
  show "get_range seg 20 (20 + options_encoded_len opt) = Some (options_bytes opt)"
    using get_range_shift [of ?h "options_bytes opt @ payload" 0 "options_encoded_len opt"] l
    unfolding s by (simp add: get_range_def)
  show "get_range seg (20 + options_encoded_len opt) (length seg) = Some payload"
    using get_range_shift [of "?h @ options_bytes opt" payload 0 "length payload"] l
    unfolding s by (simp add: get_range_def)
qed

lemma data_off_decodes:
  assumes "4 dvd ol" "ol \<le> 40"
  shows "unat (drop_bit 4 (push_bit 4 (of_nat ((20 + ol) div 4)) :: u8)) * 4 = 20 + ol"
proof -
  obtain k where k: "ol = 4 * k" using assms(1) by (rule dvdE)
  then have kk: "(20 + ol) div 4 = 5 + k" "k \<le> 10" using assms(2) by simp_all
  have n: "unat (of_nat (5 + k) :: u8) = 5 + k" using kk by (intro unat_of_nat_small) simp
  have "unat (push_bit 4 (of_nat (5 + k)) OR 0 :: u8) = (5 + k) * 2 ^ 4 + 0"
    using kk n by (subst unat_push_or) simp_all
  then have "unat (drop_bit 4 (push_bit 4 (of_nat (5 + k)) :: u8)) = 5 + k"
    by (simp add: drop_bit_eq_div unat_div_distrib)
  then show ?thesis using k kk by simp
qed

lemma ip_header_verifies:
  "checksum (ip_header src dst t i e (checksum (ip_header src dst t i e 0) 0)) 0 = 0"
proof -
  have z: "ip_header src dst t i e 0 = ip_prefix t i e @ [0, 0] @ ip4_bytes src @ ip4_bytes dst"
    by (simp add: ip_header_def u16_to_be_bytes_def)
  show ?thesis
    unfolding ip_header_def [of _ _ _ _ _ "checksum _ _"] z by (rule checksum_verifies) simp_all
qed

lemma tcp_segment_verifies:
  fixes sp dp window :: u16 and seq ack :: u32 and flags :: u8 and opt :: tcp_options
    and payload :: "u8 list"
  assumes ok: "sack_ok (op_sack opt)" and len: "length payload + options_encoded_len opt \<le> 65535"
  defines "seg \<equiv> \<lambda>c. tcp_segment_bytes sp dp seq ack flags window opt c payload"
  shows "tcp_checksum src dst (seg (tcp_checksum src dst (seg 0))) = 0"
proof -
  let ?pre = "tcp_prefix sp dp seq ack (TCP_HDR_LEN + options_encoded_len opt) flags window"
  let ?post = "[0, 0] @ options_bytes opt @ payload"
  have z: "u16_to_be_bytes 0 = [0, 0]" by (simp add: u16_to_be_bytes_def)
  have c: "seg c = ?pre @ u16_to_be_bytes c @ ?post" for c
    by (simp add: seg_def tcp_segment_bytes_def)
  have l: "length (?pre @ u16_to_be_bytes c @ ?post) = length (?pre @ [0, 0] @ ?post)" for c by simp
  have "checksum (?pre @ u16_to_be_bytes (checksum (?pre @ [0, 0] @ ?post) sd) @ ?post) sd = 0" for sd
    by (rule checksum_verifies) (use len length_options_bytes [OF ok] in simp_all)
  then show ?thesis unfolding c z tcp_checksum_def l .
qed

lemma parse_emitted:
  assumes ok: "sack_ok (op_sack opt)" and ol: "options_encoded_len opt \<le> 40"
    and tt: "tt = 40 + options_encoded_len opt + length payload" and fits: "tt < 65536"
  shows "parse_opts (emitted_bytes src dst sp dp seq ack flags window opt payload ip_id ecn full) full =
    Inr \<lparr>sg_src_ip = src, sg_dst_ip = dst, sg_src_port = sp, sg_dst_port = dp, sg_seq = seq,
         sg_ack = ack, sg_flags = flags, sg_window = window, sg_options = options_norm opt,
         sg_payload = payload, sg_ecn = ecn AND ECN_MASK\<rparr>"
proof -
  let ?seg = "\<lambda>c. tcp_segment_bytes sp dp seq ack flags window opt c payload"
  let ?ip = "ip_header src dst (of_nat tt) ip_id ecn (checksum (ip_header src dst (of_nat tt) ip_id ecn 0) 0)"
  let ?c = "if full then tcp_checksum src dst (?seg 0)
            else tcp_partial_checksum src dst (of_nat (length (?seg 0)))"
  have e: "emitted_bytes src dst sp dp seq ack flags window opt payload ip_id ecn full = ?ip @ ?seg ?c"
    by (simp add: emitted_bytes_def Let_def tt)
  have ls: "length (?seg ?c) = 20 + options_encoded_len opt + length payload" using ok by simp
  have lp: "length (?ip @ ?seg ?c) = tt" using ls tt by simp
  have hd: "get_range (?ip @ ?seg ?c) 0 20 = Some ?ip" by (simp add: get_range_def)
  have sg: "get_range (?ip @ ?seg ?c) 20 (20 + (tt - 20)) = Some (?seg ?c)"
    using get_range_shift [of ?ip "?seg ?c" 0 "tt - 20"] ls tt by (simp add: get_range_def)
  have tl: "unat (of_nat tt :: u16) = tt" using fits by (intro unat_of_nat_small) simp
  have v4: "drop_bit 4 (0x45 :: u8) = 4" "unat ((0x45 :: u8) AND 0x0F) * 4 = 20" by simp_all
  have ff: "u16_from_be_bytes (0x40, 0) AND 0x2000 = 0" "u16_from_be_bytes (0x40, 0) AND 0x1FFF = 0" by simp_all
  have doff: "unat (drop_bit 4 (push_bit 4 (of_nat ((20 + options_encoded_len opt) div 4)) :: u8)) * 4
      = 20 + options_encoded_len opt"
    using align4_dvd ol by (intro data_off_decodes) (simp_all add: options_encoded_len_def)
  have ver: "\<not> (full \<and> tcp_checksum src dst (?seg ?c) \<noteq> 0)"
    using tcp_segment_verifies [OF ok, of payload] fits tt by simp
  have bnd: "20 + 20 \<le> tt" "20 + options_encoded_len opt \<le> length (?seg ?c)" "20 \<le> length (?seg ?c)"
    using ls tt by simp_all
  have bnds: "\<not> tt < 20 + 20" "\<not> length (?seg ?c) < 20" "\<not> length (?seg ?c) < 20 + options_encoded_len opt"
      "\<not> 20 + options_encoded_len opt < 20"
    using bnd by linarith+
  note reads = ip_header_reads tcp_segment_reads [unfolded TCP_HDR_LEN_def]
    tcp_segment_ranges [OF ok] u16_from_to_be u32_from_to_be options_parse_write [OF ok]
  show ?thesis
    unfolding e parse_opts_def IPV4_HDR_LEN_def TCP_HDR_LEN_def hd ok_or_simps res_bind.simps reads v4 Let_def
      lp tl ff sg ip_header_verifies doff
    using ver bnds by (simp only: if_False simp_thms less_irrefl res_bind.simps ok_or_simps reads
        and.assoc and.idem)
qed

lemma length_emitted_bytes:
  assumes "sack_ok (op_sack opt)"
  shows "length (emitted_bytes src dst sp dp seq ack flags window opt payload ip_id ecn full)
    = 40 + options_encoded_len opt + length payload"
  using assms by (simp add: emitted_bytes_def Let_def)

subsection \<open>What a successful parse guarantees\<close>

lemma sack_push_ok: "sack_ok s \<Longrightarrow> sack_ok (sack_push l r s)"
proof -
  assume ok: "sack_ok s"
  have "unat (sk_n s + 1) = unat (sk_n s) + 1" if "unat (sk_n s) < 4"
    using that by (simp add: unat_word_ariths)
  with ok show ?thesis by (auto simp: sack_push_def sack_ok_def)
qed

lemma sack_empty_ok [simp]: "sack_ok sack_empty"
  by (simp add: sack_ok_def sack_empty_def)

lemma read_sack_blocks_ok:
  "read_sack_blocks bs i k n sb = Inr sb' \<Longrightarrow> sack_ok sb \<Longrightarrow> sack_ok sb'"
  by (induction n arbitrary: k sb) (auto simp: res_bind_Inr_conv intro: sack_push_ok)

definition options_ok :: "tcp_options \<Rightarrow> bool" where
  "options_ok opt \<longleftrightarrow> sack_ok (op_sack opt) \<and> (\<forall>w. op_wscale opt = Some w \<longrightarrow> w \<le> 14)"

lemma parse_option_ok:
  "parse_option bs i opt = Inr (Some (opt', i')) \<Longrightarrow> options_ok opt \<Longrightarrow> options_ok opt'"
  by (auto simp: parse_option_def res_bind_Inr_conv options_ok_def split: if_splits
      dest: read_sack_blocks_ok)

lemma options_parse_loop_ok:
  "options_parse_loop bs i opt = Inr opt' \<Longrightarrow> options_ok opt \<Longrightarrow> options_ok opt'"
proof (induction bs i opt rule: options_parse_loop.induct)
  case (1 bs i opt)
  then show ?case
    by (subst (asm) (2) options_parse_loop.simps)
      (auto split: if_splits sum.splits option.splits prod.splits dest: parse_option_ok)
qed

lemma options_parse_ok: "options_parse bs = Inr opt \<Longrightarrow> options_ok opt"
  unfolding options_parse_def
  by (erule options_parse_loop_ok) (simp add: options_ok_def options_none_def)

section \<open>Properties\<close>

text \<open>
  C16. Emitting and parsing are inverse: for every header field, every option set that fits the
  40-byte option space and every payload that fits the datagram, \<^verbatim>\<open>emit\<close> succeeds in
  a buffer of sufficient length, touches only its first \<open>n\<close> bytes, and \<^verbatim>\<open>parse\<close>
  of those bytes (which checks lengths, both checksums, fragmentation and every option) returns
  the same segment, with the window scale clamped to 14, unused SACK slots zeroed and the
  codepoint reduced to its two bits.
\<close>

theorem emit_parse_round_trip:
  assumes "sack_ok (op_sack opt)" and "options_encoded_len opt \<le> 40"
    and "n = 40 + options_encoded_len opt + length payload" and "n \<le> length out" and "n < 65536"
  shows "\<exists>out'. emit src dst sp dp seq ack flags window opt payload ip_id ecn out = (Inr n, out') \<and>
    length out' = length out \<and> drop n out' = drop n out \<and>
    parse (take n out') =
      Inr \<lparr>sg_src_ip = src, sg_dst_ip = dst, sg_src_port = sp, sg_dst_port = dp, sg_seq = seq,
           sg_ack = ack, sg_flags = flags, sg_window = window, sg_options = options_norm opt,
           sg_payload = payload, sg_ecn = ecn AND ECN_MASK\<rparr>"
proof -
  let ?e = "emitted_bytes src dst sp dp seq ack flags window opt payload ip_id ecn True"
  have l: "length ?e = n" using length_emitted_bytes [OF assms(1)] assms(3) by simp
  have "emit src dst sp dp seq ack flags window opt payload ip_id ecn out = (Inr n, ?e @ drop n out)"
    unfolding emit_def by (rule emit_with_bytes [OF assms]) simp
  moreover have "take n (?e @ drop n out) = ?e" "drop n (?e @ drop n out) = drop n out"
      "length (?e @ drop n out) = length out"
    using l assms(4) by simp_all
  ultimately show ?thesis
    using parse_emitted [OF assms(1-3,5), of src dst sp dp seq ack flags window ip_id ecn True]
    unfolding parse_def by (intro exI [of _ "?e @ drop n out"] conjI) (simp_all only:)
qed

theorem emit_parse_round_trip_witness:
  "\<exists>out'. emit (10, 0, 0, 1) (10, 0, 0, 2) 80 443 7 9 FLAG_ACK 512
      (options_none\<lparr>op_mss := Some 1460, op_wscale := Some 20\<rparr>) [1, 2, 3] 5 2 (replicate 64 0)
      = (Inr 51, out') \<and>
    length out' = 64 \<and> drop 51 out' = drop 51 (replicate 64 0) \<and>
    parse (take 51 out') =
      Inr \<lparr>sg_src_ip = (10, 0, 0, 1), sg_dst_ip = (10, 0, 0, 2), sg_src_port = 80, sg_dst_port = 443,
           sg_seq = 7, sg_ack = 9, sg_flags = FLAG_ACK, sg_window = 512,
           sg_options = options_none\<lparr>op_mss := Some 1460, op_wscale := Some 14\<rparr>,
           sg_payload = [1, 2, 3], sg_ecn = 2\<rparr>"
proof -
  let ?o = "options_none\<lparr>op_mss := Some 1460, op_wscale := Some 20\<rparr>"
  have h: "sack_ok (op_sack ?o)" "options_encoded_len ?o = 8"
    by (simp_all add: options_none_def options_encoded_len_def options_raw_len_def align4_def
        sack_is_empty_def sack_empty_def sack_ok_def)
  have n: "options_norm ?o = options_none\<lparr>op_mss := Some 1460, op_wscale := Some 14\<rparr>"
    by (simp add: options_norm_def options_none_def sack_norm_empty sack_is_empty_def sack_empty_def min_def)
  show ?thesis
    using emit_parse_round_trip [OF h(1), of 51 "[1, 2, 3]" "replicate 64 0" "(10, 0, 0, 1)"
        "(10, 0, 0, 2)" 80 443 7 9 FLAG_ACK 512 5 2] h n by (simp add: ECN_MASK_def)
qed

section \<open>Writers stay within their buffer\<close>

definition same_size :: "(u8 list, 'a) rsm \<Rightarrow> bool" where
  "same_size m \<longleftrightarrow> (\<forall>b. length (snd (m b)) = length b)"

named_theorems same_size_intros \<open>writers leave the length of their buffer\<close>

lemma same_size_basic [same_size_intros]:
  "same_size (ret_rs x)" "same_size (fail_rs e)" "same_size (read_rs f)" "same_size (lift_res r)"
  "same_size (put_bytes i bs)" "same_size fill_zero"
  by (auto simp: same_size_def ret_rs_def fail_rs_def read_rs_def lift_res_def put_bytes_def fill_zero_def
      split: sum.split)

lemma same_sizeD: "same_size m \<Longrightarrow> length (snd (m b)) = length b"
  by (simp add: same_size_def)

lemma same_size_guard:
  "(\<not> P \<Longrightarrow> length (snd x) = n) \<Longrightarrow> length b = n \<Longrightarrow> length (snd (if P then (Inl e, b) else x)) = n"
  by simp

lemma same_size_bind [same_size_intros]:
  assumes "same_size m" and "\<And>x. same_size (f x)"
  shows "same_size (bind_rs m f)"
  unfolding same_size_def
proof
  fix b show "length (snd (bind_rs m f b)) = length b"
    using assms by (intro bind_rs_keeps [of "\<lambda>s. length s = length b"]) (simp_all add: same_size_def)
qed

lemma same_size_then [same_size_intros]: "same_size m \<Longrightarrow> same_size k \<Longrightarrow> same_size (then_rs m k)"
  unfolding then_rs_def by (rule same_size_bind)

lemma same_size_slice [same_size_intros]:
  assumes "same_size m"
  shows "same_size (on_slice a b m)"
proof -
  have "length (snd (m sl)) = length sl" for sl using assms by (simp add: same_size_def)
  then show ?thesis
    by (auto simp: same_size_def on_slice_def get_range_def case_prod_beta split: option.split)
qed

lemma same_size_puts [same_size_intros]:
  "same_size (put_u8 i v)" "same_size (put_u16 i w)" "same_size (put_u32 i d)" "same_size (put4 i q)"
  by (auto simp: put_u8_def put_u16_def put_u32_def intro: same_size_intros) (cases q; simp add: same_size_intros)

lemma same_size_blocks [same_size_intros]: "same_size (put_sack_blocks i k bs)"
  by (induction i k bs rule: put_sack_blocks.induct) (simp_all add: same_size_intros)

lemma same_size_nops [same_size_intros]: "same_size (put_nops i k)"
  by (induction i k rule: put_nops.induct) (simp_all add: same_size_intros)

lemma same_size_options [same_size_intros]: "same_size (options_write opt)"
  unfolding options_write_def write_mss_def write_wscale_def write_sack_permitted_def write_ts_def
    write_sack_def write_padding_def Let_def
  by (auto intro!: same_size_intros split: option.split prod.split)

lemma same_size_headers [same_size_intros]:
  "same_size (emit_ip_header src dst n i e)" "same_size (emit_tcp_header sp dp seq ack fl w opt)"
  by (auto simp: emit_ip_header_def emit_tcp_header_def Let_def intro!: same_size_intros)

lemma same_size_emit_with:
  assumes "\<And>d. length (snd (fill d)) = length d"
  shows "same_size (emit_with src dst sp dp seq ack fl w opt n fill i e c)"
proof -
  have "same_size (run_fill fill)"
    using assms by (simp add: same_size_def run_fill_def case_prod_beta)
  then show ?thesis
    unfolding same_size_def [of "emit_with src dst sp dp seq ack fl w opt n fill i e c"] emit_with_def Let_def
    by (intro allI same_size_guard same_sizeD same_size_intros refl)
qed
end
