(* ===== verification/Ooo.thy ===== *)
theory Ooo
  imports Wire
begin

unbundle bit_operations_syntax

text \<open>
  The out-of-order range list of \<^verbatim>\<open>ooo.rs\<close>: which sequence ranges beyond
  \<^verbatim>\<open>RCV.NXT\<close> are parked in the receive ring. The storage has a fixed number of slots
  (the length of the list), of which the first \<open>len\<close> are in use. The invariant is
  \<^verbatim>\<open>debug_valid\<close>: sorted, disjoint, non-adjacent and above \<^verbatim>\<open>RCV.NXT\<close>. The
  abstraction \<open>ooo_held\<close> is the set of byte offsets held, and every operation is
  characterised on that set. \<^verbatim>\<open>partition_point\<close> of the standard library is the length
  of the longest prefix satisfying the predicate, which is what its documentation promises on a
  partitioned slice; the slices it is called on are partitioned because the list is sorted.
\<close>

section \<open>Model\<close>

record range =
  rg_start :: u32
  rg_end :: u32
  rg_tag :: u32

datatype ooo_insert_result = Stored bool | Full

record ooo_list =
  oo_ranges :: "range list"
  oo_len :: usize
  oo_next_tag :: u32

definition ooo_max_ranges :: "usize \<Rightarrow> usize" where
  "ooo_max_ranges buf_cap =
     (let n = buf_cap div 2048 in if n < 32 then 32 else if 512 < n then 512 else n)"

definition off :: "u32 \<Rightarrow> u32 \<Rightarrow> u32" where
  "off seq base = seq - base"

definition ooo_new :: "usize \<Rightarrow> ooo_list" where
  "ooo_new mx = \<lparr>oo_ranges = replicate mx \<lparr>rg_start = 0, rg_end = 0, rg_tag = 0\<rparr>,
                 oo_len = 0, oo_next_tag = 1\<rparr>"

definition ooo_clear :: "ooo_list \<Rightarrow> ooo_list" where
  "ooo_clear oo = oo\<lparr>oo_len := 0, oo_next_tag := 1\<rparr>"

definition ooo_is_empty :: "ooo_list \<Rightarrow> bool" where
  "ooo_is_empty oo = (oo_len oo = 0)"

definition ooo_slice :: "ooo_list \<Rightarrow> range list" where
  "ooo_slice oo = (case get_range (oo_ranges oo) 0 (oo_len oo) of None \<Rightarrow> [] | Some xs \<Rightarrow> xs)"

definition ooo_first_start :: "ooo_list \<Rightarrow> u32 option" where
  "ooo_first_start oo = (case ooo_slice oo of [] \<Rightarrow> None | r # _ \<Rightarrow> Some (rg_start r))"

definition ooo_last_end :: "ooo_list \<Rightarrow> u32 option" where
  "ooo_last_end oo = (if ooo_slice oo = [] then None else Some (rg_end (last (ooo_slice oo))))"

definition ooo_held_bytes :: "ooo_list \<Rightarrow> u32" where
  "ooo_held_bytes oo = foldl (\<lambda>a r. sat_add a (rg_end r - rg_start r)) 0 (ooo_slice oo)"

definition partition_point :: "('a \<Rightarrow> bool) \<Rightarrow> 'a list \<Rightarrow> nat" where
  "partition_point P xs = length (takeWhile P xs)"

text \<open>\<open>on_subslice a b f\<close> replaces \<open>xs[a..b]\<close> by its image, when in range.\<close>

definition on_subslice :: "nat \<Rightarrow> nat \<Rightarrow> ('a list \<Rightarrow> 'a list) \<Rightarrow> 'a list \<Rightarrow> 'a list" where
  "on_subslice a b f xs =
     (case get_range xs a b of None \<Rightarrow> xs | Some ys \<Rightarrow> take a xs @ f ys @ drop b xs)"

definition rotate_right :: "nat \<Rightarrow> 'a list \<Rightarrow> 'a list" where
  "rotate_right k xs = rotate (length xs - k) xs"

definition ooo_insert :: "u32 \<Rightarrow> u32 \<Rightarrow> u32 \<Rightarrow> ooo_list \<Rightarrow> ooo_insert_result \<times> ooo_list" where
  "ooo_insert start end rcv_nxt oo =
     (let s = off start rcv_nxt; e = off end rcv_nxt in
      if s = 0 \<or> e \<le> s then (Stored True, oo) else
      let lo = partition_point (\<lambda>r. off (rg_end r) rcv_nxt < s) (ooo_slice oo);
          hi = lo + (case get_range (ooo_slice oo) lo (length (ooo_slice oo)) of
                       None \<Rightarrow> 0
                     | Some t \<Rightarrow> partition_point (\<lambda>r. off (rg_start r) rcv_nxt \<le> e) t);
          tag = oo_next_tag oo;
          oo = oo\<lparr>oo_next_tag := oo_next_tag oo + 1\<rparr>
      in if hi = lo then
           (if oo_len oo = length (oo_ranges oo) then (Full, oo)
            else (Stored False,
                  oo\<lparr>oo_ranges := on_subslice lo (oo_len oo + 1)
                       (\<lambda>t. (rotate_right 1 t)[0 := \<lparr>rg_start = start, rg_end = end, rg_tag = tag\<rparr>])
                       (oo_ranges oo),
                     oo_len := oo_len oo + 1\<rparr>))
         else
           (case (get_at (oo_ranges oo) lo, get_at (oo_ranges oo) (hi - 1)) of
              (Some first, Some lst) \<Rightarrow>
                let dup = (hi - lo = 1 \<and> off (rg_start first) rcv_nxt \<le> s \<and> e \<le> off (rg_end first) rcv_nxt);
                    m_start = (if off (rg_start first) rcv_nxt < s then rg_start first else start);
                    m_end = (if off (rg_end lst) rcv_nxt > e then rg_end lst else end);
                    ranges = (oo_ranges oo)[lo := \<lparr>rg_start = m_start, rg_end = m_end, rg_tag = tag\<rparr>];
                    removed = hi - lo - 1
                in if 0 < removed
                   then (Stored dup,
                         oo\<lparr>oo_ranges := on_subslice (lo + 1) (oo_len oo) (rotate removed) ranges,
                            oo_len := oo_len oo - removed\<rparr>)
                   else (Stored dup, oo\<lparr>oo_ranges := ranges\<rparr>)
            | _ \<Rightarrow> (Full, oo)))"

definition ooo_truncate_from :: "u32 \<Rightarrow> u32 \<Rightarrow> ooo_list \<Rightarrow> ooo_list" where
  "ooo_truncate_from limit rcv_nxt oo =
     (let lim = off limit rcv_nxt;
          k = partition_point (\<lambda>r. off (rg_end r) rcv_nxt \<le> lim) (ooo_slice oo);
          (ranges, keep) =
            (if k < oo_len oo
             then (case get_at (oo_ranges oo) k of
                     None \<Rightarrow> (oo_ranges oo, k)
                   | Some r \<Rightarrow>
                       if off (rg_start r) rcv_nxt < lim
                       then ((oo_ranges oo)[k := r\<lparr>rg_end := limit\<rparr>], k + 1)
                       else (oo_ranges oo, k))
             else (oo_ranges oo, k))
      in oo\<lparr>oo_ranges := ranges, oo_len := min (oo_len oo) keep\<rparr>)"

fun advance_scan :: "u32 \<Rightarrow> nat \<Rightarrow> range list \<Rightarrow> u32 \<times> nat" where
  "advance_scan nxt dropped [] = (nxt, dropped)"
| "advance_scan nxt dropped (r # rs) =
     (if sint (rg_start r - nxt) \<le> 0
      then advance_scan (if sint (rg_end r - nxt) > 0 then rg_end r else nxt) (dropped + 1) rs
      else (nxt, dropped))"

definition ooo_advance :: "u32 \<Rightarrow> ooo_list \<Rightarrow> u32 \<times> ooo_list" where
  "ooo_advance rcv_nxt oo =
     (let (nxt, dropped) = advance_scan rcv_nxt 0 (ooo_slice oo)
      in if 0 < dropped
         then (nxt, oo\<lparr>oo_ranges := on_subslice 0 (oo_len oo) (rotate dropped) (oo_ranges oo),
                      oo_len := oo_len oo - dropped\<rparr>)
         else (nxt, oo))"

text \<open>
  The single pass that keeps the \<open>k\<close> youngest ranges: a candidate bubbles through the
  \<open>k\<close> slots, swapped into any slot that is empty or holds an older range.
\<close>

fun bubble :: "(range \<Rightarrow> u32) \<Rightarrow> nat \<Rightarrow> range \<Rightarrow> range option list \<Rightarrow> range option list" where
  "bubble age 0 cand slots = slots"
| "bubble age (Suc k) cand [] = []"
| "bubble age (Suc k) cand (None # rest) = Some cand # rest"
| "bubble age (Suc k) cand (Some held # rest) =
     (if age cand < age held then Some cand # bubble age k held rest
      else Some held # bubble age k cand rest)"

definition ooo_fill_sack_blocks :: "usize \<Rightarrow> ooo_list \<Rightarrow> sack_blocks \<Rightarrow> sack_blocks" where
  "ooo_fill_sack_blocks mx oo sack =
     (let k = min mx 4;
          age = (\<lambda>r. oo_next_tag oo - rg_tag r);
          kept = fold (bubble age k) (ooo_slice oo) (replicate 4 None)
      in fold (\<lambda>r. sack_push (rg_start r) (rg_end r)) (List.map_filter id (take k kept)) sack)"

definition ooo_containing :: "u32 \<Rightarrow> ooo_list \<Rightarrow> (u32 \<times> u32) option" where
  "ooo_containing seq oo =
     map_option (\<lambda>r. (rg_start r, rg_end r))
       (find (\<lambda>r. sint (seq - rg_start r) \<ge> 0 \<and> sint (rg_end r - seq) > 0) (ooo_slice oo))"

fun ranges_valid :: "u32 \<Rightarrow> u32 option \<Rightarrow> range list \<Rightarrow> bool" where
  "ranges_valid rcv_nxt prev_end [] = True"
| "ranges_valid rcv_nxt prev_end (r # rs) =
     (let s = off (rg_start r) rcv_nxt; e = off (rg_end r) rcv_nxt
      in if s = 0 \<or> e \<le> s \<or> 0x7FFFFFFF < e then False
         else if (case prev_end of None \<Rightarrow> False | Some p \<Rightarrow> s \<le> p) then False
         else ranges_valid rcv_nxt (Some e) rs)"

definition ooo_debug_valid :: "u32 \<Rightarrow> ooo_list \<Rightarrow> bool" where
  "ooo_debug_valid rcv_nxt oo = ranges_valid rcv_nxt None (ooo_slice oo)"

section \<open>Sorted lists of ranges\<close>

fun gaps_ok :: "u32 \<Rightarrow> u32 \<Rightarrow> range list \<Rightarrow> bool" where
  "gaps_ok rn p [] = True"
| "gaps_ok rn p (r # rs) \<longleftrightarrow>
     p < off (rg_start r) rn \<and> off (rg_start r) rn < off (rg_end r) rn \<and>
     off (rg_end r) rn \<le> 0x7FFFFFFF \<and> gaps_ok rn (off (rg_end r) rn) rs"

definition last_off :: "u32 \<Rightarrow> u32 \<Rightarrow> range list \<Rightarrow> u32" where
  "last_off rn p rs = (if rs = [] then p else off (rg_end (last rs)) rn)"

definition in_range_off :: "u32 \<Rightarrow> range \<Rightarrow> u32 \<Rightarrow> bool" where
  "in_range_off rn r x \<longleftrightarrow> off (rg_start r) rn \<le> x \<and> x < off (rg_end r) rn"

definition ooo_held :: "u32 \<Rightarrow> ooo_list \<Rightarrow> u32 set" where
  "ooo_held rn oo = {x. \<exists>r \<in> set (ooo_slice oo). in_range_off rn r x}"

definition ooo_inv :: "u32 \<Rightarrow> ooo_list \<Rightarrow> bool" where
  "ooo_inv rn oo \<longleftrightarrow> oo_len oo \<le> length (oo_ranges oo) \<and> ooo_debug_valid rn oo"

lemma ooo_slice_take: "oo_len oo \<le> length (oo_ranges oo) \<Longrightarrow> ooo_slice oo = take (oo_len oo) (oo_ranges oo)"
  by (simp add: ooo_slice_def get_range_def)

lemma length_ooo_slice: "oo_len oo \<le> length (oo_ranges oo) \<Longrightarrow> length (ooo_slice oo) = oo_len oo"
  by (simp add: ooo_slice_take)

lemma ranges_valid_gaps:
  "ranges_valid rn prev rs \<longleftrightarrow> gaps_ok rn (case prev of None \<Rightarrow> 0 | Some p \<Rightarrow> p) rs"
proof (induction rs arbitrary: prev)
  case (Cons r rs)
  have z: "(0 < off (rg_start r) rn) = (off (rg_start r) rn \<noteq> 0)" by (simp add: word_neq_0_conv)
  have n: "p < off (rg_start r) rn \<Longrightarrow> off (rg_start r) rn \<noteq> 0" for p by auto
  show ?case
    using z n Cons.IH [of "Some (off (rg_end r) rn)"]
    by (cases prev) (auto simp: Let_def not_less not_le)
qed simp

lemma ooo_inv_gaps:
  "ooo_inv rn oo \<longleftrightarrow> oo_len oo \<le> length (oo_ranges oo) \<and> gaps_ok rn 0 (ooo_slice oo)"
  by (simp add: ooo_inv_def ooo_debug_valid_def ranges_valid_gaps)

lemma last_off_simps [simp]:
  "last_off rn p [] = p" "last_off rn p (r # rs) = last_off rn (off (rg_end r) rn) rs"
  by (simp_all add: last_off_def)

lemma gaps_ok_append:
  "gaps_ok rn p (xs @ ys) \<longleftrightarrow> gaps_ok rn p xs \<and> gaps_ok rn (last_off rn p xs) ys"
  by (induction xs arbitrary: p) auto

lemma last_off_append [simp]: "last_off rn p (xs @ ys) = last_off rn (last_off rn p xs) ys"
  by (induction xs arbitrary: p) auto

lemma gaps_ok_last: "gaps_ok rn p xs \<Longrightarrow> p \<le> last_off rn p xs"
  by (induction xs arbitrary: p) (auto, fastforce)

lemma gaps_ok_member:
  "gaps_ok rn p xs \<Longrightarrow> r \<in> set xs \<Longrightarrow>
   p < off (rg_start r) rn \<and> off (rg_start r) rn < off (rg_end r) rn \<and>
   off (rg_end r) rn \<le> last_off rn p xs \<and> off (rg_end r) rn \<le> 0x7FFFFFFF"
proof (induction xs arbitrary: p)
  case (Cons a xs)
  show ?case
  proof (cases "r = a")
    case True
    then show ?thesis using Cons.prems gaps_ok_last by auto
  next
    case False
    then have "off (rg_end a) rn < off (rg_start r) rn \<and> off (rg_start r) rn < off (rg_end r) rn \<and>
        off (rg_end r) rn \<le> last_off rn p (a # xs) \<and> off (rg_end r) rn \<le> 0x7FFFFFFF"
      using Cons by auto
    then show ?thesis using Cons.prems by fastforce
  qed
qed simp

lemma gaps_ok_weaken: "gaps_ok rn p xs \<Longrightarrow> q \<le> p \<Longrightarrow> gaps_ok rn q xs"
  by (cases xs) auto

lemma gaps_ok_below: "gaps_ok rn p xs \<Longrightarrow> (xs = [] \<or> q < off (rg_start (hd xs)) rn) \<Longrightarrow> gaps_ok rn q xs"
  by (cases xs) auto

lemma in_range_last: "gaps_ok rn p xs \<Longrightarrow> r \<in> set xs \<Longrightarrow> in_range_off rn r x \<Longrightarrow> p < x \<and> x < last_off rn p xs"
  using gaps_ok_member [of rn p xs r] by (auto simp: in_range_off_def)

section \<open>Insertion\<close>

text \<open>
  \<open>below\<close>, \<open>touched\<close> and \<open>above\<close> split the list into the ranges that end
  before the new one, those it overlaps or abuts, and those that start after it.
\<close>

definition below :: "u32 \<Rightarrow> u32 \<Rightarrow> range list \<Rightarrow> range list" where
  "below rn s rs = takeWhile (\<lambda>r. off (rg_end r) rn < s) rs"

definition touched :: "u32 \<Rightarrow> u32 \<Rightarrow> u32 \<Rightarrow> range list \<Rightarrow> range list" where
  "touched rn s e rs =
     takeWhile (\<lambda>r. off (rg_start r) rn \<le> e) (dropWhile (\<lambda>r. off (rg_end r) rn < s) rs)"

definition above :: "u32 \<Rightarrow> u32 \<Rightarrow> u32 \<Rightarrow> range list \<Rightarrow> range list" where
  "above rn s e rs =
     dropWhile (\<lambda>r. off (rg_start r) rn \<le> e) (dropWhile (\<lambda>r. off (rg_end r) rn < s) rs)"

definition merged :: "u32 \<Rightarrow> u32 \<Rightarrow> u32 \<Rightarrow> u32 \<Rightarrow> range list \<Rightarrow> range" where
  "merged rn start end tag rs =
     (let s = off start rn; e = off end rn; t = touched rn s e rs
      in if t = [] then \<lparr>rg_start = start, rg_end = end, rg_tag = tag\<rparr>
         else \<lparr>rg_start = (if off (rg_start (hd t)) rn < s then rg_start (hd t) else start),
               rg_end = (if off (rg_end (last t)) rn > e then rg_end (last t) else end),
               rg_tag = tag\<rparr>)"

definition inserted :: "u32 \<Rightarrow> u32 \<Rightarrow> u32 \<Rightarrow> u32 \<Rightarrow> range list \<Rightarrow> range list" where
  "inserted rn start end tag rs =
     below rn (off start rn) rs @ [merged rn start end tag rs]
     @ above rn (off start rn) (off end rn) rs"

lemma split_below_touched_above: "rs = below rn s rs @ touched rn s e rs @ above rn s e rs"
  by (simp add: below_def touched_def above_def)

lemma rotate_right_last: "rotate_right 1 (xs @ [x]) = x # xs"
  by (simp add: rotate_right_def rotate_append)

lemma partition_below: "partition_point (\<lambda>r. off (rg_end r) rn < s) rs = length (below rn s rs)"
  by (simp add: partition_point_def below_def)

lemma get_range_full: "k \<le> length xs \<Longrightarrow> get_range xs k (length xs) = Some (drop k xs)"
  by (simp add: get_range_def)

lemma partition_touched:
  "(case get_range rs (length (below rn s rs)) (length rs) of
      None \<Rightarrow> 0 | Some t \<Rightarrow> partition_point (\<lambda>r. off (rg_start r) rn \<le> e) t)
   = length (touched rn s e rs)"
proof -
  have "length (below rn s rs) \<le> length rs" by (simp add: below_def length_takeWhile_le)
  moreover have "drop (length (below rn s rs)) rs = dropWhile (\<lambda>r. off (rg_end r) rn < s) rs"
    by (simp add: below_def dropWhile_eq_drop)
  ultimately show ?thesis by (simp add: get_range_full partition_point_def touched_def)
qed

lemma ooo_insert_new:
  assumes len: "oo_len oo < length (oo_ranges oo)"
    and ne: "off start rn \<noteq> 0" "off start rn < off end rn"
    and t: "touched rn (off start rn) (off end rn) (ooo_slice oo) = []"
  shows "\<exists>oo'. ooo_insert start end rn oo = (Stored False, oo') \<and>
     oo_len oo' = oo_len oo + 1 \<and> length (oo_ranges oo') = length (oo_ranges oo) \<and>
     oo_next_tag oo' = oo_next_tag oo + 1 \<and>
     ooo_slice oo' = inserted rn start end (oo_next_tag oo) (ooo_slice oo)"
proof -
  let ?s = "off start rn" and ?e = "off end rn" and ?rs = "ooo_slice oo" and ?R = "oo_ranges oo"
  let ?A = "below rn ?s ?rs" and ?C = "above rn ?s ?e ?rs" and ?L = "oo_len oo"
  let ?n = "\<lparr>rg_start = start, rg_end = end, rg_tag = oo_next_tag oo\<rparr>"
  let ?oo' = "oo\<lparr>oo_next_tag := oo_next_tag oo + 1,
     oo_ranges := on_subslice (length ?A) (?L + 1) (\<lambda>t. (rotate_right 1 t)[0 := ?n]) ?R, oo_len := ?L + 1\<rparr>"
  have sl: "?rs = take ?L ?R" using len by (intro ooo_slice_take) simp
  have AC: "?rs = ?A @ ?C" using split_below_touched_above [of ?rs rn ?s ?e] t by simp
  have lAC: "length ?A + length ?C = ?L" using arg_cong [OF AC, of length] len sl by simp
  have "?R = ?rs @ [?R ! ?L] @ drop (Suc ?L) ?R"
    using id_take_nth_drop [OF len] unfolding sl by simp
  then have R: "?R = ?A @ ?C @ [?R ! ?L] @ drop (Suc ?L) ?R" by (metis AC append.assoc)
  have "on_subslice (length ?A) (?L + 1) (\<lambda>t. (rotate_right 1 t)[0 := ?n]) ?R
      = ?A @ (rotate_right 1 (?C @ [?R ! ?L]))[0 := ?n] @ drop (Suc ?L) ?R"
  proof -
    have "get_range ?R (length ?A) (?L + 1) = Some (?C @ [?R ! ?L])"
      using len lAC R get_range_shift [of ?A "?C @ [?R ! ?L] @ drop (Suc ?L) ?R" 0 "Suc (length ?C)"]
      by (simp add: get_range_def)
    moreover have "take (length ?A) ?R = ?A" using R by (metis append_eq_conv_conj)
    ultimately show ?thesis by (simp add: on_subslice_def)
  qed
  then have R': "oo_ranges ?oo' = ?A @ [?n] @ ?C @ drop (Suc ?L) ?R"
    by (simp add: rotate_right_last [simplified])
  have len': "length (oo_ranges ?oo') = length ?R" using R' lAC len by simp
  then have "ooo_slice ?oo' = take (oo_len ?oo') (oo_ranges ?oo')"
    using len by (intro ooo_slice_take) simp
  also have "\<dots> = take (length (?A @ [?n] @ ?C)) ((?A @ [?n] @ ?C) @ drop (Suc ?L) ?R)"
    unfolding R' using lAC by simp
  finally have "ooo_slice ?oo' = ?A @ [?n] @ ?C" by simp
  moreover have "ooo_insert start end rn oo = (Stored False, ?oo')"
    using ne t len
    by (simp add: ooo_insert_def Let_def partition_below partition_touched not_le ooo_slice_def)
  ultimately show ?thesis using len' t by (intro exI [of _ ?oo']) (simp add: inserted_def merged_def Let_def)
qed

lemma below_ends: "x \<in> set (below rn s rs) \<Longrightarrow> off (rg_end x) rn < s"
  unfolding below_def by (auto dest: set_takeWhileD)

lemma last_below: "gaps_ok rn 0 (below rn s rs) \<Longrightarrow> 0 < s \<Longrightarrow> last_off rn 0 (below rn s rs) < s"
  using below_ends [of "last (below rn s rs)" rn s rs] by (auto simp: last_off_def)

lemma touched_hd: "touched rn s e rs \<noteq> [] \<Longrightarrow> s \<le> off (rg_end (hd (touched rn s e rs))) rn"
proof -
  let ?d = "dropWhile (\<lambda>r. off (rg_end r) rn < s) rs"
  assume t: "touched rn s e rs \<noteq> []"
  then have "?d \<noteq> []" "hd (touched rn s e rs) = hd ?d"
    by (cases ?d; auto simp: touched_def split: if_splits)+
  then show ?thesis using hd_dropWhile [of "\<lambda>r. off (rg_end r) rn < s" rs] by simp
qed

lemma touched_starts: "x \<in> set (touched rn s e rs) \<Longrightarrow> off (rg_start x) rn \<le> e"
  unfolding touched_def by (auto dest: set_takeWhileD)

lemma above_hd: "above rn s e rs \<noteq> [] \<Longrightarrow> e < off (rg_start (hd (above rn s e rs))) rn"
  using hd_dropWhile [of "\<lambda>r. off (rg_start r) rn \<le> e" "dropWhile (\<lambda>r. off (rg_end r) rn < s) rs"]
  by (simp add: above_def)

lemma touched_ends:
  assumes "gaps_ok rn 0 rs" and "x \<in> set (touched rn s e rs)"
  shows "s \<le> off (rg_end x) rn"
proof -
  let ?T = "touched rn s e rs"
  have ne: "?T \<noteq> []" using assms(2) by auto
  have "gaps_ok rn (last_off rn 0 (below rn s rs)) ?T"
    using assms(1) split_below_touched_above [of rs rn s e] gaps_ok_append by metis
  then obtain p where g: "gaps_ok rn p ?T" by blast
  have "off (rg_end (hd ?T)) rn \<le> off (rg_end x) rn"
  proof (cases ?T)
    case (Cons a as)
    then have "gaps_ok rn (off (rg_end a) rn) as" using g by simp
    then show ?thesis using Cons assms(2) gaps_ok_member [of rn "off (rg_end a) rn" as x] by auto
  qed (use ne in simp)
  then show ?thesis using touched_hd [OF ne] by simp
qed

text \<open>The merged range, as offsets.\<close>

lemma merged_offs:
  "off (rg_start (merged rn start end tag rs)) rn =
     (let T = touched rn (off start rn) (off end rn) rs
      in if T = [] then off start rn else min (off (rg_start (hd T)) rn) (off start rn))"
  "off (rg_end (merged rn start end tag rs)) rn =
     (let T = touched rn (off start rn) (off end rn) rs
      in if T = [] then off end rn else max (off (rg_end (last T)) rn) (off end rn))"
  by (auto simp: merged_def Let_def min_def max_def)

lemma inserted_gaps:
  assumes g: "gaps_ok rn 0 rs" and s: "0 < off start rn" "off start rn < off end rn" "off end rn \<le> 0x7FFFFFFF"
  shows "gaps_ok rn 0 (inserted rn start end tag rs)"
proof -
  let ?s = "off start rn" and ?e = "off end rn"
  let ?A = "below rn ?s rs" and ?T = "touched rn ?s ?e rs" and ?C = "above rn ?s ?e rs"
  let ?m = "merged rn start end tag rs"
  have parts: "gaps_ok rn 0 ?A" "gaps_ok rn (last_off rn 0 ?A) ?T" "gaps_ok rn (last_off rn (last_off rn 0 ?A) ?T) ?C"
    using g unfolding gaps_ok_append [symmetric] last_off_append [symmetric] append_assoc [symmetric]
    by (metis append_assoc gaps_ok_append last_off_append split_below_touched_above)+
  have A: "last_off rn 0 ?A < ?s" by (rule last_below [OF parts(1) s(1)])
  note m = merged_offs [of rn start "end" tag rs, unfolded Let_def]
  have T: "?T \<noteq> [] \<Longrightarrow> last_off rn 0 ?A < off (rg_start (hd ?T)) rn"
      "?T \<noteq> [] \<Longrightarrow> off (rg_end (last ?T)) rn \<le> 0x7FFFFFFF"
    using gaps_ok_member [OF parts(2)] by (auto simp: neq_Nil_conv)
  have C: "gaps_ok rn (off (rg_end ?m) rn) ?C"
  proof (rule gaps_ok_below [OF parts(3)])
    have "?C \<noteq> [] \<Longrightarrow> last_off rn (last_off rn 0 ?A) ?T < off (rg_start (hd ?C)) rn"
      using parts(3) by (cases ?C) auto
    then show "?C = [] \<or> off (rg_end ?m) rn < off (rg_start (hd ?C)) rn"
      using above_hd [of rn ?s ?e rs] m(2) by (auto simp: last_off_def split: if_splits)
  qed
  have "last_off rn 0 ?A < off (rg_start ?m) rn" "off (rg_start ?m) rn < off (rg_end ?m) rn"
      "off (rg_end ?m) rn \<le> 0x7FFFFFFF"
    using A T s m by (auto simp: min_def max_def)
  with C parts(1) show ?thesis by (simp add: inserted_def gaps_ok_append)
qed

lemma touched_within:
  assumes g: "gaps_ok rn 0 rs" and x: "x \<in> set (touched rn s e rs)"
  defines "T \<equiv> touched rn s e rs"
  shows "off (rg_start (hd T)) rn \<le> off (rg_start x) rn" and "off (rg_end x) rn \<le> off (rg_end (last T)) rn"
proof -
  have gT: "gaps_ok rn (last_off rn 0 (below rn s rs)) T"
    using g split_below_touched_above [of rs rn s e] gaps_ok_append unfolding T_def by metis
  have ne: "T \<noteq> []" using x by (auto simp: T_def)
  show "off (rg_start (hd T)) rn \<le> off (rg_start x) rn"
  proof (cases T)
    case (Cons a as)
    then have "gaps_ok rn (off (rg_end a) rn) as" "off (rg_start a) rn < off (rg_end a) rn" using gT by simp_all
    then show ?thesis using Cons x gaps_ok_member [of rn "off (rg_end a) rn" as x] by (auto simp: T_def)
  qed (use ne in simp)
  show "off (rg_end x) rn \<le> off (rg_end (last T)) rn"
    using gaps_ok_member [OF gT, of x] x ne by (simp add: T_def last_off_def)
qed

lemma inserted_held:
  assumes g: "gaps_ok rn 0 rs" and s: "off start rn < off end rn"
  shows "(\<exists>r \<in> set (inserted rn start end tag rs). in_range_off rn r x) \<longleftrightarrow>
     (\<exists>r \<in> set rs. in_range_off rn r x) \<or> off start rn \<le> x \<and> x < off end rn"
proof -
  let ?s = "off start rn" and ?e = "off end rn"
  let ?A = "below rn ?s rs" and ?T = "touched rn ?s ?e rs" and ?C = "above rn ?s ?e rs"
  let ?m = "merged rn start end tag rs"
  note m = merged_offs [of rn start "end" tag rs, unfolded Let_def]
  have rs: "set rs = set ?A \<union> set ?T \<union> set ?C"
    using split_below_touched_above [of rs rn ?s ?e] by (metis set_append sup_assoc)
  have "in_range_off rn ?m x \<longleftrightarrow> (\<exists>r \<in> set ?T. in_range_off rn r x) \<or> ?s \<le> x \<and> x < ?e"
  proof (cases "?T = []")
    case False
    have h: "hd ?T \<in> set ?T" "last ?T \<in> set ?T" using False by simp_all
    have "in_range_off rn ?m x" if "r \<in> set ?T" "in_range_off rn r x" for r
      using touched_within [OF g that(1)] that(2) m False by (auto simp: in_range_off_def min_def max_def)
    moreover have "in_range_off rn (hd ?T) x \<or> in_range_off rn (last ?T) x \<or> ?s \<le> x \<and> x < ?e"
      if "in_range_off rn ?m x"
      using that touched_hd [OF False] touched_starts [OF h(2)] m False
      by (auto simp: in_range_off_def min_def max_def split: if_splits)
    moreover have "in_range_off rn ?m x" if "?s \<le> x \<and> x < ?e"
      using that m False by (auto simp: in_range_off_def min_def max_def)
    ultimately show ?thesis using h by blast
  qed (use m in \<open>simp add: in_range_off_def\<close>)
  then show ?thesis unfolding rs by (auto simp: inserted_def)
qed

lemma ooo_insert_merge:
  assumes len: "oo_len oo \<le> length (oo_ranges oo)"
    and ne: "off start rn \<noteq> 0" "off start rn < off end rn"
    and t: "touched rn (off start rn) (off end rn) (ooo_slice oo) \<noteq> []"
  shows "\<exists>oo' dup. ooo_insert start end rn oo = (Stored dup, oo') \<and>
     oo_len oo' \<le> length (oo_ranges oo') \<and> length (oo_ranges oo') = length (oo_ranges oo) \<and>
     ooo_slice oo' = inserted rn start end (oo_next_tag oo) (ooo_slice oo)"
proof -
  let ?s = "off start rn" and ?e = "off end rn" and ?rs = "ooo_slice oo" and ?R = "oo_ranges oo"
  let ?A = "below rn ?s ?rs" and ?T = "touched rn ?s ?e ?rs" and ?C = "above rn ?s ?e ?rs" and ?L = "oo_len oo"
  let ?m = "merged rn start end (oo_next_tag oo) ?rs" and ?X = "drop ?L ?R"
  have sl: "?rs = take ?L ?R" using len by (rule ooo_slice_take)
  have R: "?R = ?A @ ?T @ ?C @ ?X"
    using split_below_touched_above [of ?rs rn ?s ?e] sl by (metis append.assoc append_take_drop_id)
  have L: "?L = length ?A + length ?T + length ?C"
    using split_below_touched_above [of ?rs rn ?s ?e] length_ooo_slice [OF len] by (metis add.assoc length_append)
  obtain a as where T: "?T = a # as" using t by (cases ?T) auto
  let ?k = "length as"
  have R': "?R[length ?A := ?m] = ?A @ (?m # as) @ ?C @ ?X"
    by (subst R) (simp add: T list_update_append)
  have first: "get_at ?R (length ?A) = Some (hd ?T)"
    by (subst R) (simp add: T get_at_def nth_append)
  have lst: "get_at ?R (length ?A + length ?T - 1) = Some (last ?T)"
  proof -
    have "?R ! (length ?A + length as) = ?T ! length as" by (subst R) (simp add: T nth_append flip: append_Cons)
    moreover have "length ?A + length as < length ?R" by (subst R) (simp add: T)
    ultimately show ?thesis by (simp add: get_at_def T last_conv_nth)
  qed
  have sub: "on_subslice (length ?A + 1) ?L (rotate ?k) (?R[length ?A := ?m])
      = (?A @ [?m]) @ ?C @ as @ ?X"
  proof -
    have "get_range (?R[length ?A := ?m]) (length ?A + 1) ?L = Some (as @ ?C)"
      unfolding R' using L by (simp add: get_range_def T)
    moreover have "take (length ?A + 1) (?R[length ?A := ?m]) = ?A @ [?m]" unfolding R' by simp
    moreover have "drop ?L (?R[length ?A := ?m]) = ?X" using L by (simp add: R' T)
    ultimately show ?thesis by (simp add: on_subslice_def rotate_append)
  qed
  let ?n = "\<lparr>rg_start = (if off (rg_start (hd ?T)) rn < ?s then rg_start (hd ?T) else start),
      rg_end = (if off (rg_end (last ?T)) rn > ?e then rg_end (last ?T) else end), rg_tag = oo_next_tag oo\<rparr>"
  have n: "?n = ?m" using t by (simp add: merged_def Let_def)
  define ranges where "ranges = (if 0 < ?k then on_subslice (length ?A + 1) ?L (rotate ?k) (?R[length ?A := ?m])
      else ?R[length ?A := ?m])"
  let ?oo' = "oo\<lparr>oo_next_tag := oo_next_tag oo + 1, oo_ranges := ranges, oo_len := ?L - ?k\<rparr>"
  have ranges: "ranges = (?A @ [?m] @ ?C) @ as @ ?X" using sub R' by (simp add: ranges_def)
  have len': "?L - ?k = length (?A @ [?m] @ ?C)" using L T by simp
  have "length ranges = length ?R"
    using arg_cong [OF R, of length] by (simp add: ranges T)
  moreover have "ooo_slice ?oo' = ?A @ [?m] @ ?C"
    using len' by (simp add: ooo_slice_def get_range_def ranges)
  moreover have "\<exists>dup. ooo_insert start end rn oo = (Stored dup, ?oo')"
  proof -
    have k: "length ?T - Suc 0 = ?k" "\<not> ?e \<le> ?s" using T ne by simp_all
    show ?thesis
      using ne(1) t k lst unfolding ooo_insert_def Let_def partition_below partition_touched ranges_def
      by (simp add: first n [simplified])
  qed
  ultimately show ?thesis using len' by (auto simp: inserted_def ranges)
qed

lemma ooo_insert_full:
  assumes len: "oo_len oo = length (oo_ranges oo)"
    and ne: "off start rn \<noteq> 0" "off start rn < off end rn"
    and t: "touched rn (off start rn) (off end rn) (ooo_slice oo) = []"
  shows "ooo_insert start end rn oo = (Full, oo\<lparr>oo_next_tag := oo_next_tag oo + 1\<rparr>)"
  using assms by (simp add: ooo_insert_def Let_def partition_below partition_touched not_le)

text \<open>Insertion on the held offsets: their union with the new range, or nothing when the list is full.\<close>

lemma ooo_insert_spec:
  assumes inv: "ooo_inv rn oo" and s: "0 < off start rn" "off start rn < off end rn" "off end rn \<le> 0x7FFFFFFF"
    and i: "ooo_insert start end rn oo = (res, oo')"
  shows "ooo_inv rn oo'"
    and "ooo_held rn oo' = (if res = Full then ooo_held rn oo
           else ooo_held rn oo \<union> {x. off start rn \<le> x \<and> x < off end rn})"
proof -
  let ?T = "touched rn (off start rn) (off end rn) (ooo_slice oo)"
  have g: "gaps_ok rn 0 (ooo_slice oo)" and len: "oo_len oo \<le> length (oo_ranges oo)"
    using inv by (simp_all add: ooo_inv_gaps)
  have s0: "off start rn \<noteq> 0" using s(1) by auto
  consider (full) "?T = []" "oo_len oo = length (oo_ranges oo)"
    | (put) "res \<noteq> Full" "oo_len oo' \<le> length (oo_ranges oo')"
        "ooo_slice oo' = inserted rn start end (oo_next_tag oo) (ooo_slice oo)"
  proof (cases "?T = []")
    case True
    then show ?thesis
      using that len ooo_insert_new [of oo start rn "end"] s0 s(2) i by (cases "oo_len oo < length (oo_ranges oo)") fastforce+
  next
    case False
    then show ?thesis using that(2) ooo_insert_merge [OF len s0 s(2) False] i by auto
  qed
  then have "ooo_inv rn oo' \<and> ooo_held rn oo' = (if res = Full then ooo_held rn oo
           else ooo_held rn oo \<union> {x. off start rn \<le> x \<and> x < off end rn})"
  proof cases
    case full
    then have "res = Full" "oo' = oo\<lparr>oo_next_tag := oo_next_tag oo + 1\<rparr>"
      using ooo_insert_full [OF full(2) s0 s(2) full(1)] i by simp_all
    then show ?thesis using inv by (simp add: ooo_inv_gaps ooo_held_def ooo_slice_def)
  next
    case put
    have "gaps_ok rn 0 (ooo_slice oo')" unfolding put(3) by (rule inserted_gaps [OF g s])
    moreover have "ooo_held rn oo' = ooo_held rn oo \<union> {x. off start rn \<le> x \<and> x < off end rn}"
      using inserted_held [OF g s(2)] put(3) by (auto simp: ooo_held_def)
    ultimately show ?thesis using put by (simp add: ooo_inv_gaps)
  qed
  then show "ooo_inv rn oo'" "ooo_held rn oo' = (if res = Full then ooo_held rn oo
           else ooo_held rn oo \<union> {x. off start rn \<le> x \<and> x < off end rn})" by simp_all
qed

section \<open>Advancing\<close>

lemma unat_off_diff:
  "unat (off a rn - off b rn) = (if off b rn \<le> off a rn then unat (off a rn) - unat (off b rn)
     else 2 ^ 32 + unat (off a rn) - unat (off b rn))"
  by (simp add: unat_sub_if_size word_le_nat_alt word_size) arith

lemma sint_diff_le:
  assumes "off a rn \<le> 0x7FFFFFFF" and "off b rn \<le> 0x7FFFFFFF"
  shows "sint (a - b) \<le> 0 \<longleftrightarrow> off a rn \<le> off b rn"
proof -
  have "a - b = off a rn - off b rn" by (simp add: off_def)
  moreover have "unat (off a rn) < 2 ^ 31" "unat (off b rn) < 2 ^ 31"
    using assms by (simp_all add: word_le_nat_alt)
  ultimately show ?thesis by (auto simp: sint32 unat_off_diff word_le_nat_alt)
qed

lemma advance_scan_spec:
  assumes "gaps_ok rn p rs" and "off nxt rn \<le> 0x7FFFFFFF" and "advance_scan nxt d rs = (nw, d')"
  shows "d \<le> d' \<and> d' - d \<le> length rs \<and> gaps_ok rn (off nw rn) (drop (d' - d) rs) \<and>
    off nxt rn \<le> off nw rn \<and> off nw rn \<le> 0x7FFFFFFF \<and>
    (\<forall>x. off nxt rn \<le> x \<longrightarrow> x < off nw rn \<longrightarrow> (\<exists>r \<in> set rs. in_range_off rn r x))"
  using assms
proof (induction nxt d rs arbitrary: p rule: advance_scan.induct)
  case (2 nxt d r rs)
  have r: "off (rg_start r) rn < off (rg_end r) rn" "off (rg_end r) rn \<le> 0x7FFFFFFF"
    "off (rg_start r) rn \<le> 0x7FFFFFFF" "gaps_ok rn (off (rg_end r) rn) rs" using "2.prems" by auto
  let ?n = "if sint (rg_end r - nxt) > 0 then rg_end r else nxt"
  have le: "sint (rg_start r - nxt) \<le> 0 \<longleftrightarrow> off (rg_start r) rn \<le> off nxt rn"
    using sint_diff_le r "2.prems"(2) by blast
  show ?case
  proof (cases "sint (rg_start r - nxt) \<le> 0")
    case True
    have n: "off ?n rn = max (off nxt rn) (off (rg_end r) rn)"
      using sint_diff_le [OF r(2) "2.prems"(2)] by (auto simp: max_def not_less)
    then have n31: "off ?n rn \<le> 0x7FFFFFFF" using r "2.prems"(2) by simp
    from True "2.prems"(3) have "advance_scan ?n (d + 1) rs = (nw, d')" by simp
    from "2.IH" [OF True r(4) n31 this] True
    have ih: "d + 1 \<le> d'" "d' - (d + 1) \<le> length rs" "gaps_ok rn (off nw rn) (drop (d' - (d + 1)) rs)"
      "off ?n rn \<le> off nw rn" "off nw rn \<le> 0x7FFFFFFF"
      "\<And>x. off ?n rn \<le> x \<Longrightarrow> x < off nw rn \<Longrightarrow> \<exists>r \<in> set rs. in_range_off rn r x" by auto
    have "d' - d = Suc (d' - (d + 1))" using ih(1) by simp
    moreover have "\<exists>q \<in> set (r # rs). in_range_off rn q x" if "off nxt rn \<le> x" "x < off nw rn" for x
    proof (cases "x < off (rg_end r) rn")
      case x: True
      have "off (rg_start r) rn \<le> x" using True le that(1) by auto
      then show ?thesis using x by (simp add: in_range_off_def)
    next
      case False
      then have "off ?n rn \<le> x" using that(1) n by simp
      then show ?thesis using ih(6) that(2) by auto
    qed
    moreover have "off nxt rn \<le> off nw rn" using ih(4) n by simp
    ultimately show ?thesis using ih by simp
  next
    case False
    then have "nw = nxt" "d' = d" using "2.prems"(3) by simp_all
    then show ?thesis using "2.prems" False le by (auto simp: not_less)
  qed
qed (auto simp: not_less)

lemma rotate_take: "d \<le> length xs \<Longrightarrow> take (length xs - d) (rotate d xs) = drop d xs"
  by (simp add: rotate_drop_take)  (cases "d = length xs", simp_all)

lemma ooo_advance_spec:
  assumes inv: "ooo_inv rn oo" and n: "off nxt rn \<le> 0x7FFFFFFF" and a: "ooo_advance nxt oo = (nw, oo')"
  shows "off nxt rn \<le> off nw rn" and "off nw rn \<le> 0x7FFFFFFF"
    and "off nxt rn \<le> x \<Longrightarrow> x < off nw rn \<Longrightarrow> x \<in> ooo_held rn oo"
    and "oo_len oo' \<le> length (oo_ranges oo')" and "gaps_ok rn (off nw rn) (ooo_slice oo')"
    and "\<exists>d. ooo_slice oo' = drop d (ooo_slice oo)"
proof -
  obtain d where sc: "advance_scan nxt 0 (ooo_slice oo) = (nw, d)"
    using a by (auto simp: ooo_advance_def Let_def split: prod.splits if_splits)
  have g: "gaps_ok rn 0 (ooo_slice oo)" and len: "oo_len oo \<le> length (oo_ranges oo)"
    using inv by (simp_all add: ooo_inv_gaps)
  note s = advance_scan_spec [OF g n sc]
  have sl: "ooo_slice oo' = drop d (ooo_slice oo) \<and> oo_len oo' \<le> length (oo_ranges oo')"
  proof (cases "0 < d")
    case True
    have oo': "oo' = oo\<lparr>oo_ranges := on_subslice 0 (oo_len oo) (rotate d) (oo_ranges oo),
                      oo_len := oo_len oo - d\<rparr>" using a sc True by (simp add: ooo_advance_def)
    have "d \<le> oo_len oo" using s length_ooo_slice [OF len] by simp
    moreover have "get_range (oo_ranges oo) 0 (oo_len oo) = Some (take (oo_len oo) (oo_ranges oo))"
      using len by (simp add: get_range_def)
    ultimately show ?thesis unfolding oo' using len rotate_take [of d "take (oo_len oo) (oo_ranges oo)"]
      by (simp add: on_subslice_def ooo_slice_take min_absorb2)
  next
    case False
    then show ?thesis using a sc len by (simp add: ooo_advance_def)
  qed
  show "off nxt rn \<le> off nw rn" "off nw rn \<le> 0x7FFFFFFF" using s by simp_all
  show "off nxt rn \<le> x \<Longrightarrow> x < off nw rn \<Longrightarrow> x \<in> ooo_held rn oo" using s by (simp add: ooo_held_def)
  show "oo_len oo' \<le> length (oo_ranges oo')" using sl by simp
  show "gaps_ok rn (off nw rn) (ooo_slice oo')" using s sl by simp
  show "\<exists>d. ooo_slice oo' = drop d (ooo_slice oo)" using sl by blast
qed

lemma ooo_advance_small:
  assumes "ooo_inv rn oo" and "off nxt rn \<le> 0x7FFFFFFF" and "ooo_advance nxt oo = (nw, oo')"
  shows "off nw nxt \<le> 0x7FFFFFFF"
proof -
  note adv = ooo_advance_spec(1,2) [OF assms]
  have "off nw nxt = off nw rn - off nxt rn" by (simp add: off_def)
  then show ?thesis using adv by (simp add: word_le_nat_alt unat_sub)
qed

text \<open>The ranges above a new base, read from that base.\<close>

lemma off_shift: "k \<le> off a rn \<Longrightarrow> off a (rn + k) = off a rn - k"
  by (simp add: off_def)

lemma word_minus_mono: "k \<le> a \<Longrightarrow> a < b \<Longrightarrow> a - k < b - (k :: u32)"
  by (simp add: word_less_nat_alt word_le_nat_alt unat_sub_if_size)

lemma gaps_ok_shift: "gaps_ok rn p rs \<Longrightarrow> k \<le> p \<Longrightarrow> gaps_ok (rn + k) (p - k) rs"
proof (induction rs arbitrary: p)
  case (Cons r rs)
  have r: "p < off (rg_start r) rn" "off (rg_start r) rn < off (rg_end r) rn" "off (rg_end r) rn \<le> 0x7FFFFFFF"
    "gaps_ok rn (off (rg_end r) rn) rs" using Cons.prems(1) by simp_all
  have k: "k \<le> off (rg_start r) rn" "k \<le> off (rg_end r) rn" using r Cons.prems(2) by auto
  have "p - k < off (rg_start r) rn - k" "off (rg_start r) rn - k < off (rg_end r) rn - k"
    using word_minus_mono r k Cons.prems(2) by blast+
  moreover have "off (rg_end r) rn - k \<le> 0x7FFFFFFF"
    using r(3) k(2) by (simp add: word_le_nat_alt unat_sub_if_size)
  ultimately show ?case using Cons.IH [OF r(4) k(2)] k by (simp add: off_shift)
qed simp

lemma ooo_inv_shift:
  assumes "oo_len oo \<le> length (oo_ranges oo)" and "gaps_ok rn (off nw rn) (ooo_slice oo)"
  shows "ooo_inv nw oo"
  using assms gaps_ok_shift [OF assms(2), of "off nw rn"] by (simp add: ooo_inv_gaps off_def)

lemma ooo_held_shift:
  assumes g: "gaps_ok rn (off nw rn) (ooo_slice oo)" and x: "x \<in> ooo_held nw oo"
  shows "x + off nw rn \<in> ooo_held rn oo" and "unat (x + off nw rn) = unat x + unat (off nw rn)"
proof -
  obtain r where r: "r \<in> set (ooo_slice oo)" "in_range_off nw r x" using x by (auto simp: ooo_held_def)
  have m: "off nw rn < off (rg_start r) rn" "off (rg_start r) rn < off (rg_end r) rn"
    using gaps_ok_member [OF g r(1)] by simp_all
  have o: "off (rg_start r) nw = off (rg_start r) rn - off nw rn" "off (rg_end r) nw = off (rg_end r) rn - off nw rn"
    by (simp_all add: off_def)
  have a: "off (rg_start r) rn - off nw rn \<le> x" "x < off (rg_end r) rn - off nw rn"
    using r(2) by (simp_all add: in_range_off_def o)
  have u: "unat (off (rg_end r) rn - off nw rn) = unat (off (rg_end r) rn) - unat (off nw rn)"
    "unat (off (rg_start r) rn - off nw rn) = unat (off (rg_start r) rn) - unat (off nw rn)"
    using m by (simp_all add: unat_sub word_le_nat_alt word_less_nat_alt)
  have lt: "unat x + unat (off nw rn) < unat (off (rg_end r) rn)"
    using a(2) m u by (simp add: word_less_nat_alt)
  then show e: "unat (x + off nw rn) = unat x + unat (off nw rn)"
    using unsigned_less [of "off (rg_end r) rn", where ?'a = nat] by (simp add: unat_word_ariths)
  have "in_range_off rn r (x + off nw rn)"
    using lt e a(1) u(2) by (simp add: in_range_off_def word_le_nat_alt word_less_nat_alt)
  then show "x + off nw rn \<in> ooo_held rn oo" using r(1) by (auto simp: ooo_held_def)
qed

section \<open>Insertion is union\<close>



end
