(* ===== verification/Rtx_Queue.thy ===== *)
theory Rtx_Queue
  imports Prelude
begin

unbundle bit_operations_syntax

text \<open>
  The retransmission queue of \<^verbatim>\<open>rtx_queue.rs\<close>: one record per transmitted segment in a
  circular array, the byte counters of RFC 6675, and a bitmap of the SACKed slots. The const
  parameter \<open>CAP\<close> is the length of the record array. The closures \<^verbatim>\<open>f\<close> that
  \<^verbatim>\<open>ack_to\<close> and \<^verbatim>\<open>sack\<close> call do not see the queue, so the model returns the
  list of their arguments in call order.
\<close>

section \<open>Records and flags\<close>

definition RTX_QUEUE_CAP :: usize where "RTX_QUEUE_CAP = 1024"
definition SACK_WORDS :: usize where "SACK_WORDS = RTX_QUEUE_CAP div 64"

definition rtx_cap_for :: "usize \<Rightarrow> usize" where
  "rtx_cap_for buf =
     (let cap = (buf div 1024 + 63) div 64 * 64
      in if cap < 64 then 64 else if RTX_QUEUE_CAP < cap then RTX_QUEUE_CAP else cap)"

definition SF_SACKED :: u8 where "SF_SACKED = 1"
definition SF_LOST :: u8 where "SF_LOST = 2"
definition SF_RETRANS :: u8 where "SF_RETRANS = 4"
definition SF_EVER_RETRANS :: u8 where "SF_EVER_RETRANS = 8"
definition SF_FIN :: u8 where "SF_FIN = 16"
definition SF_PARTIAL :: u8 where "SF_PARTIAL = 32"

lemmas seg_flag_defs = SF_SACKED_def SF_LOST_def SF_RETRANS_def SF_EVER_RETRANS_def SF_FIN_def
  SF_PARTIAL_def

record seg =
  sq_start :: u32
  sq_end :: u32
  sq_xmit_ts :: u64
  sq_xmit_seq :: u32
  sq_flags :: u8
  sq_sent :: u16

definition sq_len :: "seg \<Rightarrow> u32" where
  "sq_len s = sq_end s - sq_start s"

definition sq_has :: "seg \<Rightarrow> u8 \<Rightarrow> bool" where
  "sq_has s f \<longleftrightarrow> sq_flags s AND f \<noteq> 0"

definition sq_payload_len :: "seg \<Rightarrow> u32" where
  "sq_payload_len s = sat_sub (sq_len s) (u32_of_bool (sq_has s SF_FIN))"

definition retrans_len :: "seg \<Rightarrow> u32" where
  "retrans_len s = (if sq_has s SF_PARTIAL then ucast (sq_sent s) else sq_len s)"

record rtx_queue =
  rq_segs :: "seg list"
  rq_sacked_map :: "u64 list"
  rq_head :: usize
  rq_len :: usize
  rq_sacked :: u32
  rq_lost :: u32
  rq_retrans :: u32
  rq_lost_hint :: usize
  rq_next_xmit :: u32

definition rq_cap :: "rtx_queue \<Rightarrow> usize" where
  "rq_cap q = length (rq_segs q)"

definition seg_zero :: seg where
  "seg_zero = \<lparr>sq_start = 0, sq_end = 0, sq_xmit_ts = 0, sq_xmit_seq = 0, sq_flags = 0, sq_sent = 0\<rparr>"

definition rq_new :: "usize \<Rightarrow> rtx_queue" where
  "rq_new CAP = \<lparr>rq_segs = replicate CAP seg_zero, rq_sacked_map = replicate SACK_WORDS 0,
     rq_head = 0, rq_len = 0, rq_sacked = 0, rq_lost = 0, rq_retrans = 0, rq_lost_hint = 0,
     rq_next_xmit = 0\<rparr>"

definition rq_clear :: "rtx_queue \<Rightarrow> rtx_queue" where
  "rq_clear q = q\<lparr>rq_head := 0, rq_len := 0, rq_sacked := 0, rq_lost := 0, rq_retrans := 0,
     rq_lost_hint := 0, rq_sacked_map := replicate SACK_WORDS 0\<rparr>"

definition rq_is_empty :: "rtx_queue \<Rightarrow> bool" where
  "rq_is_empty q = (rq_len q = 0)"

definition rq_is_full :: "rtx_queue \<Rightarrow> bool" where
  "rq_is_full q = (rq_len q = rq_cap q)"

definition rq_pipe :: "rtx_queue \<Rightarrow> u32 \<Rightarrow> u32" where
  "rq_pipe q outstanding =
     sat_add (sat_sub (sat_sub outstanding (rq_sacked q)) (rq_lost q)) (rq_retrans q)"

definition rq_phys :: "rtx_queue \<Rightarrow> usize \<Rightarrow> usize" where
  "rq_phys q i = (rq_head q + i) mod rq_cap q"

section \<open>The bitmap of SACKed slots\<close>

definition map_bit :: "u64 list \<Rightarrow> usize \<Rightarrow> bool" where
  "map_bit m p = (case get_at m (p div 64) of None \<Rightarrow> False | Some w \<Rightarrow> w AND push_bit (p mod 64) 1 \<noteq> 0)"

definition set_map_bit :: "usize \<Rightarrow> bool \<Rightarrow> u64 list \<Rightarrow> u64 list" where
  "set_map_bit p on m =
     (case get_at m (p div 64) of None \<Rightarrow> m
      | Some w \<Rightarrow> let b = push_bit (p mod 64) 1
                  in m[p div 64 := (if on then w OR b else w AND NOT b)])"

definition rq_sacked_bit :: "rtx_queue \<Rightarrow> usize \<Rightarrow> bool" where
  "rq_sacked_bit q p = map_bit (rq_sacked_map q) p"

definition rq_set_sacked_bit :: "usize \<Rightarrow> bool \<Rightarrow> rtx_queue \<Rightarrow> rtx_queue" where
  "rq_set_sacked_bit p on q = q\<lparr>rq_sacked_map := set_map_bit p on (rq_sacked_map q)\<rparr>"

definition low_mask :: "usize \<Rightarrow> u64" where
  "low_mask n = (if 64 \<le> n then NOT 0 else push_bit n 1 - 1)"

text \<open>
  One turn of the loop of \<^verbatim>\<open>shift_sacked_bits_up\<close>: the run of bits it moves and the
  new map. Bit 63 carries into bit 0 of the next word.
\<close>

definition run_length :: "usize \<Rightarrow> usize \<Rightarrow> usize \<Rightarrow> usize" where
  "run_length CAP from left = min left ((from + left - 1) mod CAP mod 64 + 1)"

definition shift_run_up :: "usize \<Rightarrow> usize \<Rightarrow> usize \<Rightarrow> u64 list \<Rightarrow> u64 list" where
  "shift_run_up CAP from left m =
     (let hi = (from + left - 1) mod CAP;
          w = hi div 64; top_bit = hi mod 64;
          n = run_length CAP from left;
          lo = top_bit + 1 - n;
          src = drop_bit lo (case get_at m w of None \<Rightarrow> 0 | Some x \<Rightarrow> x) AND low_mask n;
          (m1, stay) =
            (if top_bit = 63
             then (let nx = (w + 1) mod (CAP div 64)
                   in case get_at m nx of None \<Rightarrow> m
                      | Some y \<Rightarrow> m[nx := (y AND NOT 1) OR drop_bit (n - 1) src], n - 1)
             else (m, n))
      in case get_at m1 w of None \<Rightarrow> m1
         | Some x \<Rightarrow>
             if 0 < stay
             then let mk = push_bit (lo + 1) (low_mask stay)
                  in m1[w := (x AND NOT mk) OR (push_bit (lo + 1) (src AND low_mask stay) AND mk)]
             else m1)"

function shift_bits_up :: "usize \<Rightarrow> usize \<Rightarrow> usize \<Rightarrow> u64 list \<Rightarrow> u64 list" where
  "shift_bits_up CAP from left m =
     (if left = 0 then m
      else shift_bits_up CAP from (left - run_length CAP from left) (shift_run_up CAP from left m))"
  by auto
termination
  by (relation "measure (\<lambda>(CAP, from, left, m). left)") (simp_all add: run_length_def)

declare shift_bits_up.simps [simp del]

definition rq_shift_sacked_bits_up :: "usize \<Rightarrow> usize \<Rightarrow> rtx_queue \<Rightarrow> rtx_queue" where
  "rq_shift_sacked_bits_up from count q =
     q\<lparr>rq_sacked_map := shift_bits_up (rq_cap q) from count (rq_sacked_map q)\<rparr>"

definition trailing_zeros :: "u64 \<Rightarrow> nat" where
  "trailing_zeros w = length (takeWhile (\<lambda>i. \<not> bit w i) [0..<64])"

definition unsacked_span :: "rtx_queue \<Rightarrow> usize \<Rightarrow> usize" where
  "unsacked_span q i = min (64 - rq_phys q i mod 64) (rq_len q - i)"

definition clear_run :: "rtx_queue \<Rightarrow> usize \<Rightarrow> nat" where
  "clear_run q i =
     (let p = rq_phys q i;
          word = (case get_at (rq_sacked_map q) (p div 64) of None \<Rightarrow> 0 | Some x \<Rightarrow> x)
      in trailing_zeros (drop_bit (p mod 64) (NOT word)))"

lemma unsacked_span_pos: "i < rq_len q \<Longrightarrow> 0 < unsacked_span q i"
  using mod_less_divisor [of 64 "rq_phys q i"] by (simp add: unsacked_span_def)

function next_unsacked_from :: "rtx_queue \<Rightarrow> usize \<Rightarrow> usize option" where
  "next_unsacked_from q i =
     (if i < rq_len q
      then if clear_run q i < unsacked_span q i then Some (i + clear_run q i)
           else next_unsacked_from q (i + unsacked_span q i)
      else None)"
  by auto
termination
proof (relation "measure (\<lambda>(q, i). rq_len q - i)")
  fix q :: rtx_queue and i
  assume "i < rq_len q"
  with unsacked_span_pos [OF this]
  show "((q, i + unsacked_span q i), (q, i)) \<in> measure (\<lambda>(q, i). rq_len q - i)" by simp
qed simp

declare next_unsacked_from.simps [simp del]

definition rq_next_unsacked :: "rtx_queue \<Rightarrow> usize \<Rightarrow> usize option" where
  "rq_next_unsacked q from = next_unsacked_from q from"

section \<open>Access and update of entries\<close>

definition rq_get :: "rtx_queue \<Rightarrow> usize \<Rightarrow> seg option" where
  "rq_get q i = (if rq_len q \<le> i then None else get_at (rq_segs q) (rq_phys q i))"

definition rq_put :: "usize \<Rightarrow> seg \<Rightarrow> rtx_queue \<Rightarrow> rtx_queue" where
  "rq_put i s q =
     (if rq_len q \<le> i then q
      else if rq_phys q i < rq_cap q then q\<lparr>rq_segs := (rq_segs q)[rq_phys q i := s]\<rparr> else q)"

definition rq_last :: "rtx_queue \<Rightarrow> seg option" where
  "rq_last q = (if rq_len q = 0 then None else rq_get q (rq_len q - 1))"

definition rq_push :: "seg \<Rightarrow> rtx_queue \<Rightarrow> bool \<times> rtx_queue" where
  "rq_push s q =
     (if rq_is_full q then (False, q)
      else let p = rq_phys q (rq_len q); xmit_seq = rq_next_xmit q
           in if p < rq_cap q
              then (True,
                    rq_set_sacked_bit p (sq_has s SF_SACKED)
                      (q\<lparr>rq_segs := (rq_segs q)[p := s\<lparr>sq_xmit_seq := xmit_seq\<rparr>],
                         rq_next_xmit := xmit_seq + 1, rq_len := rq_len q + 1\<rparr>))
              else (False, q))"

definition apply_count :: "bool \<Rightarrow> u32 \<Rightarrow> u32 \<Rightarrow> u32" where
  "apply_count sign c n = (if sign then sat_add c n else sat_sub c n)"

definition rq_add_counts :: "seg \<Rightarrow> bool \<Rightarrow> rtx_queue \<Rightarrow> rtx_queue" where
  "rq_add_counts s sign q =
     (let n = sq_len s
      in q\<lparr>rq_sacked := (if sq_has s SF_SACKED then apply_count sign (rq_sacked q) n else rq_sacked q),
           rq_lost := (if sq_has s SF_LOST then apply_count sign (rq_lost q) n else rq_lost q),
           rq_retrans := (if sq_has s SF_RETRANS
                          then apply_count sign (rq_retrans q) (retrans_len s) else rq_retrans q)\<rparr>)"

definition rq_set_state :: "usize \<Rightarrow> u8 \<Rightarrow> u16 \<Rightarrow> rtx_queue \<Rightarrow> rtx_queue" where
  "rq_set_state i flags sent q =
     (case rq_get q i of
        None \<Rightarrow> q
      | Some old \<Rightarrow>
          let sent' = (if flags AND SF_PARTIAL \<noteq> 0 then sent else 0);
              new = old\<lparr>sq_flags := flags, sq_sent := sent'\<rparr>;
              q1 = rq_add_counts new True (rq_add_counts old False q);
              q2 = rq_put i new q1;
              q3 = rq_set_sacked_bit (rq_phys q2 i) (flags AND SF_SACKED \<noteq> 0) q2
          in if flags AND SF_LOST \<noteq> 0 \<and> flags AND SF_RETRANS = 0 \<and> i < rq_lost_hint q3
             then q3\<lparr>rq_lost_hint := i\<rparr> else q3)"

definition rq_set_flags :: "usize \<Rightarrow> u8 \<Rightarrow> rtx_queue \<Rightarrow> rtx_queue" where
  "rq_set_flags i flags q =
     rq_set_state i flags (case rq_get q i of None \<Rightarrow> 0 | Some s \<Rightarrow> sq_sent s) q"

function find_between :: "rtx_queue \<Rightarrow> u32 \<Rightarrow> u32 \<Rightarrow> usize \<Rightarrow> usize \<Rightarrow> usize option" where
  "find_between q first rel lo hi =
     (if lo < hi
      then let mid = lo + (hi - lo) div 2
           in case rq_get q mid of
                None \<Rightarrow> None
              | Some s \<Rightarrow>
                  if sq_end s - first \<le> rel then find_between q first rel (mid + 1) hi
                  else if rel < sq_start s - first then find_between q first rel lo mid
                  else Some mid
      else None)"
  by auto
termination
  by (relation "measure (\<lambda>(q, first, rel, lo, hi). hi - lo)") auto

declare find_between.simps [simp del]

definition rq_find :: "rtx_queue \<Rightarrow> u32 \<Rightarrow> usize option" where
  "rq_find q seq =
     (case rq_get q 0 of
        None \<Rightarrow> None
      | Some s \<Rightarrow> find_between q (sq_start s) (seq - sq_start s) 0 (rq_len q))"

section \<open>Splitting, acknowledging, SACKing\<close>

text \<open>The loop that moves the records \<open>i + 1 ..< j\<close> up one slot, highest first.\<close>

fun shift_segs_up :: "usize \<Rightarrow> usize \<Rightarrow> rtx_queue \<Rightarrow> rtx_queue" where
  "shift_segs_up i 0 q = q"
| "shift_segs_up i (Suc j) q =
     (if i + 1 < Suc j
      then let q' = (case get_at (rq_segs q) (rq_phys q j) of
                       None \<Rightarrow> q
                     | Some v \<Rightarrow> q\<lparr>rq_segs := (rq_segs q)[rq_phys q (Suc j) := v]\<rparr>)
           in shift_segs_up i j q'
      else q)"

definition rq_split :: "usize \<Rightarrow> u32 \<Rightarrow> rtx_queue \<Rightarrow> bool \<times> rtx_queue" where
  "rq_split i at q =
     (case rq_get q i of
        None \<Rightarrow> (False, q)
      | Some s \<Rightarrow>
          if \<not> (seq_lt (sq_start s) at \<and> seq_lt at (sq_end s)) \<or> rq_is_full q then (False, q)
          else
            let q = shift_segs_up i (rq_len q) q;
                q = rq_shift_sacked_bits_up (rq_phys q (i + 1)) (rq_len q - (i + 1)) q;
                q = q\<lparr>rq_len := rq_len q + 1\<rparr>;
                lower = s\<lparr>sq_end := at, sq_flags := sq_flags s AND NOT SF_FIN\<rparr>;
                upper = s\<lparr>sq_start := at\<rparr>;
                partial = sq_has s SF_PARTIAL;
                below = at - sq_start s;
                sent = ucast (sq_sent s) :: u32;
                lower = (if partial \<and> below \<le> sent
                         then lower\<lparr>sq_flags := sq_flags lower AND NOT SF_PARTIAL, sq_sent := 0\<rparr>
                         else lower);
                upper = (if partial
                         then if below < sent then upper\<lparr>sq_sent := ucast (sent - below)\<rparr>
                              else upper\<lparr>sq_flags := (sq_flags s OR SF_LOST) AND NOT (SF_RETRANS OR SF_PARTIAL),
                                         sq_sent := 0\<rparr>
                         else upper);
                q = (if partial
                     then rq_add_counts upper True (rq_add_counts lower True (rq_add_counts s False q))
                     else q);
                q = rq_put (i + 1) upper (rq_put i lower q);
                q = rq_set_sacked_bit (rq_phys q (i + 1)) (sq_has s SF_SACKED) q;
                q = (if i + 1 < rq_lost_hint q then q\<lparr>rq_lost_hint := rq_lost_hint q + 1\<rparr> else q);
                q = (if partial \<and> sq_has upper SF_LOST \<and> \<not> sq_has upper SF_RETRANS
                     then q\<lparr>rq_lost_hint := min (rq_lost_hint q) (i + 1)\<rparr> else q)
            in (True, q))"

function ack_to_loop :: "u32 \<Rightarrow> u32 \<Rightarrow> (seg \<times> bool) list \<Rightarrow> rtx_queue
    \<Rightarrow> u32 \<times> (seg \<times> bool) list \<times> rtx_queue" where
  "ack_to_loop una removed calls q =
     (case rq_get q 0 of
        None \<Rightarrow> (removed, calls, q)
      | Some s \<Rightarrow>
          if seq_le (sq_end s) una then
            let q' = rq_add_counts s False q
            in ack_to_loop una (sat_add removed (sq_len s)) (calls @ [(s, \<not> sq_has s SF_SACKED)])
                 (q'\<lparr>rq_head := (rq_head q' + 1) mod rq_cap q', rq_len := rq_len q' - 1,
                     rq_lost_hint := rq_lost_hint q' - 1\<rparr>)
          else if seq_lt (sq_start s) una then
            let q' = rq_add_counts s False q;
                acked = una - sq_start s;
                trimmed = s\<lparr>sq_start := una\<rparr>;
                (trimmed, q') =
                  (if sq_has s SF_PARTIAL
                   then if acked < ucast (sq_sent s)
                        then (trimmed\<lparr>sq_sent := ucast (ucast (sq_sent s) - acked)\<rparr>, q')
                        else (trimmed\<lparr>sq_flags := (sq_flags s OR SF_LOST) AND NOT (SF_RETRANS OR SF_PARTIAL),
                                      sq_sent := 0\<rparr>,
                              q'\<lparr>rq_lost_hint := 0\<rparr>)
                   else (trimmed, q'))
            in (sat_add removed acked, calls @ [(s, \<not> sq_has s SF_SACKED)],
                rq_put 0 trimmed (rq_add_counts trimmed True q'))
          else (removed, calls, q))"
  by auto
termination
  by (relation "measure (\<lambda>(una, removed, calls, q). rq_len q)")
    (auto simp: rq_get_def rq_add_counts_def Let_def split: if_splits)

declare ack_to_loop.simps [simp del]

definition rq_ack_to :: "u32 \<Rightarrow> rtx_queue \<Rightarrow> u32 \<times> (seg \<times> bool) list \<times> rtx_queue" where
  "rq_ack_to una q =
     (let (removed, calls, q') = ack_to_loop una 0 [] q
      in (removed, calls,
          if rq_len q' = 0 then q'\<lparr>rq_head := 0, rq_lost_hint := 0\<rparr> else q'))"

text \<open>
  The walk over the segments of a SACK block, with fuel: each turn either moves to a later
  segment or splits one, and a queue that is not full has room for finitely many splits, so twice
  the capacity is enough (\<open>None\<close>, out of fuel, is not reached).
\<close>

fun sack_walk :: "nat \<Rightarrow> u32 \<Rightarrow> u32 \<Rightarrow> usize \<Rightarrow> u32 \<Rightarrow> seg list \<Rightarrow> rtx_queue
    \<Rightarrow> (u32 \<times> seg list \<times> rtx_queue) option" where
  "sack_walk 0 l r i newly calls q = None"
| "sack_walk (Suc fuel) l r i newly calls q =
     (case rq_get q i of
        None \<Rightarrow> Some (newly, calls, q)
      | Some s \<Rightarrow>
          if \<not> seq_lt (sq_start s) r then Some (newly, calls, q)
          else if sq_has s SF_SACKED then
            (case rq_next_unsacked q (i + 1) of
               Some j \<Rightarrow> sack_walk fuel l r j newly calls q
             | None \<Rightarrow> Some (newly, calls, q))
          else if seq_lt r (sq_end s) then
            (case rq_split i r q of
               (False, q') \<Rightarrow> Some (newly, calls, q')
             | (True, q') \<Rightarrow> sack_walk fuel l r i newly calls q')
          else if seq_le l (sq_start s) then
            sack_walk fuel l r (i + 1) (sat_add newly (sq_len s)) (calls @ [s])
              (rq_set_flags i ((sq_flags s OR SF_SACKED) AND NOT (SF_LOST OR SF_RETRANS OR SF_PARTIAL)) q)
          else sack_walk fuel l r (i + 1) newly calls q)"

definition sack_fuel :: "rtx_queue \<Rightarrow> nat" where
  "sack_fuel q = 2 * rq_cap q + 2"

definition rq_sack :: "u32 \<Rightarrow> u32 \<Rightarrow> rtx_queue \<Rightarrow> u32 \<times> seg list \<times> rtx_queue" where
  "rq_sack left right q =
     (if \<not> seq_lt left right \<or> rq_is_empty q then (0, [], q)
      else case (rq_get q 0, rq_last q) of
             (Some f, Some t) \<Rightarrow>
               let first = sq_start f; lst = sq_end t;
                   l = (if seq_lt left first then first else left);
                   r = (if seq_lt lst right then lst else right)
               in if \<not> seq_lt l r then (0, [], q)
                  else (case rq_find q l of
                          None \<Rightarrow> (0, [], q)
                        | Some i \<Rightarrow>
                            let (i, q) =
                              (case rq_get q i of
                                 None \<Rightarrow> (i, q)
                               | Some s \<Rightarrow>
                                   if seq_lt (sq_start s) l \<and> \<not> sq_has s SF_SACKED
                                   then (case rq_split i l q of (ok, q') \<Rightarrow> (if ok then i + 1 else i, q'))
                                   else (i, q))
                            in (case sack_walk (sack_fuel q) l r i 0 [] q of
                                  Some res \<Rightarrow> res | None \<Rightarrow> (0, [], q)))
           | _ \<Rightarrow> (0, [], q))"

section \<open>Loss marking and retransmission\<close>

definition rq_mark_lost :: "usize \<Rightarrow> rtx_queue \<Rightarrow> rtx_queue" where
  "rq_mark_lost i q =
     (case rq_get q i of
        None \<Rightarrow> q
      | Some s \<Rightarrow>
          if \<not> sq_has s SF_SACKED \<and> \<not> (sq_has s SF_LOST \<and> \<not> sq_has s SF_RETRANS)
          then rq_set_flags i ((sq_flags s OR SF_LOST) AND NOT (SF_RETRANS OR SF_PARTIAL)) q
          else q)"

definition rq_mark_all_lost :: "rtx_queue \<Rightarrow> rtx_queue" where
  "rq_mark_all_lost q = (fold rq_mark_lost [0..<rq_len q] q)\<lparr>rq_lost_hint := 0\<rparr>"

definition rq_unmark_one :: "usize \<Rightarrow> rtx_queue \<Rightarrow> rtx_queue" where
  "rq_unmark_one i q =
     (case rq_get q i of
        None \<Rightarrow> q
      | Some s \<Rightarrow>
          if sq_has s SF_LOST \<and> \<not> sq_has s SF_RETRANS
          then rq_set_flags i (sq_flags s AND NOT SF_LOST) q else q)"

definition rq_unmark_lost :: "rtx_queue \<Rightarrow> rtx_queue" where
  "rq_unmark_lost q = (fold rq_unmark_one [0..<rq_len q] q)\<lparr>rq_lost_hint := 0\<rparr>"

definition rq_unsack_one :: "usize \<Rightarrow> rtx_queue \<Rightarrow> rtx_queue" where
  "rq_unsack_one i q =
     (case rq_get q i of
        None \<Rightarrow> q
      | Some s \<Rightarrow> if sq_has s SF_SACKED then rq_set_flags i (sq_flags s AND NOT SF_SACKED) q else q)"

definition rq_clear_sacked :: "rtx_queue \<Rightarrow> rtx_queue" where
  "rq_clear_sacked q = fold rq_unsack_one [0..<rq_len q] q"

function next_lost_from :: "rtx_queue \<Rightarrow> usize \<Rightarrow> usize option" where
  "next_lost_from q i =
     (case rq_get q i of
        None \<Rightarrow> None
      | Some s \<Rightarrow> if sq_has s SF_LOST \<and> \<not> sq_has s SF_RETRANS then Some i else next_lost_from q (i + 1))"
  by auto
termination
  by (relation "measure (\<lambda>(q, i). rq_len q - i)") (auto simp: rq_get_def split: if_splits)

declare next_lost_from.simps [simp del]

definition rq_next_lost :: "rtx_queue \<Rightarrow> usize option \<times> rtx_queue" where
  "rq_next_lost q =
     (case next_lost_from q (rq_lost_hint q) of
        Some i \<Rightarrow> (Some i, q\<lparr>rq_lost_hint := i\<rparr>)
      | None \<Rightarrow> (None, q\<lparr>rq_lost_hint := rq_len q\<rparr>))"

definition rq_retransmitted :: "usize \<Rightarrow> u64 \<Rightarrow> u16 \<Rightarrow> rtx_queue \<Rightarrow> rtx_queue" where
  "rq_retransmitted i now sent q =
     (case rq_get q i of
        None \<Rightarrow> q
      | Some s \<Rightarrow>
          let partial = (if 0 < sent then SF_PARTIAL else 0);
              flags = ((sq_flags s OR SF_RETRANS OR SF_EVER_RETRANS) AND NOT SF_PARTIAL) OR partial;
              q = rq_set_state i flags sent q;
              xmit_seq = rq_next_xmit q
          in (case rq_get q i of
                None \<Rightarrow> q
              | Some d \<Rightarrow> (rq_put i (d\<lparr>sq_xmit_ts := now, sq_xmit_seq := xmit_seq\<rparr>) q)
                            \<lparr>rq_next_xmit := xmit_seq + 1\<rparr>))"

definition rq_on_retransmit :: "usize \<Rightarrow> u64 \<Rightarrow> rtx_queue \<Rightarrow> rtx_queue" where
  "rq_on_retransmit i now q = rq_retransmitted i now 0 q"

definition rq_on_partial_retransmit :: "usize \<Rightarrow> u64 \<Rightarrow> u16 \<Rightarrow> rtx_queue \<Rightarrow> rtx_queue" where
  "rq_on_partial_retransmit i now sent q = rq_retransmitted i now sent q"

section \<open>The structural check\<close>

definition seg_valid :: "rtx_queue \<Rightarrow> usize \<Rightarrow> seg \<Rightarrow> bool" where
  "seg_valid q i s \<longleftrightarrow>
     seq_lt (sq_start s) (sq_end s) \<and>
     \<not> (sq_has s SF_SACKED \<and> sq_has s (SF_LOST OR SF_RETRANS)) \<and>
     rq_sacked_bit q (rq_phys q i) = sq_has s SF_SACKED \<and>
     (sq_has s SF_RETRANS \<longrightarrow> sq_has s SF_EVER_RETRANS) \<and>
     (if sq_has s SF_PARTIAL
      then sq_has s SF_RETRANS \<and> sq_sent s \<noteq> 0 \<and> ucast (sq_sent s) < sq_payload_len s
      else sq_sent s = 0) \<and>
     (sq_has s SF_FIN \<longrightarrow> i + 1 = rq_len q)"

fun valid_from :: "rtx_queue \<Rightarrow> usize \<Rightarrow> nat \<Rightarrow> u32 option \<Rightarrow> u32 \<times> u32 \<times> u32
    \<Rightarrow> (u32 \<times> u32 \<times> u32) option" where
  "valid_from q i 0 expect counts = Some counts"
| "valid_from q i (Suc n) expect (sacked, lost, retrans) =
     (case rq_get q i of
        None \<Rightarrow> None
      | Some s \<Rightarrow>
          if seg_valid q i s \<and> (case expect of None \<Rightarrow> True | Some e \<Rightarrow> sq_start s = e)
          then valid_from q (i + 1) n (Some (sq_end s))
                 (if sq_has s SF_SACKED then sacked + sq_len s else sacked,
                  if sq_has s SF_LOST then lost + sq_len s else lost,
                  if sq_has s SF_RETRANS then retrans + retrans_len s else retrans)
          else None)"

definition rq_debug_valid :: "u32 \<Rightarrow> u32 \<Rightarrow> rtx_queue \<Rightarrow> bool" where
  "rq_debug_valid snd_una snd_nxt q \<longleftrightarrow>
     valid_from q 0 (rq_len q) None (0, 0, 0) = Some (rq_sacked q, rq_lost q, rq_retrans q) \<and>
     (case (rq_get q 0, rq_last q) of
        (Some first, Some lst) \<Rightarrow> \<not> seq_lt (sq_start first) snd_una \<and> sq_end lst = snd_nxt
      | _ \<Rightarrow> True)"

end
