(* ===== verification/Rack.thy ===== *)
theory Rack
  imports Rtx_Queue
begin

unbundle bit_operations_syntax

text \<open>
  RACK-TLP loss detection of \<^verbatim>\<open>rack.rs\<close>: the transmission order
  \<^verbatim>\<open>sent_after\<close>, the windowed minimum RTT, the per-delivery update with the
  retransmission ambiguity filter, the reordering window, and the loss scan over the
  retransmission queue. The loss scan terminates because every turn moves to a later segment;
  the bit-map step \<^verbatim>\<open>next_unsacked\<close> never moves backwards.
\<close>

section \<open>Transmission order and windowed minimum\<close>

definition MIN_RTT_WINDOW_MS :: u64 where "MIN_RTT_WINDOW_MS = 300000"
definition DUP_THRESH :: u32 where "DUP_THRESH = 3"

definition sent_after :: "u32 \<Rightarrow> u32 \<Rightarrow> u32 \<Rightarrow> u32 \<Rightarrow> bool" where
  "sent_after x1 seq1 x2 seq2 \<longleftrightarrow>
     (let d = sint (x1 - x2) in d > 0 \<or> (d = 0 \<and> seq_gt seq1 seq2))"

record win_min =
  wm_t :: "u64 \<times> u64 \<times> u64"
  wm_v :: "u32 \<times> u32 \<times> u32"
  wm_valid :: bool

definition wm_new :: win_min where
  "wm_new = \<lparr>wm_t = (0, 0, 0), wm_v = (0, 0, 0), wm_valid = False\<rparr>"

definition wm_get :: "win_min \<Rightarrow> u32 option" where
  "wm_get m = (if wm_valid m then Some (fst (wm_v m)) else None)"

definition wm_reset :: "u64 \<Rightarrow> u32 \<Rightarrow> win_min \<Rightarrow> win_min" where
  "wm_reset t v m = \<lparr>wm_t = (t, t, t), wm_v = (v, v, v), wm_valid = True\<rparr>"

definition wm_update :: "u64 \<Rightarrow> u64 \<Rightarrow> u32 \<Rightarrow> win_min \<Rightarrow> win_min" where
  "wm_update win t v m =
     (let (t0, t1, t2) = wm_t m; (v0, v1, v2) = wm_v m in
      if \<not> wm_valid m \<or> v \<le> v0 \<or> win < sat_sub t t2 then wm_reset t v m
      else
        let (t1, v1, t2, v2) =
              (if v \<le> v1 then (t, v, t, v) else if v \<le> v2 then (t1, v1, t, v) else (t1, v1, t2, v2));
            dt = sat_sub t t0
        in if win < dt then
             (if win < sat_sub t t1
              then m\<lparr>wm_t := (t2, t, t), wm_v := (v2, v, v)\<rparr>
              else m\<lparr>wm_t := (t1, t2, t), wm_v := (v1, v2, v)\<rparr>)
           else if t1 = t0 \<and> win div 4 < dt then m\<lparr>wm_t := (t0, t, t), wm_v := (v0, v, v)\<rparr>
           else if t2 = t1 \<and> win div 2 < dt then m\<lparr>wm_t := (t0, t1, t), wm_v := (v0, v1, v)\<rparr>
           else m\<lparr>wm_t := (t0, t1, t2), wm_v := (v0, v1, v2)\<rparr>)"

section \<open>RACK state\<close>

record rack =
  rk_valid :: bool
  rk_xmit_seq :: u32
  rk_end_seq :: u32
  rk_rtt :: u32
  rk_min_rtt :: win_min
  rk_fack :: u32
  rk_fack_valid :: bool
  rk_prior_fack :: u32
  rk_prior_fack_valid :: bool
  rk_reordering_seen :: bool
  rk_reo_wnd_extra :: u32
  rk_reo_wnd_persist :: u32
  rk_dsack_round_active :: bool
  rk_dsack_round :: u32

definition rack_new :: rack where
  "rack_new = \<lparr>rk_valid = False, rk_xmit_seq = 0, rk_end_seq = 0, rk_rtt = 0, rk_min_rtt = wm_new,
     rk_fack = 0, rk_fack_valid = False, rk_prior_fack = 0, rk_prior_fack_valid = False,
     rk_reordering_seen = False, rk_reo_wnd_extra = 0, rk_reo_wnd_persist = 0,
     rk_dsack_round_active = False, rk_dsack_round = 0\<rparr>"

definition rack_sample_rtt :: "u64 \<Rightarrow> u32 \<Rightarrow> rack \<Rightarrow> rack" where
  "rack_sample_rtt now rtt k =
     k\<lparr>rk_min_rtt := wm_update MIN_RTT_WINDOW_MS now rtt (rk_min_rtt k)\<rparr>"

definition rack_on_ack_start :: "rack \<Rightarrow> rack" where
  "rack_on_ack_start k = k\<lparr>rk_prior_fack := rk_fack k, rk_prior_fack_valid := rk_fack_valid k\<rparr>"

definition u32_saturate :: "u64 \<Rightarrow> u32" where
  "u32_saturate x = (case u32_try_from x of None \<Rightarrow> - 1 | Some y \<Rightarrow> y)"

definition rack_on_delivered :: "seg \<Rightarrow> u64 \<Rightarrow> u32 option \<Rightarrow> rack \<Rightarrow> rack" where
  "rack_on_delivered s now tsecr_ms k =
     (let k = (if rk_prior_fack_valid k \<and> \<not> sq_has s SF_EVER_RETRANS \<and> seq_gt (rk_prior_fack k) (sq_end s)
               then k\<lparr>rk_reordering_seen := True\<rparr> else k);
          k = (if \<not> rk_fack_valid k \<or> seq_gt (sq_end s) (rk_fack k)
               then k\<lparr>rk_fack := sq_end s, rk_fack_valid := True\<rparr> else k);
          rtt = u32_saturate (sat_sub now (sq_xmit_ts s))
      in if sq_has s SF_EVER_RETRANS \<and>
            ((case tsecr_ms of None \<Rightarrow> False | Some t \<Rightarrow> sint (t - ucast (sq_xmit_ts s)) < 0) \<or>
             (case wm_get (rk_min_rtt k) of None \<Rightarrow> False | Some m \<Rightarrow> rtt < m))
         then k
         else let k = k\<lparr>rk_rtt := rtt\<rparr>
              in if \<not> rk_valid k \<or> sent_after (sq_xmit_seq s) (sq_end s) (rk_xmit_seq k) (rk_end_seq k)
                 then k\<lparr>rk_valid := True, rk_xmit_seq := sq_xmit_seq s, rk_end_seq := sq_end s\<rparr>
                 else k)"

definition rack_on_dsack :: "u32 \<Rightarrow> u32 \<Rightarrow> rack \<Rightarrow> rack" where
  "rack_on_dsack snd_una snd_nxt k =
     (let k = (if rk_dsack_round_active k \<and> seq_ge snd_una (rk_dsack_round k)
               then k\<lparr>rk_dsack_round_active := False\<rparr> else k);
          k = (if \<not> rk_dsack_round_active k
               then k\<lparr>rk_dsack_round_active := True, rk_dsack_round := snd_nxt,
                      rk_reo_wnd_extra := min (sat_add (rk_reo_wnd_extra k) 1) 15,
                      rk_reo_wnd_persist := 16\<rparr> else k)
      in k\<lparr>rk_reordering_seen := True\<rparr>)"

definition rack_on_recovery_exit :: "rack \<Rightarrow> rack" where
  "rack_on_recovery_exit k =
     (let k = k\<lparr>rk_reo_wnd_persist := sat_sub (rk_reo_wnd_persist k) 1\<rparr>
      in if rk_reo_wnd_persist k = 0 then k\<lparr>rk_reo_wnd_extra := 0\<rparr> else k)"

definition rack_reo_wnd :: "u32 \<Rightarrow> bool \<Rightarrow> u32 \<Rightarrow> u32 \<Rightarrow> rack \<Rightarrow> u32" where
  "rack_reo_wnd srtt in_recovery sacked_bytes mss k =
     (if \<not> rk_reordering_seen k \<and> (in_recovery \<or> sat_mul DUP_THRESH mss \<le> sacked_bytes) then 0
      else let base = (case wm_get (rk_min_rtt k) of None \<Rightarrow> srtt | Some m \<Rightarrow> m) div 4
           in min (sat_mul base (rk_reo_wnd_extra k + 1)) (max srtt 1))"

section \<open>The loss scan\<close>

lemma next_unsacked_ge: "next_unsacked_from q i = Some j \<Longrightarrow> i \<le> j"
proof (induction q i rule: next_unsacked_from.induct)
  case (1 q i)
  show ?case
  proof (cases "i < rq_len q \<and> \<not> clear_run q i < unsacked_span q i")
    case True
    then have "next_unsacked_from q (i + unsacked_span q i) = Some j"
      using "1.prems" by (subst (asm) next_unsacked_from.simps) simp
    then show ?thesis using "1.IH" True by auto
  next
    case False
    then show ?thesis
      using "1.prems" by (subst (asm) next_unsacked_from.simps) (auto split: if_splits)
  qed
qed

lemma rq_len_keeps [simp]:
  "rq_len (rq_add_counts s b q) = rq_len q" "rq_len (rq_put i s q) = rq_len q"
  "rq_len (rq_set_sacked_bit p b q) = rq_len q" "rq_len (rq_set_state i f n q) = rq_len q"
  "rq_len (rq_set_flags i f q) = rq_len q" "rq_len (rq_mark_lost i q) = rq_len q"
proof -
  show a: "rq_len (rq_add_counts s b q) = rq_len q" "rq_len (rq_put i s q) = rq_len q"
    "rq_len (rq_set_sacked_bit p b q) = rq_len q" for s b q i p
    by (simp_all add: rq_add_counts_def rq_put_def rq_set_sacked_bit_def Let_def)
  show b: "rq_len (rq_set_state i f n q) = rq_len q" for i f n q
    by (simp add: rq_set_state_def Let_def a split: option.split)
  show c: "rq_len (rq_set_flags i f q) = rq_len q" for i f q
    by (simp add: rq_set_flags_def b)
  show "rq_len (rq_mark_lost i q) = rq_len q"
    by (simp add: rq_mark_lost_def c split: option.split)
qed

text \<open>
  The state of the scan: next index, whether anything was marked, the largest remaining wait, and
  the queue.
\<close>

function detect_scan :: "rack \<Rightarrow> u64 \<Rightarrow> u64 \<Rightarrow> usize \<Rightarrow> bool \<Rightarrow> u64 \<Rightarrow> rtx_queue
    \<Rightarrow> bool \<times> u64 \<times> rtx_queue" where
  "detect_scan k now thresh i marked timeout q =
     (case rq_get q i of
        None \<Rightarrow> (marked, timeout, q)
      | Some s \<Rightarrow>
          if sq_has s SF_SACKED then
            (case rq_next_unsacked q (i + 1) of
               Some j \<Rightarrow> detect_scan k now thresh j marked timeout q
             | None \<Rightarrow> (marked, timeout, q))
          else if sq_has s SF_LOST \<and> \<not> sq_has s SF_RETRANS then
            detect_scan k now thresh (i + 1) marked timeout q
          else if \<not> sent_after (rk_xmit_seq k) (rk_end_seq k) (sq_xmit_seq s) (sq_end s) then
            (if \<not> sq_has s SF_EVER_RETRANS then (marked, timeout, q)
             else detect_scan k now thresh (i + 1) marked timeout q)
          else if sat_add (sq_xmit_ts s) thresh \<le> now then
            detect_scan k now thresh (i + 1) True timeout (rq_mark_lost i q)
          else
            detect_scan k now thresh (i + 1) marked
              (max timeout (sat_add (sq_xmit_ts s) thresh - now)) q)"
  by auto
termination
  by (relation "measure (\<lambda>(k, now, thresh, i, marked, timeout, q). rq_len q - i)")
    (auto simp: rq_get_def rq_next_unsacked_def split: if_splits dest!: next_unsacked_ge)

declare detect_scan.simps [simp del]

definition detect_loss :: "rack \<Rightarrow> u64 \<Rightarrow> u32 \<Rightarrow> rtx_queue \<Rightarrow> (bool \<times> u64 option) \<times> rtx_queue" where
  "detect_loss k now reo_wnd q =
     (if \<not> rk_valid k then ((False, None), q)
      else let thresh = sat_add (ucast (rk_rtt k)) (ucast reo_wnd);
               (marked, timeout, q) = detect_scan k now thresh 0 False 0 q
           in ((marked, if 0 < timeout then Some timeout else None), q))"

end
