(* ===== verification/Congestion.thy ===== *)
theory Congestion
  imports Prelude
begin

text \<open>
  Congestion control of \<^verbatim>\<open>congestion.rs\<close>: Reno with byte counting, PRR pacing of a
  reduction, the RTO loss window, and the undo of a reduction that D-SACKs show to be spurious.
  The \<^verbatim>\<open>i64\<close> arithmetic of PRR is on integers clamped to the \<^verbatim>\<open>i64\<close> range as
  the saturating operations clamp it.
\<close>

section \<open>Model\<close>

datatype ca_state = CaOpen | CaRecovery | CaLoss | CaCwr

definition initial_window :: "u32 \<Rightarrow> u32" where
  "initial_window mss =
     (let ten = sat_mul mss 10; two = sat_mul mss 2;
          lower = (if 14600 < two then two else 14600)
      in if ten < lower then ten else lower)"

definition MSS :: u16 where "MSS = 1460"

definition INITIAL_WINDOW :: u32 where "INITIAL_WINDOW = initial_window (ucast MSS)"

record reno =
  cc_cwnd :: u32
  cc_ssthresh :: u32
  cc_state :: ca_state
  cc_recovery_point :: u32
  cc_ca_acc :: u32
  cc_prr_delivered :: u64
  cc_prr_out :: u64
  cc_recover_fs :: u32
  cc_prior_cwnd :: u32
  cc_prior_ssthresh :: u32
  cc_undo_valid :: bool
  cc_undo_marker :: u32
  cc_undo_retrans :: u32

definition reno_new :: "u32 \<Rightarrow> reno" where
  "reno_new initial_cwnd = \<lparr>cc_cwnd = initial_cwnd, cc_ssthresh = (- 1) div 2, cc_state = CaOpen,
     cc_recovery_point = 0, cc_ca_acc = 0, cc_prr_delivered = 0, cc_prr_out = 0, cc_recover_fs = 1,
     cc_prior_cwnd = 0, cc_prior_ssthresh = 0, cc_undo_valid = False, cc_undo_marker = 0,
     cc_undo_retrans = 0\<rparr>"

definition in_reduction :: "reno \<Rightarrow> bool" where
  "in_reduction c \<longleftrightarrow> cc_state c = CaRecovery \<or> cc_state c = CaCwr"

definition in_loss_recovery :: "reno \<Rightarrow> bool" where
  "in_loss_recovery c \<longleftrightarrow> cc_state c = CaRecovery \<or> cc_state c = CaLoss"

text \<open>Slow start takes what the threshold leaves room for; the rest goes to congestion
  avoidance.\<close>

definition slow_start_part :: "u32 \<Rightarrow> reno \<Rightarrow> u32" where
  "slow_start_part acked c =
     (if cc_cwnd c < cc_ssthresh c then min acked (cc_ssthresh c - cc_cwnd c) else 0)"

definition congestion_avoidance :: "u32 \<Rightarrow> u32 \<Rightarrow> reno \<Rightarrow> reno" where
  "congestion_avoidance acked mss c =
     (let acc = sat_add (cc_ca_acc c) acked; w = max (cc_cwnd c) mss
      in if w \<le> acc
         then c\<lparr>cc_ca_acc := acc - acc div w * w, cc_cwnd := sat_add (cc_cwnd c) (sat_mul (acc div w) mss)\<rparr>
         else c\<lparr>cc_ca_acc := acc\<rparr>)"

definition reno_on_ack :: "u32 \<Rightarrow> u32 \<Rightarrow> bool \<Rightarrow> reno \<Rightarrow> reno" where
  "reno_on_ack acked mss cwnd_limited c =
     (if in_reduction c \<or> acked = 0 \<or> \<not> cwnd_limited then c
      else let inc = slow_start_part acked c;
               c = c\<lparr>cc_cwnd := sat_add (cc_cwnd c) inc\<rparr>
           in if acked - inc = 0 then c else congestion_avoidance (acked - inc) mss c)"

definition begin_reduction :: "ca_state \<Rightarrow> u32 \<Rightarrow> u32 \<Rightarrow> u32 \<Rightarrow> reno \<Rightarrow> reno" where
  "begin_reduction st flight snd_nxt mss c =
     c\<lparr>cc_ssthresh := max (flight div 2) (sat_mul mss 2), cc_state := st,
       cc_recovery_point := snd_nxt, cc_recover_fs := max flight 1, cc_prr_delivered := 0,
       cc_prr_out := 0, cc_ca_acc := 0\<rparr>"

definition arm_undo :: "u32 \<Rightarrow> reno \<Rightarrow> reno" where
  "arm_undo snd_una c =
     c\<lparr>cc_prior_cwnd := cc_cwnd c, cc_prior_ssthresh := cc_ssthresh c, cc_undo_valid := True,
       cc_undo_marker := snd_una, cc_undo_retrans := 0\<rparr>"

definition enter_recovery :: "u32 \<Rightarrow> u32 \<Rightarrow> u32 \<Rightarrow> u32 \<Rightarrow> reno \<Rightarrow> reno" where
  "enter_recovery flight snd_una snd_nxt mss c =
     begin_reduction CaRecovery flight snd_nxt mss (arm_undo snd_una c)"

definition enter_cwr :: "u32 \<Rightarrow> u32 \<Rightarrow> u32 \<Rightarrow> reno \<Rightarrow> reno" where
  "enter_cwr flight snd_nxt mss c =
     begin_reduction CaCwr flight snd_nxt mss (c\<lparr>cc_undo_valid := False\<rparr>)"

definition cwr_to_recovery :: "reno \<Rightarrow> reno" where
  "cwr_to_recovery c = (if cc_state c = CaCwr then c\<lparr>cc_state := CaRecovery\<rparr> else c)"

definition reno_on_retransmit :: "reno \<Rightarrow> reno" where
  "reno_on_retransmit c =
     (if cc_undo_valid c \<and> in_loss_recovery c
      then c\<lparr>cc_undo_retrans := sat_add (cc_undo_retrans c) 1\<rparr> else c)"

definition reno_on_dsack :: "u32 \<Rightarrow> u32 \<Rightarrow> u32 \<Rightarrow> reno \<Rightarrow> bool \<times> reno" where
  "reno_on_dsack start end mss c =
     (if \<not> cc_undo_valid c \<or> cc_undo_retrans c = 0 \<or> \<not> seq_ge start (cc_undo_marker c) then (False, c)
      else let segs = max (div_ceil (end - start) (max mss 1)) 1;
               c = c\<lparr>cc_undo_retrans := sat_sub (cc_undo_retrans c) segs\<rparr>
           in if 0 < cc_undo_retrans c then (False, c)
              else (True,
                    c\<lparr>cc_cwnd := max (cc_cwnd c) (cc_prior_cwnd c),
                      cc_ssthresh := max (cc_ssthresh c) (cc_prior_ssthresh c),
                      cc_state := (if in_loss_recovery c then CaOpen else cc_state c),
                      cc_ca_acc := 0, cc_undo_valid := False\<rparr>))"

definition I64_MAX :: int where "I64_MAX = 2 ^ 63 - 1"
definition I64_MIN :: int where "I64_MIN = - (2 ^ 63)"

definition clamp_i64 :: "int \<Rightarrow> int" where
  "clamp_i64 x = max I64_MIN (min I64_MAX x)"

definition i64_from_u64 :: "u64 \<Rightarrow> int" where
  "i64_from_u64 x = (if uint x \<le> I64_MAX then uint x else I64_MAX)"

definition u32_from_i64 :: "int \<Rightarrow> u32" where
  "u32_from_i64 x = (if 0 \<le> x \<and> x < 2 ^ 32 then of_int x else - 1)"

text \<open>The bytes PRR lets out on an ACK, with \<open>prr_delivered\<close> already counted.\<close>

definition prr_sndcnt :: "u32 \<Rightarrow> u32 \<Rightarrow> u32 \<Rightarrow> bool \<Rightarrow> reno \<Rightarrow> int" where
  "prr_sndcnt delivered pipe mss safe_ack c =
     (let prr_delivered = i64_from_u64 (cc_prr_delivered c);
          prr_out = i64_from_u64 (cc_prr_out c);
          sndcnt =
            (if cc_ssthresh c < pipe
             then let num = sat_mul (cc_prr_delivered c) (ucast (cc_ssthresh c));
                      ceil = div_ceil num (ucast (max (cc_recover_fs c) 1))
                  in clamp_i64 (i64_from_u64 ceil - prr_out)
             else let limit = max (clamp_i64 (prr_delivered - prr_out)) (uint delivered);
                      limit = (if safe_ack then clamp_i64 (limit + uint mss) else limit)
                  in min limit (uint (cc_ssthresh c - pipe)));
          sndcnt = max sndcnt 0
      in if cc_prr_out c = 0 \<and> sndcnt = 0 then uint mss else sndcnt)"

definition prr_update :: "u32 \<Rightarrow> u32 \<Rightarrow> u32 \<Rightarrow> bool \<Rightarrow> reno \<Rightarrow> reno" where
  "prr_update delivered pipe mss safe_ack c =
     (if \<not> in_reduction c then c
      else let c = c\<lparr>cc_prr_delivered := sat_add (cc_prr_delivered c) (ucast delivered)\<rparr>;
               cw = clamp_i64 (uint pipe + prr_sndcnt delivered pipe mss safe_ack c)
           in c\<lparr>cc_cwnd := max (u32_from_i64 cw) mss\<rparr>)"

definition reno_on_send :: "u32 \<Rightarrow> reno \<Rightarrow> reno" where
  "reno_on_send bytes c =
     (if in_reduction c then c\<lparr>cc_prr_out := sat_add (cc_prr_out c) (ucast bytes)\<rparr> else c)"

definition reno_on_rto :: "u32 \<Rightarrow> u32 \<Rightarrow> u32 \<Rightarrow> u32 \<Rightarrow> reno \<Rightarrow> reno" where
  "reno_on_rto flight snd_una snd_nxt mss c =
     (let episode_over = seq_ge snd_una (cc_recovery_point c);
          c = (if cc_state c = CaOpen \<or> cc_state c = CaCwr \<or> episode_over
               then let c = (if cc_state c = CaCwr then c\<lparr>cc_undo_valid := False\<rparr> else arm_undo snd_una c)
                    in c\<lparr>cc_ssthresh := max (flight div 2) (sat_mul mss 2)\<rparr>
               else c)
      in c\<lparr>cc_cwnd := mss, cc_ca_acc := 0, cc_state := CaLoss, cc_recovery_point := snd_nxt\<rparr>)"

definition maybe_exit :: "u32 \<Rightarrow> reno \<Rightarrow> bool \<times> reno" where
  "maybe_exit snd_una c =
     (if cc_state c = CaOpen \<or> \<not> seq_ge snd_una (cc_recovery_point c) then (False, c)
      else let c = (if in_reduction c then c\<lparr>cc_cwnd := cc_ssthresh c\<rparr> else c)
           in (True, c\<lparr>cc_state := CaOpen, cc_ca_acc := 0\<rparr>))"

definition on_idle_restart :: "u32 \<Rightarrow> reno \<Rightarrow> reno" where
  "on_idle_restart iw c = (if cc_state c = CaOpen then c\<lparr>cc_cwnd := min (cc_cwnd c) iw\<rparr> else c)"

section \<open>The window never closes\<close>

text \<open>\<open>cc_open\<close>: both the congestion window and the slow-start threshold are positive. A zero
  window would stop transmission for good, since only an ACK can open it again.\<close>

definition cc_open :: "reno \<Rightarrow> bool" where
  "cc_open c \<longleftrightarrow> 0 < cc_cwnd c \<and> 0 < cc_ssthresh c"

lemma initial_window_pos: "0 < mss \<Longrightarrow> 0 < initial_window mss"
  by (auto simp: initial_window_def Let_def sat_mul_pos)

lemma initial_window_nonzero: "mss \<noteq> 0 \<Longrightarrow> 0 < initial_window mss"
  by (simp add: initial_window_pos word_neq_0_conv)

lemma cc_open_new: "0 < w \<Longrightarrow> cc_open (reno_new w)"
  by (simp add: cc_open_def reno_new_def)

lemma two_mss_pos: "0 < mss \<Longrightarrow> 0 < max x (sat_mul mss (2 :: u32))"
  by (simp add: less_max_iff_disj sat_mul_pos)

named_theorems cc_open_intros \<open>the operations keep the window open\<close>

lemma cc_open_on_send [cc_open_intros]: "cc_open c \<Longrightarrow> cc_open (reno_on_send n c)"
  by (simp add: cc_open_def reno_on_send_def)

lemma cc_open_on_retransmit [cc_open_intros]: "cc_open c \<Longrightarrow> cc_open (reno_on_retransmit c)"
  by (simp add: cc_open_def reno_on_retransmit_def)

lemma cc_open_idle [cc_open_intros]: "cc_open c \<Longrightarrow> 0 < iw \<Longrightarrow> cc_open (on_idle_restart iw c)"
  by (simp add: cc_open_def on_idle_restart_def)

lemma cc_open_on_dsack [cc_open_intros]: "cc_open c \<Longrightarrow> cc_open (snd (reno_on_dsack l r mss c))"
  by (simp add: cc_open_def reno_on_dsack_def Let_def less_max_iff_disj)

lemma cc_open_reduction [cc_open_intros]:
  "cc_open c \<Longrightarrow> 0 < mss \<Longrightarrow> cc_open (begin_reduction st fl nxt mss c)"
  by (simp add: cc_open_def begin_reduction_def two_mss_pos)

lemma cc_open_recovery [cc_open_intros]:
  "cc_open c \<Longrightarrow> 0 < mss \<Longrightarrow> cc_open (enter_recovery fl una nxt mss c)"
  unfolding enter_recovery_def
  by (rule cc_open_reduction) (simp_all add: cc_open_def arm_undo_def)

lemma cc_open_cwr [cc_open_intros]: "cc_open c \<Longrightarrow> 0 < mss \<Longrightarrow> cc_open (enter_cwr fl nxt mss c)"
  unfolding enter_cwr_def by (rule cc_open_reduction) (simp_all add: cc_open_def)

lemma cc_open_cwr_to_recovery [cc_open_intros]: "cc_open c \<Longrightarrow> cc_open (cwr_to_recovery c)"
  by (simp add: cc_open_def cwr_to_recovery_def)

lemma cc_open_on_rto [cc_open_intros]:
  "cc_open c \<Longrightarrow> 0 < mss \<Longrightarrow> cc_open (reno_on_rto fl una nxt mss c)"
  by (simp add: cc_open_def reno_on_rto_def Let_def arm_undo_def two_mss_pos)

lemma cc_open_exit [cc_open_intros]: "cc_open c \<Longrightarrow> cc_open (snd (maybe_exit una c))"
  by (simp add: cc_open_def maybe_exit_def Let_def)

lemma cc_open_prr [cc_open_intros]:
  "cc_open c \<Longrightarrow> 0 < mss \<Longrightarrow> cc_open (prr_update d pipe mss safe c)"
  by (simp add: cc_open_def prr_update_def Let_def less_max_iff_disj)

lemma sat_add_pos: "0 < a \<Longrightarrow> 0 < sat_add a (b :: u32)"
  by (rule less_le_trans [OF _ sat_add_ge])

lemma cc_open_on_ack [cc_open_intros]: "cc_open c \<Longrightarrow> cc_open (reno_on_ack n mss lim c)"
  by (simp add: cc_open_def reno_on_ack_def congestion_avoidance_def Let_def sat_add_pos)

end
