(* ===== verification/Tcb.thy ===== *)
theory Tcb
  imports Ring Tx_Ring State Ooo Rack Congestion Cookie
begin

unbundle bit_operations_syntax

text \<open>
  The connection record of \<^verbatim>\<open>tcb/mod.rs\<close> (\<^verbatim>\<open>struct Tcb\<close>), its construction and
  reset, and the helpers the other files of \<^verbatim>\<open>tcb/\<close> share. The const parameters
  \<open>BUF\<close>, \<open>RTX\<close> and \<open>TXQ\<close> are the lengths of the storage of the rings and of the
  retransmission queue. A method on \<^verbatim>\<open>&mut self\<close> that cannot fail is a function on
  the record; one that returns a \<^verbatim>\<open>Result\<close> is a state transformer that
  keeps the state it reached when it fails.
\<close>

section \<open>Constants\<close>

definition EV_READABLE :: u32 where "EV_READABLE = 1"
definition EV_WRITABLE :: u32 where "EV_WRITABLE = 2"
definition EV_ESTABLISHED :: u32 where "EV_ESTABLISHED = 4"
definition EV_PEER_CLOSED :: u32 where "EV_PEER_CLOSED = 8"
definition EV_CLOSED :: u32 where "EV_CLOSED = 16"
definition EV_TX_PENDING :: u32 where "EV_TX_PENDING = 32"
definition EV_ERROR :: u32 where "EV_ERROR = 64"
definition EV_LISTENING :: u32 where "EV_LISTENING = 128"
definition EV_HALF_OPEN :: u32 where "EV_HALF_OPEN = 256"

definition TIME_WAIT_MS :: u64 where "TIME_WAIT_MS = 60000"
definition TIME_WAIT_MAX_MS :: u64 where "TIME_WAIT_MAX_MS = 2 * TIME_WAIT_MS"
definition RTO_MAX_MS :: u32 where "RTO_MAX_MS = 60000"
definition RTO_MIN_MS :: u32 where "RTO_MIN_MS = 200"
definition DELAYED_ACK_MS :: u64 where "DELAYED_ACK_MS = 40"
definition MIN_MTU :: u16 where "MIN_MTU = 576"
definition MAX_MTU :: u16 where "MAX_MTU = of_nat MAX_PACKET"
definition HDR_LEN :: u16 where "HDR_LEN = 40"
definition TLP_MIN_PTO_MS :: u64 where "TLP_MIN_PTO_MS = 10"
definition TLP_WC_DELACK_MS :: u64 where "TLP_WC_DELACK_MS = 200"
definition MAX_SYN_RCVD_RETRIES :: u8 where "MAX_SYN_RCVD_RETRIES = 5"
definition MAX_SYN_RETRIES :: u8 where "MAX_SYN_RETRIES = 6"
definition MAX_RETRANSMITS :: u8 where "MAX_RETRANSMITS = 10"
definition DEFAULT_USER_TIMEOUT_MS :: u32 where "DEFAULT_USER_TIMEOUT_MS = 300000"
definition DEFAULT_KEEPALIVE_IDLE_MS :: u32 where "DEFAULT_KEEPALIVE_IDLE_MS = 600000"
definition DEFAULT_KEEPALIVE_INTVL_MS :: u32 where "DEFAULT_KEEPALIVE_INTVL_MS = 60000"
definition DEFAULT_KEEPALIVE_COUNT :: u8 where "DEFAULT_KEEPALIVE_COUNT = 4"
definition DEFAULT_FIN_WAIT2_TIMEOUT_MS :: u32 where "DEFAULT_FIN_WAIT2_TIMEOUT_MS = 60000"
definition OOW_RATELIMIT_MS :: u64 where "OOW_RATELIMIT_MS = 500"
definition PAWS_IDLE_MS :: u64 where "PAWS_IDLE_MS = 24 * 24 * 60 * 60 * 1000"
definition BLACKHOLE_RTO_STEP1 :: u8 where "BLACKHOLE_RTO_STEP1 = 3"
definition BLACKHOLE_RTO_STEP2 :: u8 where "BLACKHOLE_RTO_STEP2 = 5"
definition BLACKHOLE_MSS1 :: u16 where "BLACKHOLE_MSS1 = 1024"
definition BLACKHOLE_MSS2 :: u16 where "BLACKHOLE_MSS2 = DEFAULT_PEER_MSS"
definition PMTU_PROBE_MIN_MS :: u32 where "PMTU_PROBE_MIN_MS = 10000"
definition PMTU_PROBE_MAX_MS :: u32 where "PMTU_PROBE_MAX_MS = 600000"

function ws_shift_from :: "usize \<Rightarrow> nat \<Rightarrow> nat" where
  "ws_shift_from buf shift =
     (if 65535 < buf div 2 ^ shift \<and> shift < 14 then ws_shift_from buf (shift + 1) else shift)"
  by auto
termination
  by (relation "measure (\<lambda>(buf, shift). 14 - shift)") auto

declare ws_shift_from.simps [simp del]

definition local_ws_shift :: "usize \<Rightarrow> u8" where
  "local_ws_shift buf = of_nat (ws_shift_from buf 0)"

section \<open>Deadlines\<close>

type_synonym deadline = u64

definition dl_off :: deadline where "dl_off = 0"

definition dl_at :: "u64 \<Rightarrow> deadline" where
  "dl_at t = sat_add t 1"

definition dl_get :: "deadline \<Rightarrow> u64 option" where
  "dl_get d = (if d = 0 then None else Some (d - 1))"

definition dl_is_armed :: "deadline \<Rightarrow> bool" where
  "dl_is_armed d \<longleftrightarrow> d \<noteq> 0"

definition dl_due :: "u64 \<Rightarrow> deadline \<Rightarrow> bool" where
  "dl_due now d \<longleftrightarrow> (case dl_get d of Some t \<Rightarrow> t \<le> now | None \<Rightarrow> False)"

section \<open>Statistics\<close>

record tcb_stats =
  st_segs_out :: u64
  st_segs_in :: u64
  st_bytes_sent :: u64
  st_bytes_retrans :: u64
  st_bytes_received :: u64
  st_dup_bytes_received :: u64
  st_segs_retrans :: u64
  st_dsacks_received :: u64
  st_fast_recoveries :: u32
  st_rto_count :: u32
  st_tlp_count :: u32
  st_ooo_drops :: u32
  st_oow_suppressed :: u32
  st_srtt_ms :: u32
  st_rttvar_ms :: u32
  st_min_rtt_ms :: u32
  st_rto_ms :: u32
  st_cwnd :: u32
  st_ssthresh :: u32
  st_pipe :: u32
  st_mss :: u32
  st_snd_wnd :: u32
  st_rcv_wnd :: u32
  st_ca_state :: u8
  st_state :: u8

definition stats_default :: tcb_stats where
  "stats_default = \<lparr>st_segs_out = 0, st_segs_in = 0, st_bytes_sent = 0, st_bytes_retrans = 0,
     st_bytes_received = 0, st_dup_bytes_received = 0, st_segs_retrans = 0, st_dsacks_received = 0,
     st_fast_recoveries = 0, st_rto_count = 0, st_tlp_count = 0, st_ooo_drops = 0,
     st_oow_suppressed = 0, st_srtt_ms = 0, st_rttvar_ms = 0, st_min_rtt_ms = 0, st_rto_ms = 0,
     st_cwnd = 0, st_ssthresh = 0, st_pipe = 0, st_mss = 0, st_snd_wnd = 0, st_rcv_wnd = 0,
     st_ca_state = 0, st_state = 0\<rparr>"

section \<open>The connection record\<close>

record held_fin =
  hf_start :: u32
  hf_seq :: u32

record tcb_config =
  tc_local :: endpoint
  tc_remote :: endpoint
  tc_iss :: u32
  tc_initial_rto_ms :: u32

record tcb =
  tcb_state :: state
  tcb_local :: endpoint
  tcb_remote :: endpoint
  snd_una :: u32
  snd_nxt :: u32
  snd_wnd :: u32
  max_snd_wnd :: u32
  snd_wl1 :: u32
  snd_wl2 :: u32
  iss :: u32
  cfg_iss :: u32
  rcv_nxt :: u32
  rcv_wnd :: u32
  irs :: u32
  rcv_adv_edge :: u32
  last_ack_sent :: u32
  tcb_mtu :: u16
  local_mss :: u16
  peer_mss :: u16
  pmtu_mss :: u16
  pmtu_restore_mss :: u16
  pmtu_probe_mss :: u16
  pmtu_probe_inflight :: bool
  pmtu_probe_start :: u32
  pmtu_probe_end :: u32
  pmtu_probe_at :: u64
  pmtu_probe_backoff_ms :: u32
  ts_enabled :: bool
  ts_recent :: u32
  ts_recent_stamp :: u64
  ts_offset :: u32
  ws_ok :: bool
  snd_wscale :: u8
  rcv_wscale :: u8
  sack_enabled :: bool
  ecn_enabled :: bool
  ce_observed :: bool
  send_cwr_pending :: bool
  tcb_rtx :: rtx_queue
  tcb_rack :: rack
  rack_deadline :: deadline
  tlp_deadline :: deadline
  tlp_end_seq :: "u32 option"
  tlp_is_retrans :: bool
  dup_acks :: u8
  reno_sacked :: u32
  dsack_segs :: u64
  tcb_cc :: reno
  tcb_cwnd_limited :: bool
  cwnd_limited_seq :: u32
  pipe_hiwat :: u32
  last_data_send_ms :: u64
  syn_xmit_ms :: u64
  syn_retransmitted :: bool
  syn_unacked :: bool
  snd_acked :: u64
  send_ring :: ring
  send_lent :: usize
  send_lent_conn :: u32
  conn_gen :: u32
  recv_ring :: ring
  tcb_ooo :: ooo_list
  ooo_fin :: "held_fin option"
  tcb_dsack :: "(u32 \<times> u32) option"
  now_ms :: u64
  init_rto_ms :: u32
  rto_ms :: u32
  srtt_ms :: u32
  rttvar_ms :: u32
  rtt_first_sample :: bool
  rto_deadline :: deadline
  rtx_count :: u8
  pending_ack :: bool
  delayed_ack_count :: u8
  ack_deadline :: deadline
  persist_deadline :: deadline
  persist_backoff_ms :: u32
  fin_sent :: bool
  fin_seq :: u32
  time_wait_deadline :: deadline
  time_wait_since_ms :: u64
  fin_wait2_timeout_ms :: u32
  fin_wait2_deadline :: deadline
  tcb_error :: "tcp_error option"
  tcb_tx_ring :: tx_ring
  egress_paused :: bool
  tx_csum_offload :: bool
  tcb_ip_id :: u16
  is_listener :: bool
  syn_rcvd_retries :: u8
  keepalive_idle_ms :: u32
  keepalive_intvl_ms :: u32
  keepalive_count :: u8
  keepalive_probes :: u8
  keepalive_deadline :: deadline
  user_timeout_ms :: u32
  user_timeout_deadline :: deadline
  ut_progress :: u32
  last_oow_ms :: deadline
  cookie_secret :: "u8 list"
  cookie_secret_set :: bool
  cookie_secret_explicit :: bool
  cookie_secret_used :: bool
  prev_cookie_secret :: "u8 list"
  prev_cookie_secret_set :: bool
  prev_cookie_until_ms :: u64
  tcb_secret :: "u8 list"
  secret_set :: bool
  tcb_stats :: tcb_stats

section \<open>Construction and reset\<close>

definition tcb_BUF :: "tcb \<Rightarrow> usize" where
  "tcb_BUF t = ring_capacity (recv_ring t)"

definition tcb_TXQ :: "tcb \<Rightarrow> usize" where
  "tcb_TXQ t = length (tx_slots (tcb_tx_ring t))"

definition tcb_WS :: "tcb \<Rightarrow> u8" where
  "tcb_WS t = local_ws_shift (tcb_BUF t)"

definition no_endpoint :: endpoint where
  "no_endpoint = \<lparr>ep_ip = (0, 0, 0, 0), ep_port = 0\<rparr>"

definition BUF_CAP :: usize where "BUF_CAP = 1048576"

definition reset_connection_state :: "tcb \<Rightarrow> tcb" where
  "reset_connection_state t =
     t\<lparr>conn_gen := conn_gen t + 1,
       iss := cfg_iss t,
       snd_una := cfg_iss t,
       snd_nxt := cfg_iss t,
       snd_wnd := 0,
       max_snd_wnd := 0,
       snd_wl1 := 0,
       snd_wl2 := 0,
       rcv_nxt := 0,
       rcv_wnd := of_nat (tcb_BUF t),
       irs := 0,
       rcv_adv_edge := 0,
       last_ack_sent := 0,
       local_mss := sat_sub (tcb_mtu t) HDR_LEN,
       peer_mss := DEFAULT_PEER_MSS,
       pmtu_mss := sat_sub (tcb_mtu t) HDR_LEN,
       pmtu_restore_mss := 0,
       pmtu_probe_mss := 0,
       pmtu_probe_inflight := False,
       pmtu_probe_start := 0,
       pmtu_probe_end := 0,
       pmtu_probe_at := 0,
       pmtu_probe_backoff_ms := 0,
       ts_enabled := False,
       ts_recent := 0,
       ts_recent_stamp := 0,
       ts_offset := 0,
       ws_ok := False,
       snd_wscale := 0,
       rcv_wscale := 0,
       sack_enabled := False,
       ecn_enabled := False,
       ce_observed := False,
       send_cwr_pending := False,
       tcb_rtx := rq_clear (tcb_rtx t),
       tcb_rack := rack_new,
       rack_deadline := dl_off,
       tlp_deadline := dl_off,
       tlp_end_seq := None,
       tlp_is_retrans := False,
       dup_acks := 0,
       reno_sacked := 0,
       dsack_segs := 0,
       tcb_cc := reno_new (initial_window (ucast (sat_sub (tcb_mtu t) HDR_LEN))),
       tcb_cwnd_limited := False,
       cwnd_limited_seq := cfg_iss t,
       pipe_hiwat := 0,
       last_data_send_ms := now_ms t,
       syn_xmit_ms := 0,
       syn_retransmitted := False,
       syn_unacked := False,
       snd_acked := 0,
       send_ring := ring_clear (send_ring t),
       recv_ring := ring_clear (recv_ring t),
       tcb_ooo := ooo_clear (tcb_ooo t),
       ooo_fin := None,
       tcb_dsack := None,
       rto_ms := init_rto_ms t,
       srtt_ms := 0,
       rttvar_ms := 0,
       rtt_first_sample := False,
       rto_deadline := dl_off,
       rtx_count := 0,
       pending_ack := False,
       delayed_ack_count := 0,
       ack_deadline := dl_off,
       persist_deadline := dl_off,
       persist_backoff_ms := 0,
       fin_sent := False,
       fin_seq := 0,
       time_wait_deadline := dl_off,
       time_wait_since_ms := 0,
       fin_wait2_deadline := dl_off,
       tcb_error := None,
       tcb_tx_ring := tx_clear (tcb_tx_ring t),
       syn_rcvd_retries := 0,
       keepalive_probes := 0,
       keepalive_deadline := dl_off,
       user_timeout_deadline := dl_off,
       ut_progress := 0,
       last_oow_ms := dl_off,
       tcb_stats := stats_default\<rparr>"

definition tcb_setup :: "tcb_config \<Rightarrow> tcb \<Rightarrow> tcb" where
  "tcb_setup cfg t =
     (reset_connection_state
       (t\<lparr>tcb_local := tc_local cfg,
          tcb_remote := tc_remote cfg,
          cfg_iss := tc_iss cfg,
          iss := tc_iss cfg,
          init_rto_ms := clamp_word RTO_MIN_MS RTO_MAX_MS (tc_initial_rto_ms cfg),
          tcb_mtu := MAX_MTU,
          local_mss := MAX_MTU - HDR_LEN,
          is_listener := False,
          cookie_secret := replicate 16 0,
          cookie_secret_set := False,
          cookie_secret_explicit := False,
          cookie_secret_used := False,
          prev_cookie_secret := replicate 16 0,
          prev_cookie_secret_set := False,
          prev_cookie_until_ms := 0,
          tcb_secret := replicate 16 0,
          secret_set := False,
          now_ms := 0,
          egress_paused := False,
          tx_csum_offload := False,
          send_lent := 0,
          send_lent_conn := 0,
          conn_gen := 0,
          tcb_ip_id := ucast (drop_bit 16 (tc_iss cfg)) XOR ucast (tc_iss cfg),
          keepalive_idle_ms := DEFAULT_KEEPALIVE_IDLE_MS,
          keepalive_intvl_ms := DEFAULT_KEEPALIVE_INTVL_MS,
          keepalive_count := DEFAULT_KEEPALIVE_COUNT,
          user_timeout_ms := DEFAULT_USER_TIMEOUT_MS,
          fin_wait2_timeout_ms := DEFAULT_FIN_WAIT2_TIMEOUT_MS\<rparr>))\<lparr>tcb_state := Closed\<rparr>"

definition tcb_reinit :: "tcb_config \<Rightarrow> tcb \<Rightarrow> tcb" where
  "tcb_reinit cfg t = tcb_setup cfg t"

definition reset_to_listen_or_closed :: "tcb \<Rightarrow> tcb" where
  "reset_to_listen_or_closed t =
     (let return_to_listen = is_listener t
      in (reset_connection_state t)\<lparr>tcb_remote := no_endpoint,
           tcb_state := (if return_to_listen then Listen else Closed)\<rparr>)"

text \<open>
  \<^verbatim>\<open>init_in_place\<close>: all-zero storage with the non-zero fields written, then
  \<^verbatim>\<open>setup\<close>. The capacities of the two queues are checked at compile time.
\<close>

definition tcb_zero :: "usize \<Rightarrow> usize \<Rightarrow> usize \<Rightarrow> tcb" where
  "tcb_zero BUF RTX TXQ =
     \<lparr>tcb_state = Closed, tcb_local = no_endpoint, tcb_remote = no_endpoint, snd_una = 0,
      snd_nxt = 0, snd_wnd = 0, max_snd_wnd = 0, snd_wl1 = 0, snd_wl2 = 0, iss = 0, cfg_iss = 0,
      rcv_nxt = 0, rcv_wnd = 0, irs = 0, rcv_adv_edge = 0, last_ack_sent = 0, tcb_mtu = 0,
      local_mss = 0, peer_mss = 0, pmtu_mss = 0, pmtu_restore_mss = 0, pmtu_probe_mss = 0,
      pmtu_probe_inflight = False, pmtu_probe_start = 0, pmtu_probe_end = 0, pmtu_probe_at = 0,
      pmtu_probe_backoff_ms = 0, ts_enabled = False, ts_recent = 0, ts_recent_stamp = 0,
      ts_offset = 0, ws_ok = False, snd_wscale = 0, rcv_wscale = 0, sack_enabled = False,
      ecn_enabled = False, ce_observed = False, send_cwr_pending = False, tcb_rtx = rq_new RTX,
      tcb_rack = rack_new, rack_deadline = dl_off, tlp_deadline = dl_off, tlp_end_seq = None,
      tlp_is_retrans = False, dup_acks = 0, reno_sacked = 0, dsack_segs = 0,
      tcb_cc = reno_new INITIAL_WINDOW, tcb_cwnd_limited = False, cwnd_limited_seq = 0,
      pipe_hiwat = 0, last_data_send_ms = 0, syn_xmit_ms = 0, syn_retransmitted = False,
      syn_unacked = False, snd_acked = 0,
      send_ring = \<lparr>rb_buf = replicate BUF 0, rb_head = 0, rb_tail = 0, rb_len = 0\<rparr>,
      send_lent = 0, send_lent_conn = 0, conn_gen = 0,
      recv_ring = \<lparr>rb_buf = replicate BUF 0, rb_head = 0, rb_tail = 0, rb_len = 0\<rparr>,
      tcb_ooo = (ooo_new (ooo_max_ranges BUF_CAP))\<lparr>oo_next_tag := 0\<rparr>, ooo_fin = None,
      tcb_dsack = None, now_ms = 0, init_rto_ms = 0, rto_ms = 0, srtt_ms = 0, rttvar_ms = 0,
      rtt_first_sample = False, rto_deadline = dl_off, rtx_count = 0, pending_ack = False,
      delayed_ack_count = 0, ack_deadline = dl_off, persist_deadline = dl_off,
      persist_backoff_ms = 0, fin_sent = False, fin_seq = 0, time_wait_deadline = dl_off,
      time_wait_since_ms = 0, fin_wait2_timeout_ms = 0, fin_wait2_deadline = dl_off,
      tcb_error = None, tcb_tx_ring = tx_new TXQ, egress_paused = False, tx_csum_offload = False,
      tcb_ip_id = 0, is_listener = False, syn_rcvd_retries = 0, keepalive_idle_ms = 0,
      keepalive_intvl_ms = 0, keepalive_count = 0, keepalive_probes = 0,
      keepalive_deadline = dl_off, user_timeout_ms = 0, user_timeout_deadline = dl_off,
      ut_progress = 0, last_oow_ms = dl_off, cookie_secret = replicate 16 0,
      cookie_secret_set = False, cookie_secret_explicit = False, cookie_secret_used = False,
      prev_cookie_secret = replicate 16 0, prev_cookie_secret_set = False,
      prev_cookie_until_ms = 0, tcb_secret = replicate 16 0, secret_set = False,
      tcb_stats = stats_default\<rparr>"

definition tcb_init_in_place :: "usize \<Rightarrow> usize \<Rightarrow> usize \<Rightarrow> tcb_config \<Rightarrow> tcb result" where
  "tcb_init_in_place BUF RTX TXQ cfg =
     (if \<not> is_pow2 BUF then Inl Overflow else Inr (tcb_setup cfg (tcb_zero BUF RTX TXQ)))"

section \<open>Shared helpers\<close>

definition syn_outstanding :: "tcb \<Rightarrow> bool" where
  "syn_outstanding t = syn_unacked t"

definition data_una :: "tcb \<Rightarrow> u32" where
  "data_una t = snd_una t + u32_of_bool (syn_outstanding t)"

definition unsent_bytes :: "tcb \<Rightarrow> u32" where
  "unsent_bytes t =
     (let sent_data = sat_sub (snd_nxt t - data_una t) (u32_of_bool (fin_sent t))
      in sat_sub (of_nat (rb_len (send_ring t))) sent_data)"

definition egress_full :: "tcb \<Rightarrow> bool" where
  "egress_full t \<longleftrightarrow> egress_paused t \<or> tx_is_full (tcb_tx_ring t)"

definition has_send_work :: "tcb \<Rightarrow> bool" where
  "has_send_work t \<longleftrightarrow> snd_una t \<noteq> snd_nxt t \<or> 0 < unsent_bytes t"

definition keepalive_applies :: "tcb \<Rightarrow> bool" where
  "keepalive_applies t \<longleftrightarrow>
     tcb_state t \<in> {Established, CloseWait, FinWait1, FinWait2, Closing, LastAck}"

definition tcb_pipe :: "tcb \<Rightarrow> u32" where
  "tcb_pipe t =
     (let outstanding = snd_nxt t - data_una t
      in sat_sub (rq_pipe (tcb_rtx t) outstanding) (reno_sacked t))"

definition mss_payload :: "tcb \<Rightarrow> u32" where
  "mss_payload t =
     (let cap = min (min (local_mss t) (peer_mss t)) (pmtu_mss t);
          ts = (if ts_enabled t then 12 else 0)
      in max (sat_sub (ucast cap) ts) 1)"

definition oow_allowed :: "tcb \<Rightarrow> bool \<times> tcb" where
  "oow_allowed t =
     (if (case dl_get (last_oow_ms t) of
            Some prev \<Rightarrow> prev \<le> now_ms t \<and> now_ms t - prev < OOW_RATELIMIT_MS
          | None \<Rightarrow> False)
      then (False, t\<lparr>tcb_stats := (tcb_stats t)\<lparr>st_oow_suppressed := sat_add (st_oow_suppressed (tcb_stats t)) 1\<rparr>\<rparr>)
      else (True, t\<lparr>last_oow_ms := dl_at (now_ms t)\<rparr>))"

definition arm_rto :: "tcb \<Rightarrow> tcb" where
  "arm_rto t = t\<lparr>rto_deadline := dl_at (sat_add (now_ms t) (ucast (rto_ms t)))\<rparr>"

definition update_rtt :: "u32 \<Rightarrow> tcb \<Rightarrow> tcb" where
  "update_rtt r_ms t =
     (let r = max r_ms 1;
          t = (if \<not> rtt_first_sample t
               then t\<lparr>srtt_ms := r, rttvar_ms := max (r div 2) 1, rtt_first_sample := True\<rparr>
               else let diff = abs_diff (srtt_ms t) r
                    in t\<lparr>rttvar_ms := sat_add (sat_mul 3 (rttvar_ms t)) diff div 4,
                         srtt_ms := sat_add (sat_mul 7 (srtt_ms t)) r div 8\<rparr>);
          rto = sat_add (srtt_ms t) (max 1 (sat_mul (rttvar_ms t) 4))
      in t\<lparr>rto_ms := clamp_word RTO_MIN_MS RTO_MAX_MS rto,
           tcb_rack := rack_sample_rtt (now_ms t) r (tcb_rack t)\<rparr>)"

definition ts_val :: "tcb \<Rightarrow> u32" where
  "ts_val t = ucast (now_ms t) + ts_offset t"

definition tsecr_to_ms :: "u32 \<Rightarrow> tcb \<Rightarrow> u32" where
  "tsecr_to_ms tsecr t = tsecr - ts_offset t"

definition scale_peer_window :: "u16 \<Rightarrow> tcb \<Rightarrow> u32" where
  "scale_peer_window w t = push_bit (unat (snd_wscale t)) (ucast w)"

definition disarm_timers :: "tcb \<Rightarrow> tcb" where
  "disarm_timers t =
     t\<lparr>rto_deadline := dl_off, time_wait_deadline := dl_off, fin_wait2_deadline := dl_off,
       persist_deadline := dl_off, ack_deadline := dl_off, rack_deadline := dl_off,
       tlp_deadline := dl_off, tlp_end_seq := None, keepalive_deadline := dl_off,
       keepalive_probes := 0, user_timeout_deadline := dl_off, pending_ack := False\<rparr>"

definition release_buffers_and_timers :: "tcb \<Rightarrow> tcb" where
  "release_buffers_and_timers t =
     disarm_timers
       (t\<lparr>send_ring := ring_clear (send_ring t), tcb_ooo := ooo_clear (tcb_ooo t), ooo_fin := None,
          tcb_rtx := rq_clear (tcb_rtx t), snd_nxt := snd_una t, syn_unacked := False,
          fin_sent := False\<rparr>)"

definition abort_local :: "tcb \<Rightarrow> tcb" where
  "abort_local t =
     release_buffers_and_timers
       (t\<lparr>tcb_state := Closed, tcb_error := Some ConnectionReset,
          recv_ring := ring_clear (recv_ring t)\<rparr>)"

definition close_clean :: "tcb \<Rightarrow> tcb" where
  "close_clean t = release_buffers_and_timers (t\<lparr>tcb_state := Closed\<rparr>)"

section \<open>Keys of a connection\<close>

definition host_key :: "tcb \<Rightarrow> u8 list option" where
  "host_key t =
     (if secret_set t then Some (tcb_secret t)
      else if cookie_secret_set t then Some (cookie_secret t) else None)"

definition ts_offset_with :: "u8 list \<Rightarrow> endpoint \<Rightarrow> tcb \<Rightarrow> u32" where
  "ts_offset_with key remote t = ucast (tuple_hash key (tcb_local t) remote (of_char (CHR ''T'')) 0)"

definition ts_offset_for :: "endpoint \<Rightarrow> tcb \<Rightarrow> u32" where
  "ts_offset_for remote t =
     (case host_key t of Some k \<Rightarrow> ts_offset_with k remote t | None \<Rightarrow> 0)"

definition passive_iss :: "endpoint \<Rightarrow> u32 \<Rightarrow> tcb \<Rightarrow> u32" where
  "passive_iss remote peer_isn t =
     (case host_key t of
        Some k \<Rightarrow> ucast (tuple_hash k (tcb_local t) remote (of_char (CHR ''I'')) peer_isn)
                    + ucast (now_ms t) * 250
      | None \<Rightarrow> cfg_iss t)"

definition install_cookie_key :: "u8 list \<Rightarrow> tcb \<Rightarrow> tcb" where
  "install_cookie_key key t =
     (let t = (if cookie_secret_set t \<and> cookie_secret t \<noteq> key \<and> cookie_secret_used t
               then t\<lparr>prev_cookie_secret := cookie_secret t, prev_cookie_secret_set := True,
                      prev_cookie_until_ms := sat_add (now_ms t) (2 * COOKIE_TIME_BUCKET_MS)\<rparr>
               else t);
          t = (if cookie_secret t \<noteq> key then t\<lparr>cookie_secret_used := False\<rparr> else t)
      in t\<lparr>cookie_secret := key, cookie_secret_set := True\<rparr>)"

definition set_secret :: "u8 list \<Rightarrow> tcb \<Rightarrow> tcb" where
  "set_secret secret t =
     (let t = t\<lparr>tcb_secret := secret, secret_set := True\<rparr>
      in if \<not> cookie_secret_explicit t then install_cookie_key (derive_cookie_key secret) t else t)"

definition set_cookie_secret :: "u8 list \<Rightarrow> tcb \<Rightarrow> tcb" where
  "set_cookie_secret secret t = (install_cookie_key secret t)\<lparr>cookie_secret_explicit := True\<rparr>"

end
