(* ===== verification/Tcb_Output.thy ===== *)
theory Tcb_Output
  imports Tcb
begin

unbundle bit_operations_syntax

text \<open>
  Transmission: \<^verbatim>\<open>tcb/output.rs\<close> as a whole, with \<^verbatim>\<open>maybe_arm_tlp\<close> of
  \<^verbatim>\<open>tcb/ack.rs\<close>, \<^verbatim>\<open>send_oow_ack\<close> of \<^verbatim>\<open>tcb/mod.rs\<close> and the cookie SYN-ACK of
  \<^verbatim>\<open>tcb/cookie.rs\<close>. The loop of \<^verbatim>\<open>maybe_send_data\<close> runs on the code's own iteration
  budget (\<^verbatim>\<open>loop_budget_exhausted\<close>), with the production behaviour of leaving the loop when
  it is used up.
\<close>

section \<open>Advertised window\<close>

text \<open>The part of the advertised window still open: the distance to the advertised right edge.\<close>

definition open_window :: "tcb \<Rightarrow> u32" where
  "open_window t =
     (if seq_gt (rcv_adv_edge t) (rcv_nxt t) then rcv_adv_edge t - rcv_nxt t else 0)"

definition advertised_window :: "tcb \<Rightarrow> u32" where
  "advertised_window t =
     (let free = of_nat (ring_free (recv_ring t));
          cur = open_window t;
          thresh = min (of_nat (tcb_BUF t) div 2) (ucast (local_mss t))
      in if sat_add cur thresh \<le> free then free else cur)"

definition outbound_window :: "bool \<Rightarrow> tcb \<Rightarrow> u16 \<times> u32" where
  "outbound_window is_syn t =
     (let adv = advertised_window t in
      if is_syn then let w = min adv 65535 in (ucast w, w)
      else
        let shift = unat (rcv_wscale t);
            cur = open_window t;
            fits = drop_bit shift (of_nat (ring_free (recv_ring t)));
            units = min (drop_bit shift adv) fits;
            units = (if push_bit shift units < cur then min (div_ceil cur (push_bit shift 1)) fits
                     else units);
            units = min units 65535
        in (ucast units, push_bit shift units))"

section \<open>Segment construction\<close>

record ring_slice =
  rs_off :: usize
  rs_len :: usize

definition NO_PAYLOAD :: ring_slice where
  "NO_PAYLOAD = \<lparr>rs_off = 0, rs_len = 0\<rparr>"

text \<open>Room for SACK blocks in a segment carrying \<open>payload_len\<close> bytes.\<close>

definition sack_room :: "u32 \<Rightarrow> tcb \<Rightarrow> nat" where
  "sack_room payload_len t =
     (if sack_enabled t \<and> (tcb_dsack t \<noteq> None \<or> \<not> ooo_is_empty (tcb_ooo t))
      then
        let cap = ucast (min (min (local_mss t) (peer_mss t)) (pmtu_mss t)) :: u32;
            budget = min (sat_sub cap payload_len) 40;
            fixed = (if ts_enabled t then 12 else 4)
        in unat (min (sat_sub budget fixed div 8) 4)
      else 0)"

definition ts_options :: "tcb \<Rightarrow> tcp_options" where
  "ts_options t =
     (if ts_enabled t then options_none\<lparr>op_ts := Some (ts_val t, ts_recent t)\<rparr> else options_none)"

definition sack_report :: "nat \<Rightarrow> tcb \<Rightarrow> sack_blocks" where
  "sack_report n t =
     (let sb = (case tcb_dsack t of Some (l, r) \<Rightarrow> sack_push l r sack_empty | None \<Rightarrow> sack_empty)
      in ooo_fill_sack_blocks (n - sack_len sb) (tcb_ooo t) sb)"

definition segment_options :: "u32 \<Rightarrow> tcb \<Rightarrow> tcp_options \<times> tcb" where
  "segment_options payload_len t =
     (let n = sack_room payload_len t
      in if 0 < n then ((ts_options t)\<lparr>op_sack := sack_report n t\<rparr>, t\<lparr>tcb_dsack := None\<rparr>)
         else (ts_options t, t))"

definition count_segs_out :: "tcb \<Rightarrow> tcb" where
  "count_segs_out t =
     t\<lparr>tcb_ip_id := tcb_ip_id t + 1,
       tcb_stats := (tcb_stats t)\<lparr>st_segs_out := sat_add (st_segs_out (tcb_stats t)) 1\<rparr>\<rparr>"

text \<open>A method of the egress ring run on the ring of the connection.\<close>

definition on_tx_ring :: "(tx_ring, 'a) rsm \<Rightarrow> (tcb, 'a) rsm" where
  "on_tx_ring m t = (case m (tcb_tx_ring t) of (r, ring) \<Rightarrow> (r, t\<lparr>tcb_tx_ring := ring\<rparr>))"

definition peek_fill :: "ring \<Rightarrow> usize \<Rightarrow> u8 list \<Rightarrow> bool \<times> u8 list" where
  "peek_fill r from dst = (case ring_peek_at r from dst of (n, d) \<Rightarrow> (n = length dst, d))"

text \<open>The ECN bits of an outgoing segment; CWR is sent once.\<close>

definition ecn_flags :: "u8 \<Rightarrow> bool \<Rightarrow> tcb \<Rightarrow> u8" where
  "ecn_flags flag_bits ect t =
     (if ecn_enabled t \<and> flag_bits AND FLAG_SYN = 0 \<and> flag_bits AND FLAG_ACK \<noteq> 0
      then flag_bits OR (if ce_observed t then FLAG_ECE else 0)
             OR (if send_cwr_pending t \<and> ect then FLAG_CWR else 0)
      else flag_bits)"

definition cwr_taken :: "u8 \<Rightarrow> bool \<Rightarrow> tcb \<Rightarrow> tcb" where
  "cwr_taken flag_bits ect t =
     (if ecn_enabled t \<and> flag_bits AND FLAG_SYN = 0 \<and> flag_bits AND FLAG_ACK \<noteq> 0 \<and> ect
      then t\<lparr>send_cwr_pending := False\<rparr> else t)"

definition ecn_codepoint :: "u8 \<Rightarrow> bool \<Rightarrow> tcb \<Rightarrow> u8" where
  "ecn_codepoint flag_bits ect t =
     (if ecn_enabled t \<and> flag_bits AND FLAG_SYN = 0 \<and> ect then ECN_ECT_0 else ECN_NOT_ECT)"

definition push_segment :: "u32 \<Rightarrow> u32 \<Rightarrow> u8 \<Rightarrow> u16 \<Rightarrow> tcp_options \<Rightarrow> ring_slice \<Rightarrow> u8 \<Rightarrow> (tcb, bool) rsm" where
  "push_segment seq ack fl window options payload ecn_cp t =
     on_tx_ring
       (tx_push_with
         (emit_with (ep_ip (tcb_local t)) (ep_ip (tcb_remote t)) (ep_port (tcb_local t))
            (ep_port (tcb_remote t)) seq ack fl window options (rs_len payload)
            (peek_fill (send_ring t) (rs_off payload)) (tcb_ip_id t) ecn_cp
            (\<not> tx_csum_offload t))) t"

definition note_segment :: "u8 \<Rightarrow> u32 \<Rightarrow> u32 \<Rightarrow> tcb \<Rightarrow> tcb" where
  "note_segment flag_bits ack wnd_bytes t =
     (if flag_bits AND FLAG_ACK \<noteq> 0 \<and> flag_bits AND FLAG_RST = 0
      then let edge = ack + wnd_bytes
           in t\<lparr>last_ack_sent := ack,
                rcv_adv_edge := (if seq_gt edge (rcv_adv_edge t) then edge else rcv_adv_edge t),
                rcv_wnd := wnd_bytes\<rparr>
      else t)"

definition emit_segment ::
  "u8 \<Rightarrow> u32 \<Rightarrow> u32 \<Rightarrow> tcp_options \<Rightarrow> ring_slice \<Rightarrow> bool \<Rightarrow> (tcb, bool) rsm" where
  "emit_segment flag_bits seq ack options payload ect t =
     (if tx_is_full (tcb_tx_ring t) \<or> (egress_paused t \<and> flag_bits AND (FLAG_SYN OR FLAG_RST) = 0)
      then (Inr False, t)
      else
        let (window, wnd_bytes) = outbound_window (flag_bits AND FLAG_SYN \<noteq> 0) t;
            fl = ecn_flags flag_bits ect t;
            ecn_cp = ecn_codepoint flag_bits ect t
        in bind_rs (push_segment seq ack fl window options payload ecn_cp)
             (\<lambda>queued t. (Inr queued,
                if queued then note_segment flag_bits ack wnd_bytes (count_segs_out t) else t))
             (cwr_taken flag_bits ect t))"

text \<open>The ACK rides on the segment just queued.\<close>

definition ack_sent :: "tcb \<Rightarrow> tcb" where
  "ack_sent t = t\<lparr>pending_ack := False, delayed_ack_count := 0, ack_deadline := dl_off\<rparr>"

definition emit_data_segment :: "u8 \<Rightarrow> u32 \<Rightarrow> ring_slice \<Rightarrow> bool \<Rightarrow> (tcb, bool) rsm" where
  "emit_data_segment fl seq payload ect t =
     (let (opts, t) = segment_options (of_nat (rs_len payload)) t
      in bind_rs (emit_segment fl seq (rcv_nxt t) opts payload ect)
           (\<lambda>queued t. (Inr queued, if queued then ack_sent t else t)) t)"

definition defer_ack :: "tcb \<Rightarrow> tcb" where
  "defer_ack t = t\<lparr>pending_ack := True, ack_deadline := dl_at (now_ms t)\<rparr>"

definition send_pure_ack :: "(tcb, unit) rsm" where
  "send_pure_ack t =
     (if egress_full t then (Inr (), defer_ack t)
      else
        let (opts, t) = segment_options 0 t
        in bind_rs (emit_segment FLAG_ACK (snd_nxt t) (rcv_nxt t) opts NO_PAYLOAD False)
             (\<lambda>queued t. (Inr (), if queued then ack_sent t else t)) t)"

definition emit_probe :: "u32 \<Rightarrow> (tcb, bool) rsm" where
  "emit_probe seq t =
     emit_segment FLAG_ACK seq (rcv_nxt t) (ts_options t) NO_PAYLOAD False t"

definition emit_syn :: "(tcb, bool) rsm" where
  "emit_syn t =
     emit_segment (FLAG_SYN OR FLAG_ECE OR FLAG_CWR) (iss t) 0
       \<lparr>op_mss = Some (local_mss t), op_wscale = Some (tcb_WS t), op_ts = Some (ts_val t, 0),
        op_sack_permitted = True, op_sack = sack_empty\<rparr> NO_PAYLOAD False t"

definition emit_synack :: "(tcb, bool) rsm" where
  "emit_synack t =
     emit_segment (FLAG_SYN OR FLAG_ACK OR (if ecn_enabled t then FLAG_ECE else 0)) (iss t) (rcv_nxt t)
       \<lparr>op_mss = Some (local_mss t), op_wscale = (if ws_ok t then Some (rcv_wscale t) else None),
        op_ts = (if ts_enabled t then Some (ts_val t, ts_recent t) else None),
        op_sack_permitted = sack_enabled t, op_sack = sack_empty\<rparr> NO_PAYLOAD False t"

definition emit_ctl :: "u8 \<Rightarrow> u32 \<Rightarrow> u32 \<Rightarrow> (tcb, bool) rsm" where
  "emit_ctl fl seq ack = emit_segment fl seq ack options_none NO_PAYLOAD False"

text \<open>A segment without payload to an arbitrary peer, past the connection's own bookkeeping.\<close>

definition push_bare :: "endpoint \<Rightarrow> u32 \<Rightarrow> u32 \<Rightarrow> u8 \<Rightarrow> u16 \<Rightarrow> tcp_options \<Rightarrow> (tcb, bool) rsm" where
  "push_bare remote seq ack fl window options t =
     on_tx_ring
       (tx_push_with
         (emit_with (ep_ip (tcb_local t)) (ep_ip remote) (ep_port (tcb_local t)) (ep_port remote)
            seq ack fl window options 0 (\<lambda>d. (True, d)) (tcb_ip_id t) ECN_NOT_ECT
            (\<not> tx_csum_offload t))) t"

definition remote_of :: "segment \<Rightarrow> endpoint" where
  "remote_of seg = \<lparr>ep_ip = sg_src_ip seg, ep_port = sg_src_port seg\<rparr>"

definition emit_rst_to :: "segment \<Rightarrow> u32 \<Rightarrow> u32 \<Rightarrow> u8 \<Rightarrow> (tcb, unit) rsm" where
  "emit_rst_to seg seq ack fl =
     bind_rs (push_bare (remote_of seg) seq ack fl 0 options_none)
       (\<lambda>queued t. (Inr (), if queued then count_segs_out t else t))"

definition maybe_send_window_update :: "(tcb, unit) rsm" where
  "maybe_send_window_update t =
     (if tcb_state t \<notin> {Established, FinWait1, FinWait2} then (Inr (), t)
      else
        let cur = open_window t; new = snd (outbound_window False t)
        in if sat_add cur (2 * ucast (local_mss t)) \<le> new \<and> 2 * cur \<le> new
           then send_pure_ack t else (Inr (), t))"

definition send_oow_ack :: "(tcb, unit) rsm" where
  "send_oow_ack t =
     (case oow_allowed t of (ok, t) \<Rightarrow> if ok then send_pure_ack t else (Inr (), t))"

text \<open>The cookie SYN-ACK: its sequence number, flags and options.\<close>

definition syn_peer_mss :: "segment \<Rightarrow> u16" where
  "syn_peer_mss seg =
     max (case op_mss (sg_options seg) of Some m \<Rightarrow> m | None \<Rightarrow> DEFAULT_PEER_MSS) MIN_PEER_MSS"

definition peer_wants_ecn :: "segment \<Rightarrow> bool" where
  "peer_wants_ecn seg \<longleftrightarrow> seg_has seg FLAG_ECE \<and> seg_has seg FLAG_CWR"

definition cookie_isn :: "segment \<Rightarrow> tcb \<Rightarrow> u32" where
  "cookie_isn seg t =
     compute_cookie (tcb_local t) (cookie_secret t) (now_ms t div COOKIE_TIME_BUCKET_MS)
       (remote_of seg) (cookie_mss_index (syn_peer_mss seg)) (sg_seq seg)"

definition cookie_options :: "segment \<Rightarrow> tcb \<Rightarrow> tcp_options" where
  "cookie_options seg t =
     (let opt = sg_options seg;
          now_ts = ucast (now_ms t) + ts_offset_for (remote_of seg) t
      in case op_ts opt of
           Some (peer_tsval, _) \<Rightarrow>
             \<lparr>op_mss = Some (local_mss t), op_wscale = map_option (\<lambda>_. tcb_WS t) (op_wscale opt),
              op_ts = Some (cookie_tsval now_ts (cookie_ts_bits opt (peer_wants_ecn seg)), peer_tsval),
              op_sack_permitted = op_sack_permitted opt, op_sack = sack_empty\<rparr>
         | None \<Rightarrow>
             \<lparr>op_mss = Some (local_mss t), op_wscale = None, op_ts = None, op_sack_permitted = False,
              op_sack = sack_empty\<rparr>)"

definition cookie_flags :: "segment \<Rightarrow> u8" where
  "cookie_flags seg =
     FLAG_SYN OR FLAG_ACK
     OR (if op_ts (sg_options seg) \<noteq> None \<and> peer_wants_ecn seg then FLAG_ECE else 0)"

definition emit_cookie_synack :: "segment \<Rightarrow> (tcb, unit) rsm" where
  "emit_cookie_synack seg t =
     (if tx_is_full (tcb_tx_ring t) then (Inr (), t)
      else
        bind_rs (push_bare (remote_of seg) (cookie_isn seg t) (sg_seq seg + 1) (cookie_flags seg)
                   (of_nat (min (ring_free (recv_ring t)) 65535)) (cookie_options seg t))
          (\<lambda>queued t. (Inr (), if queued then (count_segs_out t)\<lparr>cookie_secret_used := True\<rparr> else t)) t)"

section \<open>Sending data\<close>

definition sending_state :: "state \<Rightarrow> bool" where
  "sending_state s \<longleftrightarrow> s \<in> {Established, CloseWait, FinWait1, Closing, LastAck}"

definition maybe_arm_tlp :: "tcb \<Rightarrow> tcb" where
  "maybe_arm_tlp t =
     (let eligible = sack_enabled t \<and> cc_state (tcb_cc t) = CaOpen \<and> tlp_end_seq t = None
                     \<and> snd_una t \<noteq> snd_nxt t \<and> sending_state (tcb_state t)
      in if \<not> eligible then t\<lparr>tlp_deadline := dl_off\<rparr>
         else
           let srtt = (if rtt_first_sample t then ucast (srtt_ms t) else 500) :: u64;
               pto = sat_mul srtt 2;
               pto = (if rq_len (tcb_rtx t) = 1 then sat_add pto TLP_WC_DELACK_MS else pto);
               at = sat_add (now_ms t) (max pto TLP_MIN_PTO_MS);
               at = (case dl_get (rto_deadline t) of Some rto \<Rightarrow> min at rto | None \<Rightarrow> at)
           in t\<lparr>tlp_deadline := dl_at at\<rparr>)"

definition fin_owed :: "tcb \<Rightarrow> bool" where
  "fin_owed t \<longleftrightarrow> tcb_state t \<in> {FinWait1, Closing, LastAck} \<and> \<not> fin_sent t"

definition usable_window :: "tcb \<Rightarrow> u32" where
  "usable_window t =
     (let edge = snd_una t + snd_wnd t in if seq_gt edge (snd_nxt t) then edge - snd_nxt t else 0)"

definition pmtu_probe_len :: "tcb \<Rightarrow> (u32 \<times> u16) option" where
  "pmtu_probe_len t =
     (if pmtu_restore_mss t = 0 \<or> pmtu_probe_inflight t \<or> now_ms t < pmtu_probe_at t
         \<or> rtx_count t \<noteq> 0 \<or> cc_state (tcb_cc t) \<noteq> CaOpen
      then None
      else
        let next = (if pmtu_mss t < BLACKHOLE_MSS1 \<and> BLACKHOLE_MSS1 < pmtu_restore_mss t
                    then BLACKHOLE_MSS1 else pmtu_restore_mss t);
            cap = min (min (local_mss t) (peer_mss t)) next;
            ts = (if ts_enabled t then 12 else 0);
            len = sat_sub (ucast cap) ts
        in if mss_payload t < len then Some (len, next) else None)"

definition pmtu_probe_failed :: "tcb \<Rightarrow> tcb" where
  "pmtu_probe_failed t =
     (let backoff = clamp_word PMTU_PROBE_MIN_MS PMTU_PROBE_MAX_MS (sat_mul (pmtu_probe_backoff_ms t) 2)
      in t\<lparr>pmtu_probe_inflight := False, pmtu_probe_backoff_ms := backoff,
           pmtu_probe_at := sat_add (now_ms t) (ucast backoff)\<rparr>)"

definition data_flags :: "bool \<Rightarrow> bool \<Rightarrow> u8" where
  "data_flags has_data fin =
     FLAG_ACK OR (if has_data then FLAG_PSH else 0) OR (if fin then FLAG_FIN else 0)"

definition arm_rto_if_off :: "tcb \<Rightarrow> tcb" where
  "arm_rto_if_off t = (if \<not> dl_is_armed (rto_deadline t) then arm_rto t else t)"

text \<open>The bookkeeping after a first transmission is queued: its record, then the counters and
  timers.\<close>

definition push_new :: "u32 \<Rightarrow> bool \<Rightarrow> tcb \<Rightarrow> bool \<times> tcb" where
  "push_new len fin t =
     (let seq = snd_nxt t;
          (pushed, rtx) =
            rq_push \<lparr>sq_start = seq, sq_end = seq + (len + u32_of_bool fin), sq_xmit_ts = now_ms t,
                     sq_xmit_seq = 0, sq_flags = (if fin then SF_FIN else 0), sq_sent = 0\<rparr>
              (tcb_rtx t)
      in (pushed, t\<lparr>tcb_rtx := rtx\<rparr>))"

definition note_new :: "u32 \<Rightarrow> bool \<Rightarrow> tcb \<Rightarrow> tcb" where
  "note_new len fin t =
     (let seq = snd_nxt t; seq_len = len + u32_of_bool fin;
          t = (if fin then t\<lparr>fin_sent := True, fin_seq := seq + len\<rparr> else t);
          t = t\<lparr>snd_nxt := seq + seq_len, tcb_cc := reno_on_send seq_len (tcb_cc t)\<rparr>;
          t = t\<lparr>pipe_hiwat := max (pipe_hiwat t) (tcb_pipe t)\<rparr>;
          t = (if 0 < len
               then t\<lparr>last_data_send_ms := now_ms t,
                      tcb_stats := (tcb_stats t)\<lparr>st_bytes_sent :=
                        sat_add (st_bytes_sent (tcb_stats t)) (ucast len)\<rparr>\<rparr>
               else t)
      in maybe_arm_tlp (arm_rto_if_off t))"

definition emit_new :: "u32 \<Rightarrow> bool \<Rightarrow> (tcb, bool) rsm" where
  "emit_new len fin t =
     (let seq = snd_nxt t;
          payload = \<lparr>rs_off = unat (seq - data_una t), rs_len = unat len\<rparr>
      in if ucast MSS < len then (Inl Overflow, t)
         else
           bind_rs (emit_data_segment (data_flags (0 < len) fin) seq payload (0 < len)) (\<lambda>queued t.
             if \<not> queued then (Inr False, t)
             else case push_new len fin t of
                    (False, t) \<Rightarrow> (Inl Overflow, t)
                  | (True, t) \<Rightarrow> (Inr True, note_new len fin t)) t)"

definition idle_restart :: "u32 \<Rightarrow> tcb \<Rightarrow> tcb" where
  "idle_restart mss t =
     (if snd_una t = snd_nxt t \<and> ucast (rto_ms t) < sat_sub (now_ms t) (last_data_send_ms t)
      then t\<lparr>tcb_cc := on_idle_restart (initial_window mss) (tcb_cc t)\<rparr> else t)"

definition note_probe :: "u32 \<Rightarrow> u32 \<Rightarrow> u16 \<Rightarrow> tcb \<Rightarrow> tcb" where
  "note_probe seq plen cap t =
     t\<lparr>pmtu_probe_inflight := True, pmtu_probe_mss := cap, pmtu_probe_start := seq,
       pmtu_probe_end := seq + plen\<rparr>"

definition cwnd_full :: "tcb \<Rightarrow> tcb" where
  "cwnd_full t = t\<lparr>tcb_cwnd_limited := True\<rparr>"

text \<open>The length of the next new segment: a path-MTU probe, a full segment, or what sender-side
  silly window avoidance allows.\<close>

definition next_segment_len :: "u32 \<Rightarrow> tcb \<Rightarrow> (u32 \<times> u16 option) option" where
  "next_segment_len unsent t =
     (let mss = mss_payload t; avail = min (usable_window t) unsent in
      case pmtu_probe_len t of
        Some (len, cap) \<Rightarrow>
          if len \<le> avail then Some (len, Some cap)
          else if mss \<le> avail then Some (mss, None)
          else if 0 < avail \<and> (avail = unsent \<or> max_snd_wnd t div 2 \<le> avail) then Some (avail, None)
          else None
      | None \<Rightarrow>
          if mss \<le> avail then Some (mss, None)
          else if 0 < avail \<and> (avail = unsent \<or> max_snd_wnd t div 2 \<le> avail) then Some (avail, None)
          else None)"

definition send_new :: "(tcb, bool) rsm" where
  "send_new t =
     (let unsent = unsent_bytes t in
      if unsent = 0 then
        (if fin_owed t \<and> \<not> rq_is_full (tcb_rtx t) then emit_new 0 True t else (Inr False, t))
      else if rq_is_full (tcb_rtx t) then (Inr False, t)
      else if cc_cwnd (tcb_cc t) \<le> tcb_pipe t then (Inr False, cwnd_full t)
      else
        case next_segment_len unsent t of
          None \<Rightarrow> (Inr False, t)
        | Some (len, probe) \<Rightarrow>
            let t = idle_restart (mss_payload t) t;
                fin = fin_owed t \<and> len = unsent;
                seq = snd_nxt t
            in bind_rs (emit_new len fin) (\<lambda>sent t.
                 (Inr sent,
                  case (sent, probe) of
                    (True, Some cap) \<Rightarrow> note_probe seq len cap t
                  | _ \<Rightarrow> t)) t)"

text \<open>Retransmission: the probe it may answer, the split of a segment the path no longer carries,
  and the bookkeeping after it is queued.\<close>

definition retransmit_probe_check :: "seg \<Rightarrow> tcb \<Rightarrow> tcb" where
  "retransmit_probe_check s t =
     (if pmtu_probe_inflight t \<and> seq_lt (sq_start s) (pmtu_probe_end t)
         \<and> seq_gt (sq_end s) (pmtu_probe_start t)
      then pmtu_probe_failed t else t)"

definition split_for_mss :: "usize \<Rightarrow> seg \<Rightarrow> tcb \<Rightarrow> seg \<times> tcb" where
  "split_for_mss i s t =
     (if mss_payload t < sq_payload_len s
      then case rq_split i (sq_start s + mss_payload t) (tcb_rtx t) of
             (ok, rtx) \<Rightarrow>
               (if ok then (case rq_get rtx i of Some n \<Rightarrow> n | None \<Rightarrow> s) else s, t\<lparr>tcb_rtx := rtx\<rparr>)
      else (s, t))"

definition note_retransmit :: "usize \<Rightarrow> seg \<Rightarrow> u32 \<Rightarrow> bool \<Rightarrow> tcb \<Rightarrow> tcb" where
  "note_retransmit i s plen fin t =
     arm_rto_if_off
       (t\<lparr>tcb_rtx := (if plen < sq_payload_len s
                      then rq_on_partial_retransmit i (now_ms t) (ucast plen) (tcb_rtx t)
                      else rq_on_retransmit i (now_ms t) (tcb_rtx t)),
          tcb_cc := reno_on_retransmit (reno_on_send (plen + u32_of_bool fin) (tcb_cc t)),
          tcb_stats := (tcb_stats t)\<lparr>
            st_segs_retrans := sat_add (st_segs_retrans (tcb_stats t)) 1,
            st_bytes_retrans := sat_add (st_bytes_retrans (tcb_stats t)) (ucast plen),
            st_bytes_sent := sat_add (st_bytes_sent (tcb_stats t)) (ucast plen)\<rparr>\<rparr>)"

definition retransmit :: "usize \<Rightarrow> (tcb, bool) rsm" where
  "retransmit i t =
     (let mss = mss_payload t in
      case rq_get (tcb_rtx t) i of
        None \<Rightarrow> (Inr False, t)
      | Some s \<Rightarrow>
          let (s, t) = split_for_mss i s (retransmit_probe_check s t);
              plen = min (sq_payload_len s) mss;
              payload = \<lparr>rs_off = unat (sq_start s - data_una t), rs_len = unat plen\<rparr>
          in if ucast MSS < plen then (Inl Overflow, t)
             else
               let fin = sq_has s SF_FIN \<and> plen = sq_payload_len s
               in bind_rs (emit_data_segment (data_flags (0 < plen) fin) (sq_start s) payload False)
                    (\<lambda>queued t. if queued then (Inr True, note_retransmit i s plen fin t)
                                else (Inr False, t)) t)"

definition send_one :: "(tcb, bool) rsm" where
  "send_one t =
     (case rq_next_lost (tcb_rtx t) of
        (Some i, rtx) \<Rightarrow>
          let t = t\<lparr>tcb_rtx := rtx\<rparr>
          in if cc_cwnd (tcb_cc t) \<le> tcb_pipe t then (Inr False, cwnd_full t)
             else retransmit i t
      | (None, rtx) \<Rightarrow> send_new (t\<lparr>tcb_rtx := rtx\<rparr>))"

definition update_persist :: "tcb \<Rightarrow> tcb" where
  "update_persist t =
     (let stuck = 0 < unsent_bytes t \<and> snd_una t = snd_nxt t \<and> sending_state (tcb_state t)
      in if \<not> stuck then t\<lparr>persist_deadline := dl_off\<rparr>
         else if \<not> dl_is_armed (persist_deadline t)
         then let t = (if persist_backoff_ms t = 0 then t\<lparr>persist_backoff_ms := rto_ms t\<rparr> else t)
              in t\<lparr>persist_deadline := dl_at (sat_add (now_ms t) (ucast (persist_backoff_ms t)))\<rparr>
         else t)"

fun send_loop :: "nat \<Rightarrow> (tcb, unit) rsm" where
  "send_loop 0 t = (Inr (), t)"
| "send_loop (Suc budget) t =
     (if egress_full t then (Inr (), t)
      else bind_rs send_one (\<lambda>more. if more then send_loop budget else ret_rs ()) t)"

definition maybe_send_data :: "(tcb, unit) rsm" where
  "maybe_send_data t =
     (if \<not> sending_state (tcb_state t) then (Inr (), t)
      else bind_rs (send_loop (unat (of_nat (tcb_TXQ t) + 2 :: u32)))
             (\<lambda>_ t. (Inr (), update_persist t)) t)"

section \<open>What the output layer keeps\<close>

lemma mss_payload_pos: "0 < mss_payload t"
  by (simp add: mss_payload_def Let_def less_max_iff_disj)

text \<open>
  The contract of the output layer for an arbitrary predicate on the connection: if the
  elementary steps keep it, so does every composed operation, on success and on error. The
  properties of the connection that hold in every state are proved through it, once per
  elementary step.
\<close>

text \<open>The slice of the send buffer that a segment at \<open>seq\<close> carries starts at its distance from the first
  unacknowledged byte; a first transmission takes no more than is unsent, and a FIN only with the last
  of it.\<close>

definition slice_at :: "u32 \<Rightarrow> ring_slice \<Rightarrow> tcb \<Rightarrow> bool" where
  "slice_at seq pl t \<longleftrightarrow> rs_len pl = 0 \<or> rs_off pl = unat (seq - data_una t)"

definition new_ok :: "u32 \<Rightarrow> bool \<Rightarrow> tcb \<Rightarrow> bool" where
  "new_ok len fin t \<longleftrightarrow> len \<le> unsent_bytes t \<and> (fin \<longrightarrow> len = unsent_bytes t \<and> fin_owed t)"

lemma slice_at_simps [simp]:
  "slice_at seq NO_PAYLOAD t" "slice_at seq pl (cwr_taken fl ect t) = slice_at seq pl t"
  "slice_at seq pl (snd (segment_options n t)) = slice_at seq pl t"
  by (simp_all add: slice_at_def NO_PAYLOAD_def data_una_def syn_outstanding_def cwr_taken_def
      segment_options_def Let_def)

locale emit_kept =
  fixes I :: "tcb \<Rightarrow> bool"
  assumes options_kept: "I t \<Longrightarrow> I (snd (segment_options n t))"
    and cwr_taken_kept: "I t \<Longrightarrow> I (cwr_taken fl ect t)"
    and push_segment_kept: "I t \<Longrightarrow> slice_at seq pl t \<Longrightarrow> I (snd (push_segment seq ack fl w opts pl cp t))"
    and push_bare_kept: "I t \<Longrightarrow> I (snd (push_bare remote seq ack fl w opts t))"
    and count_segs_out_kept: "I t \<Longrightarrow> I (count_segs_out t)"
    and note_segment_kept: "I t \<Longrightarrow> I (note_segment fl ack n t)"
    and cookie_used_kept: "I t \<Longrightarrow> I (t\<lparr>cookie_secret_used := True\<rparr>)"
    and ack_sent_kept: "I t \<Longrightarrow> I (ack_sent t)"
    and defer_ack_kept: "I t \<Longrightarrow> I (defer_ack t)"
    and oow_allowed_kept: "I t \<Longrightarrow> I (snd (oow_allowed t))"
begin

lemmas seq_kept = bind_rs_keeps [of I] then_rs_keeps [of I]

lemma segment_kept: "I t \<Longrightarrow> slice_at seq pl t \<Longrightarrow> I (snd (emit_segment fl seq ack opts pl ect t))"
  by (auto simp: emit_segment_def Let_def split: prod.split
      intro!: seq_kept push_segment_kept cwr_taken_kept note_segment_kept count_segs_out_kept)

lemma rst_to_kept: "I t \<Longrightarrow> I (snd (emit_rst_to seg seq ack fl t))"
  by (auto simp: emit_rst_to_def intro!: seq_kept push_bare_kept count_segs_out_kept)

lemma cookie_synack_kept: "I t \<Longrightarrow> I (snd (emit_cookie_synack seg t))"
  by (auto simp: emit_cookie_synack_def
      intro!: seq_kept push_bare_kept count_segs_out_kept cookie_used_kept)

lemma data_segment_kept: "I t \<Longrightarrow> slice_at seq pl t \<Longrightarrow> I (snd (emit_data_segment fl seq pl ect t))"
  using options_kept [of t "of_nat (rs_len pl)"] slice_at_simps(3) [of seq pl "of_nat (rs_len pl)" t]
  by (auto simp: emit_data_segment_def simp del: slice_at_simps(3) split: prod.split
      intro!: seq_kept segment_kept ack_sent_kept)

lemma pure_ack_kept: "I t \<Longrightarrow> I (snd (send_pure_ack t))"
  using options_kept [of t 0]
  by (auto simp: send_pure_ack_def defer_ack_kept split: prod.split
      intro!: seq_kept segment_kept ack_sent_kept)

lemma probe_kept: "I t \<Longrightarrow> I (snd (emit_probe seq t))"
  by (simp add: emit_probe_def segment_kept)

lemma syn_kept: "I t \<Longrightarrow> I (snd (emit_syn t))"
  by (simp add: emit_syn_def segment_kept)

lemma synack_kept: "I t \<Longrightarrow> I (snd (emit_synack t))"
  by (simp add: emit_synack_def segment_kept)

lemma ctl_kept: "I t \<Longrightarrow> I (snd (emit_ctl fl seq ack t))"
  by (simp add: emit_ctl_def segment_kept)

lemma oow_ack_kept: "I t \<Longrightarrow> I (snd (send_oow_ack t))"
  using oow_allowed_kept [of t] by (auto simp: send_oow_ack_def pure_ack_kept split: prod.split)

lemma window_update_kept: "I t \<Longrightarrow> I (snd (maybe_send_window_update t))"
  by (simp add: maybe_send_window_update_def pure_ack_kept Let_def)

end

text \<open>What an emission leaves alone of the sending side.\<close>

definition tx_frame :: "tcb \<Rightarrow> state \<times> (u32 \<times> u32 \<times> bool) \<times> (bool \<times> u32) \<times> u32 \<times> ring" where
  "tx_frame t = (tcb_state t, (snd_una t, snd_nxt t, syn_unacked t), (fin_sent t, fin_seq t), iss t, send_ring t)"

lemma tx_frame_cong:
  assumes "tx_frame u = tx_frame t"
  shows "data_una u = data_una t" "unsent_bytes u = unsent_bytes t" "fin_owed u = fin_owed t"
    "new_ok len fin u = new_ok len fin t"
  using assms by (simp_all add: tx_frame_def data_una_def syn_outstanding_def unsent_bytes_def fin_owed_def new_ok_def)

interpretation txf: emit_kept "\<lambda>t. tx_frame t = v" for v
  by unfold_locales
    (simp_all add: tx_frame_def segment_options_def cwr_taken_def push_segment_def push_bare_def on_tx_ring_def
      note_segment_def ack_sent_def defer_ack_def oow_allowed_def count_segs_out_def Let_def case_prod_beta)

locale output_kept = emit_kept +
  assumes push_new_kept: "I t \<Longrightarrow> I (snd (push_new len fin t))"
    and note_new_kept: "I t \<Longrightarrow> new_ok len fin t \<Longrightarrow> I (note_new len fin t)"
    and idle_restart_kept: "I t \<Longrightarrow> I (idle_restart (mss_payload t) t)"
    and note_probe_kept: "I t \<Longrightarrow> I u \<Longrightarrow> pmtu_probe_len u = Some (plen, cap) \<Longrightarrow> I (note_probe seq plen cap t)"
    and cwnd_full_kept: "I t \<Longrightarrow> I (cwnd_full t)"
    and probe_check_kept: "I t \<Longrightarrow> I (retransmit_probe_check s t)"
    and split_kept: "I t \<Longrightarrow> I (snd (split_for_mss i s t))"
    and note_retransmit_kept: "I t \<Longrightarrow> I (note_retransmit i s plen fin t)"
    and next_lost_kept: "I t \<Longrightarrow> I (t\<lparr>tcb_rtx := snd (rq_next_lost (tcb_rtx t))\<rparr>)"
    and update_persist_kept: "I t \<Longrightarrow> I (update_persist t)"
begin

lemma push_note_kept:
  assumes "I t" and "new_ok len fin t"
  shows "I (snd (case push_new len fin t of
      (False, t) \<Rightarrow> (Inl Overflow, t) | (True, t) \<Rightarrow> (Inr True, note_new len fin t)))"
proof -
  have f: "tx_frame (snd (push_new len fin t)) = tx_frame t"
    by (simp add: tx_frame_def push_new_def Let_def case_prod_beta)
  have "new_ok len fin (snd (push_new len fin t))" using assms(2) by (simp add: tx_frame_cong(4) [OF f])
  then show ?thesis
    using push_new_kept [OF assms(1), of len fin] by (auto split: prod.split bool.split intro: note_new_kept)
qed

lemma new_kept:
  assumes "I t" and "new_ok len fin t"
  shows "I (snd (emit_new len fin t))"
proof -
  define pl where "pl = \<lparr>rs_off = unat (snd_nxt t - data_una t), rs_len = unat len\<rparr>"
  have "slice_at (snd_nxt t) pl t" by (simp add: slice_at_def pl_def)
  then have e: "I (snd (emit_data_segment fl (snd_nxt t) pl ect t))"
      "tx_frame (snd (emit_data_segment fl (snd_nxt t) pl ect t)) = tx_frame t" for fl ect
    using assms(1) by (simp_all add: data_segment_kept txf.data_segment_kept)
  define g where "g = (\<lambda>queued t. if \<not> queued then (Inr False, t) else case push_new len fin t of
        (False, t) \<Rightarrow> (Inl Overflow, t) | (True, t) \<Rightarrow> (Inr True, note_new len fin t))"
  have g: "I u \<Longrightarrow> tx_frame u = tx_frame t \<Longrightarrow> I (snd (g q u))" for q u
    using push_note_kept [of u len fin] assms(2) tx_frame_cong(4) [of u t len fin] by (simp add: g_def)
  have "I (snd (bind_rs (emit_data_segment fl (snd_nxt t) pl ect) g t))" for fl ect
    using e [of fl ect] g by (cases "emit_data_segment fl (snd_nxt t) pl ect t") (auto simp: bind_rs_def split: sum.split)
  then show ?thesis using assms(1) by (simp add: emit_new_def Let_def pl_def g_def)
qed

lemma send_new_kept:
  assumes "I t"
  shows "I (snd (send_new t))"
proof -
  have probe: "I (note_probe seq len cap u)"
    if "I u" "next_segment_len (unsent_bytes t) t = Some (len, Some cap)" for u seq len cap
    using that assms
    by (intro note_probe_kept [of u t]) (auto simp: next_segment_len_def Let_def split: option.splits if_splits)
  have len: "len \<le> unsent_bytes t" if "next_segment_len (unsent_bytes t) t = Some (len, pr)" for len pr
    using that by (auto simp: next_segment_len_def Let_def split: option.splits if_splits)
  have f: "tx_frame (idle_restart m t) = tx_frame t" for m by (simp add: tx_frame_def idle_restart_def)
  have "new_ok len (fin_owed (idle_restart m t) \<and> len = unsent_bytes t) (idle_restart m t)"
    if "next_segment_len (unsent_bytes t) t = Some (len, pr)" for len pr m
    using len [OF that] by (simp add: new_ok_def tx_frame_cong [OF f])
  then show ?thesis using assms
    by (auto simp: send_new_def Let_def new_kept cwnd_full_kept idle_restart_kept new_ok_def
        intro!: seq_kept probe split: option.split bool.split)
qed

lemma retransmit_kept:
  assumes "I t"
  shows "I (snd (retransmit i t))"
proof (cases "rq_get (tcb_rtx t) i")
  case (Some s)
  have "I (snd (split_for_mss i s (retransmit_probe_check s t)))"
    using assms by (intro split_kept probe_check_kept)
  with Some show ?thesis
    by (auto simp: retransmit_def Let_def split: prod.split
        intro!: seq_kept data_segment_kept note_retransmit_kept simp: slice_at_def)
qed (use assms in \<open>simp add: retransmit_def\<close>)

lemma one_kept:
  assumes "I t"
  shows "I (snd (send_one t))"
proof (cases "rq_next_lost (tcb_rtx t)")
  case (Pair found rtx)
  then have "I (t\<lparr>tcb_rtx := rtx\<rparr>)" using next_lost_kept [OF assms] by simp
  then show ?thesis
    by (cases found) (simp_all add: send_one_def Pair Let_def retransmit_kept send_new_kept cwnd_full_kept)
qed

lemma loop_kept: "I t \<Longrightarrow> I (snd (send_loop n t))"
proof (induction n arbitrary: t)
  case (Suc n)
  have "I (snd (bind_rs send_one (\<lambda>more. if more then send_loop n else ret_rs ()) t))"
    by (rule bind_rs_keeps [of I]) (simp_all add: Suc one_kept)
  with Suc.prems show ?case by simp
qed simp

lemma send_data_kept: "I t \<Longrightarrow> I (snd (maybe_send_data t))"
  by (auto simp: maybe_send_data_def intro!: seq_kept loop_kept update_persist_kept)

end

section \<open>The elementary steps and what they never touch\<close>

lemmas output_step_defs = segment_options_def cwr_taken_def push_segment_def push_bare_def
  on_tx_ring_def note_segment_def ack_sent_def defer_ack_def oow_allowed_def push_new_def
  note_new_def idle_restart_def note_probe_def cwnd_full_def retransmit_probe_check_def
  pmtu_probe_failed_def split_for_mss_def note_retransmit_def update_persist_def
  arm_rto_if_off_def arm_rto_def maybe_arm_tlp_def count_segs_out_def

lemmas step_splits = option.split state.split ooo_insert_result.split

text \<open>The fields the output layer only reads.\<close>

definition output_frame :: "tcb \<Rightarrow> state \<times> u64 \<times> u32 \<times> u32 \<times> u32 \<times> deadline list \<times> bool" where
  "output_frame t =
     (tcb_state t, now_ms t, rto_ms t, keepalive_idle_ms t, keepalive_intvl_ms t,
      [keepalive_deadline t, user_timeout_deadline t, time_wait_deadline t, fin_wait2_deadline t,
       rack_deadline t], egress_paused t)"

interpretation frame: output_kept "\<lambda>t. output_frame t = v" for v
  by unfold_locales
    (simp_all add: output_frame_def output_step_defs Let_def case_prod_beta split: step_splits)

end
