(* ===== verification/Tcb_Ack.thy ===== *)
theory Tcb_Ack
  imports Tcb_Output
begin

unbundle bit_operations_syntax

text \<open>
  Acknowledgement processing of \<^verbatim>\<open>tcb/ack.rs\<close>. \<open>process_ack\<close> is cut at the
  section comments of the source: the SACK blocks, the cumulative ACK, the ECN echo, loss
  detection, congestion control, the timers and the acknowledgement of our FIN, composed in the
  order of the code. The callbacks of the retransmission queue are folds over the argument
  lists the queue returns.
\<close>

section \<open>Helpers\<close>

definition max_window :: "tcb \<Rightarrow> u32" where
  "max_window t = max (max_snd_wnd t) (ucast (local_mss t))"

definition ack_acceptable :: "u32 \<Rightarrow> tcb \<Rightarrow> bool" where
  "ack_acceptable ack t \<longleftrightarrow>
     (let max_wnd = max_window t;
          back = (case u32_try_from (snd_acked t) of None \<Rightarrow> max_wnd | Some a \<Rightarrow> min a max_wnd)
      in \<not> seq_gt ack (snd_nxt t) \<and> \<not> seq_lt ack (snd_una t - back))"

definition enter_time_wait :: "tcb \<Rightarrow> tcb" where
  "enter_time_wait t =
     t\<lparr>time_wait_deadline := dl_at (sat_add (now_ms t) TIME_WAIT_MS),
       time_wait_since_ms := now_ms t, fin_wait2_deadline := dl_off,
       keepalive_deadline := dl_off, user_timeout_deadline := dl_off\<rparr>"

definition pmtu_probe_on_ack :: "tcb \<Rightarrow> tcb" where
  "pmtu_probe_on_ack t =
     (if \<not> pmtu_probe_inflight t then t
      else
        let delivered =
              (seq_ge (snd_una t) (pmtu_probe_end t) \<or>
               (case rq_find (tcb_rtx t) (pmtu_probe_start t) of
                  None \<Rightarrow> False
                | Some i \<Rightarrow> (case rq_get (tcb_rtx t) i of None \<Rightarrow> False | Some s \<Rightarrow> sq_has s SF_SACKED)))
        in if \<not> delivered then t
           else
             let t = t\<lparr>pmtu_probe_inflight := False, pmtu_mss := max (pmtu_mss t) (pmtu_probe_mss t)\<rparr>
             in if pmtu_restore_mss t \<le> pmtu_mss t then t\<lparr>pmtu_restore_mss := 0\<rparr>
                else t\<lparr>pmtu_probe_at := now_ms t\<rparr>)"

definition update_send_window :: "segment \<Rightarrow> u32 \<Rightarrow> tcb \<Rightarrow> tcb" where
  "update_send_window seg prior_una t =
     (let seq = (if seq_gt (sg_seq seg) (rcv_nxt t) then rcv_nxt t else sg_seq seg);
          fresh = seq_gt (sg_ack seg) prior_una \<or> seq_lt (snd_wl1 t) seq
                  \<or> (snd_wl1 t = seq \<and> seq_le (snd_wl2 t) (sg_ack seg))
      in if \<not> fresh then t
         else
           let wnd = scale_peer_window (sg_window seg) t
           in t\<lparr>snd_wnd := wnd, snd_wl1 := seq, snd_wl2 := sg_ack seg,
                max_snd_wnd := max (max_snd_wnd t) wnd\<rparr>)"

definition dsack_valid :: "u32 \<Rightarrow> u32 \<Rightarrow> u32 \<Rightarrow> tcb \<Rightarrow> bool \<times> tcb" where
  "dsack_valid l r mss t =
     (let max_wnd = max_window t; len = r - l in
      if \<not> seq_lt l r \<or> seq_gt r (snd_nxt t) \<or> max_wnd < len then (False, t)
      else
        let segs = ucast (div_ceil len (max mss 1));
            sum = sat_add (dsack_segs t) segs
        in if st_segs_retrans (tcb_stats t) < sum then (False, t)
           else (True, t\<lparr>dsack_segs := sum\<rparr>))"

definition note_progress :: "u32 \<Rightarrow> tcb \<Rightarrow> tcb" where
  "note_progress acked t =
     (let t = t\<lparr>persist_backoff_ms := 0\<rparr> in
      if user_timeout_ms t = 0 then t
      else if \<not> has_send_work t then t\<lparr>user_timeout_deadline := dl_off, ut_progress := 0\<rparr>
      else
        let t = t\<lparr>ut_progress := sat_add (ut_progress t) acked\<rparr>
        in if mss_payload t \<le> ut_progress t \<or> \<not> dl_is_armed (user_timeout_deadline t)
           then t\<lparr>ut_progress := 0,
                  user_timeout_deadline := dl_at (sat_add (now_ms t) (ucast (user_timeout_ms t)))\<rparr>
           else t)"

definition rack_detect :: "tcb \<Rightarrow> bool \<times> tcb" where
  "rack_detect t =
     (let mss = mss_payload t;
          reo = rack_reo_wnd (srtt_ms t) (in_loss_recovery (tcb_cc t)) (rq_sacked (tcb_rtx t)) mss
                  (tcb_rack t);
          ((marked, timeout), rtx) = detect_loss (tcb_rack t) (now_ms t) reo (tcb_rtx t)
      in (marked,
          t\<lparr>tcb_rtx := rtx,
            rack_deadline := (case timeout of
                                Some w \<Rightarrow> dl_at (sat_add (now_ms t) w) | None \<Rightarrow> dl_off)\<rparr>))"

definition newreno_detect :: "segment \<Rightarrow> u32 \<Rightarrow> u32 \<Rightarrow> tcb \<Rightarrow> (bool \<times> bool) \<times> tcb" where
  "newreno_detect seg acked wnd_before t =
     (if acked = 0 then
        let dup = sg_payload seg = [] \<and> \<not> seg_has seg FLAG_FIN \<and> snd_una t \<noteq> snd_nxt t
                  \<and> snd_wnd t = wnd_before
        in if dup
           then
             let t = t\<lparr>dup_acks := sat_add (dup_acks t) 1\<rparr>
             in if dup_acks t = 3 \<and> \<not> in_loss_recovery (tcb_cc t)
                then ((True, True), t\<lparr>tcb_rtx := rq_mark_lost 0 (tcb_rtx t)\<rparr>)
                else ((False, dup), t)
           else ((False, dup), t)
      else if \<not> sack_enabled t \<and> cc_state (tcb_cc t) = CaRecovery
              \<and> seq_lt (snd_una t) (cc_recovery_point (tcb_cc t))
      then ((True, False), t\<lparr>tcb_rtx := rq_mark_lost 0 (tcb_rtx t)\<rparr>)
      else ((False, False), t))"

definition enter_fast_recovery :: "u32 \<Rightarrow> tcb \<Rightarrow> tcb" where
  "enter_fast_recovery flight t =
     (let mss = mss_payload t
      in t\<lparr>tcb_cc := (if cc_state (tcb_cc t) = CaCwr then cwr_to_recovery (tcb_cc t)
                      else enter_recovery flight (snd_una t) (snd_nxt t) mss (tcb_cc t)),
           tcb_stats := (tcb_stats t)\<lparr>st_fast_recoveries :=
             sat_add (st_fast_recoveries (tcb_stats t)) 1\<rparr>,
           tlp_end_seq := None, tlp_deadline := dl_off\<rparr>)"

definition take_cwnd_limited :: "tcb \<Rightarrow> bool \<times> tcb" where
  "take_cwnd_limited t =
     (let in_ss = cc_cwnd (tcb_cc t) < cc_ssthresh (tcb_cc t);
          limited = tcb_cwnd_limited t \<or> (in_ss \<and> cc_cwnd (tcb_cc t) < sat_mul (pipe_hiwat t) 2)
      in (limited,
          if seq_ge (snd_una t) (cwnd_limited_seq t)
          then t\<lparr>tcb_cwnd_limited := False, pipe_hiwat := tcb_pipe t, cwnd_limited_seq := snd_nxt t\<rparr>
          else t))"

definition tlp_on_ack :: "u32 \<Rightarrow> (u32 \<times> u32) option \<Rightarrow> bool \<Rightarrow> u32 \<Rightarrow> tcb \<Rightarrow> tcb" where
  "tlp_on_ack ack dsack sack delivered t =
     (case tlp_end_seq t of
        None \<Rightarrow> t
      | Some end_seq \<Rightarrow>
          if \<not> seq_ge ack end_seq then t
          else if \<not> tlp_is_retrans t then t\<lparr>tlp_end_seq := None\<rparr>
          else if (case dsack of Some (_, r) \<Rightarrow> r = end_seq | None \<Rightarrow> False) then t\<lparr>tlp_end_seq := None\<rparr>
          else if seq_gt ack end_seq \<or> (\<not> sack \<and> delivered = 0)
          then
            let t = t\<lparr>tlp_end_seq := None\<rparr>
            in if cc_state (tcb_cc t) = CaOpen
               then let mss = mss_payload t; w = cc_cwnd (tcb_cc t);
                        thresh = max (w div 2) (sat_mul mss 2)
                    in t\<lparr>tcb_cc := (tcb_cc t)\<lparr>cc_ssthresh := thresh, cc_cwnd := thresh\<rparr>\<rparr>
               else t
          else t)"

section \<open>Stages of \<open>process_ack\<close>\<close>

definition ack_tsecr_ms :: "segment \<Rightarrow> tcb \<Rightarrow> u32 option" where
  "ack_tsecr_ms seg t =
     (case (ts_enabled t, op_ts (sg_options seg)) of
        (True, Some (_, e)) \<Rightarrow> if e \<noteq> 0 then Some (tsecr_to_ms e t) else None
      | _ \<Rightarrow> None)"

definition sack_block :: "u32 \<times> u32 \<Rightarrow> tcb \<Rightarrow> u32 \<times> tcb" where
  "sack_block block t =
     (case rq_sack (fst block) (snd block) (tcb_rtx t) of
        (n, calls, rtx) \<Rightarrow>
          (n, t\<lparr>tcb_rtx := rtx,
                tcb_rack := fold (\<lambda>s k. rack_on_delivered s (now_ms t) None k) calls (tcb_rack t)\<rparr>))"

fun sack_blocks_stage :: "(u32 \<times> u32) list \<Rightarrow> u32 \<Rightarrow> tcb \<Rightarrow> u32 \<times> tcb" where
  "sack_blocks_stage [] delivered t = (delivered, t)"
| "sack_blocks_stage (b # bs) delivered t =
     (case sack_block b t of (n, t) \<Rightarrow> sack_blocks_stage bs (sat_add delivered n) t)"

text \<open>A believed D-SACK: RACK widens its window, and the episode is undone if it was spurious.\<close>

definition dsack_seen :: "u32 \<Rightarrow> u32 \<Rightarrow> u32 \<Rightarrow> tcb \<Rightarrow> tcb" where
  "dsack_seen l r mss t =
     (let (undone, cc) = reno_on_dsack l r mss (tcb_cc t);
          k = rack_on_dsack (snd_una t) (snd_nxt t) (tcb_rack t)
      in t\<lparr>tcb_stats := (tcb_stats t)\<lparr>st_dsacks_received := sat_add (st_dsacks_received (tcb_stats t)) 1\<rparr>,
           tcb_cc := cc,
           tcb_rack := (if undone then rack_on_recovery_exit k else k),
           tcb_rtx := (if undone then rq_unmark_lost (tcb_rtx t) else tcb_rtx t)\<rparr>)"

definition check_dsack :: "u32 \<Rightarrow> u32 \<Rightarrow> u32 \<Rightarrow> tcb \<Rightarrow> (u32 \<times> u32) option \<times> tcb" where
  "check_dsack l r mss t =
     (case dsack_valid l r mss t of
        (ok, t) \<Rightarrow> if ok then (Some (l, r), dsack_seen l r mss t) else (None, t))"

definition first_is_dsack :: "u32 \<Rightarrow> (u32 \<times> u32) list \<Rightarrow> bool" where
  "first_is_dsack ack blocks \<longleftrightarrow>
     (case blocks of
        [] \<Rightarrow> False
      | (l0, r0) # rest \<Rightarrow>
          seq_le r0 ack \<or> (case rest of (l1, r1) # _ \<Rightarrow> seq_le l1 l0 \<and> seq_le r0 r1 | [] \<Rightarrow> False))"

text \<open>The D-SACK of an ACK, if it is believed, then its SACK blocks: bytes newly delivered,
  the D-SACK, whether any block was present.\<close>

definition ack_sack_stage :: "segment \<Rightarrow> u32 \<Rightarrow> tcb \<Rightarrow> (u32 \<times> (u32 \<times> u32) option \<times> bool) \<times> tcb" where
  "ack_sack_stage seg mss t =
     (let blocks = sack_as_slice (op_sack (sg_options seg)) in
      if \<not> sack_enabled t \<or> blocks = [] then ((0, None, False), t)
      else
        let is_dsack = first_is_dsack (sg_ack seg) blocks;
            (dsack, t) = (if is_dsack then check_dsack (fst (hd blocks)) (snd (hd blocks)) mss t
                          else (None, t));
            (delivered, t) = sack_blocks_stage (drop (if is_dsack then 1 else 0) blocks) 0 t
        in ((delivered, dsack, True), t))"

text \<open>What the callback of \<^verbatim>\<open>ack_to\<close> accumulates: RACK, the oldest send time of a segment
  never retransmitted, the newest send time, and whether a retransmitted segment was covered.\<close>

definition ack_to_call :: "u64 \<Rightarrow> u32 option \<Rightarrow> seg \<times> bool \<Rightarrow> rack \<times> u64 option \<times> u64 \<times> bool
    \<Rightarrow> rack \<times> u64 option \<times> u64 \<times> bool" where
  "ack_to_call now tsecr_ms call acc =
     (case (call, acc) of
        ((s, newly), (k, oldest, newest, retrans)) \<Rightarrow>
          if newly
          then (rack_on_delivered s now tsecr_ms k,
                if sq_has s SF_EVER_RETRANS then oldest
                else Some (case oldest of None \<Rightarrow> sq_xmit_ts s | Some x \<Rightarrow> min x (sq_xmit_ts s)),
                max newest (sq_xmit_ts s), retrans \<or> sq_has s SF_EVER_RETRANS)
          else acc)"

definition ack_rtt_sample :: "u64 \<Rightarrow> u32 option \<Rightarrow> u64 option \<Rightarrow> u64 \<Rightarrow> bool \<Rightarrow> u32 option" where
  "ack_rtt_sample now tsecr_ms oldest newest retrans_acked =
     (if retrans_acked
      then (case tsecr_ms of
              None \<Rightarrow> None
            | Some ts \<Rightarrow> if \<not> seq_gt ts (ucast newest) then Some (ucast now - ts) else None)
      else (case oldest of None \<Rightarrow> None | Some x \<Rightarrow> u32_try_from (sat_sub now x)))"

text \<open>The queue and RACK see the cumulative ACK: the RTT sample, the SACKed bytes removed.\<close>

definition queue_acked :: "u32 \<Rightarrow> u32 option \<Rightarrow> tcb \<Rightarrow> (u32 option \<times> u32) \<times> tcb" where
  "queue_acked ack tsecr_ms t =
     (let (_, calls, rtx) = rq_ack_to ack (tcb_rtx t);
          (k, oldest_ts, newest_ts, retrans_acked) =
            fold (ack_to_call (now_ms t) tsecr_ms) calls (tcb_rack t, None, 0, False)
      in ((ack_rtt_sample (now_ms t) tsecr_ms oldest_ts newest_ts retrans_acked,
           sat_sub (rq_sacked (tcb_rtx t)) (rq_sacked rtx)),
          t\<lparr>tcb_rtx := rtx, tcb_rack := k\<rparr>))"

definition advance_una :: "u32 \<Rightarrow> u32 \<Rightarrow> tcb \<Rightarrow> tcb" where
  "advance_una ack data_acked t =
     t\<lparr>send_ring := ring_consume (send_ring t) (unat data_acked), snd_una := ack,
       snd_acked := sat_add (snd_acked t) (ucast (ack - snd_una t)), syn_unacked := False,
       dup_acks := 0\<rparr>"

definition take_rtt_sample :: "u32 option \<Rightarrow> tcb \<Rightarrow> tcb" where
  "take_rtt_sample sample t =
     (case sample of Some r \<Rightarrow> if r < 60000 then update_rtt r t else t | None \<Rightarrow> t)"

definition fin_covered :: "u32 \<Rightarrow> tcb \<Rightarrow> bool" where
  "fin_covered ack t \<longleftrightarrow> fin_sent t \<and> seq_le (snd_una t) (fin_seq t) \<and> seq_gt ack (fin_seq t)"

definition ack_cumulative :: "u32 \<Rightarrow> u32 \<Rightarrow> u32 option \<Rightarrow> u32 \<Rightarrow> tcb \<Rightarrow> u32 \<times> tcb" where
  "ack_cumulative ack mss tsecr_ms delivered t =
     (let acked = ack - snd_una t in
      if acked = 0 then (delivered, t)
      else
        let syn_acked = u32_of_bool (syn_outstanding t);
            fin_acked = u32_of_bool (fin_covered ack t);
            ((sample, sacked_removed), t) = queue_acked ack tsecr_ms t;
            reno_eaten = min (sat_sub acked mss) (reno_sacked t);
            t = t\<lparr>reno_sacked := reno_sacked t - reno_eaten\<rparr>;
            delivered = sat_sub (sat_add delivered (sat_sub (sat_sub acked sacked_removed) reno_eaten))
                          syn_acked;
            data_acked = sat_sub (sat_sub acked fin_acked) syn_acked
        in (delivered,
            note_progress (sat_add data_acked fin_acked)
              (take_rtt_sample sample (advance_una ack data_acked t))))"

definition ack_ecn_stage :: "segment \<Rightarrow> u32 \<Rightarrow> u32 \<Rightarrow> tcb \<Rightarrow> tcb" where
  "ack_ecn_stage seg prior_flight mss t =
     (if ecn_enabled t \<and> seg_has seg FLAG_ECE \<and> cc_state (tcb_cc t) = CaOpen \<and> snd_una t \<noteq> snd_nxt t
      then t\<lparr>tcb_cc := enter_cwr prior_flight (snd_nxt t) mss (tcb_cc t), send_cwr_pending := True\<rparr>
      else t)"

text \<open>Loss detection: whether anything was newly marked lost, and the bytes delivered. Without
  SACK, a duplicate ACK counts as one delivered segment.\<close>

definition count_dup_ack :: "bool \<Rightarrow> u32 \<Rightarrow> u32 \<Rightarrow> tcb \<Rightarrow> u32 \<times> tcb" where
  "count_dup_ack dup mss delivered t =
     (if dup \<and> \<not> sack_enabled t \<and> sat_add (reno_sacked t) mss \<le> snd_nxt t - data_una t
      then (sat_add delivered mss, t\<lparr>reno_sacked := reno_sacked t + mss\<rparr>)
      else (delivered, t))"

definition dup_ack_stage ::
  "segment \<Rightarrow> u32 \<Rightarrow> u32 \<Rightarrow> u32 \<Rightarrow> u32 \<Rightarrow> tcb \<Rightarrow> (bool \<times> u32) \<times> tcb" where
  "dup_ack_stage seg acked wnd_before mss delivered t =
     (let ((lost, dup), t) = newreno_detect seg acked wnd_before t;
          (delivered, t) = count_dup_ack dup mss delivered t
      in ((lost, delivered), t))"

definition recovery_check :: "u32 \<Rightarrow> tcb \<Rightarrow> tcb" where
  "recovery_check prior_flight t =
     (let t = t\<lparr>reno_sacked := min (reno_sacked t) (snd_nxt t - data_una t)\<rparr>
      in if 0 < rq_lost (tcb_rtx t) \<and> \<not> in_loss_recovery (tcb_cc t)
         then enter_fast_recovery prior_flight t else t)"

definition ack_loss_stage ::
  "segment \<Rightarrow> u32 \<Rightarrow> u32 \<Rightarrow> u32 \<Rightarrow> u32 \<Rightarrow> bool \<Rightarrow> u32 \<Rightarrow> tcb \<Rightarrow> (bool \<times> u32) \<times> tcb" where
  "ack_loss_stage seg acked wnd_before prior_flight mss sack_present delivered t =
     (let (rack_lost, t) = (if sack_enabled t then rack_detect t else (False, t));
          ((lost, delivered), t) =
            (if \<not> sack_present then dup_ack_stage seg acked wnd_before mss delivered t
             else ((False, delivered), t))
      in ((rack_lost \<or> lost, delivered), recovery_check prior_flight t))"

definition exit_check :: "tcb \<Rightarrow> tcb" where
  "exit_check t =
     (let (exited, cc) = maybe_exit (snd_una t) (tcb_cc t)
      in t\<lparr>tcb_cc := cc, tcb_rack := (if exited then rack_on_recovery_exit (tcb_rack t) else tcb_rack t)\<rparr>)"

definition cwnd_update :: "u32 \<Rightarrow> u32 \<Rightarrow> bool \<Rightarrow> bool \<Rightarrow> tcb \<Rightarrow> tcb" where
  "cwnd_update delivered mss safe_ack limited t =
     t\<lparr>tcb_cc := (if in_reduction (tcb_cc t)
                  then prr_update delivered (tcb_pipe t) mss safe_ack (tcb_cc t)
                  else reno_on_ack delivered mss limited (tcb_cc t))\<rparr>"

definition ack_cc_stage :: "u32 \<Rightarrow> u32 \<Rightarrow> u32 \<Rightarrow> bool \<Rightarrow> tcb \<Rightarrow> tcb" where
  "ack_cc_stage delivered mss acked newly_lost t =
     (case take_cwnd_limited (exit_check t) of
        (limited, t) \<Rightarrow> cwnd_update delivered mss (0 < acked \<and> \<not> newly_lost) limited t)"

definition rtx_timers_off :: "tcb \<Rightarrow> tcb" where
  "rtx_timers_off t = t\<lparr>rto_deadline := dl_off, tlp_deadline := dl_off, rack_deadline := dl_off\<rparr>"

definition ack_timer_stage :: "u32 \<Rightarrow> tcb \<Rightarrow> tcb" where
  "ack_timer_stage acked t =
     maybe_arm_tlp
       (if snd_una t = snd_nxt t then rtx_timers_off t else if 0 < acked then arm_rto t else t)"

definition enter_fin_wait2 :: "tcb \<Rightarrow> tcb" where
  "enter_fin_wait2 t =
     t\<lparr>tcb_state := FinWait2, user_timeout_deadline := dl_off,
       fin_wait2_deadline := (if fin_wait2_timeout_ms t \<noteq> 0
                              then dl_at (sat_add (now_ms t) (ucast (fin_wait2_timeout_ms t)))
                              else fin_wait2_deadline t)\<rparr>"

definition ack_fin_stage :: "tcb \<Rightarrow> tcb" where
  "ack_fin_stage t =
     (if fin_sent t \<and> snd_una t = snd_nxt t
      then (case tcb_state t of
              FinWait1 \<Rightarrow> enter_fin_wait2 t
            | Closing \<Rightarrow> (enter_time_wait t)\<lparr>tcb_state := TimeWait\<rparr>
            | LastAck \<Rightarrow> close_clean t
            | _ \<Rightarrow> t)
      else t)"

text \<open>The stages in order, for an ACK at or above \<open>SND.UNA\<close>.\<close>

definition ack_stages :: "segment \<Rightarrow> tcb \<Rightarrow> tcb" where
  "ack_stages seg t =
     (let ack = sg_ack seg;
          prior_una = snd_una t;
          prior_flight = snd_nxt t - data_una t;
          mss = mss_payload t;
          tsecr_ms = ack_tsecr_ms seg t;
          t = t\<lparr>tcb_rack := rack_on_ack_start (tcb_rack t)\<rparr>;
          ((delivered, dsack, sack_present), t) = ack_sack_stage seg mss t;
          acked = ack - prior_una;
          (delivered, t) = ack_cumulative ack mss tsecr_ms delivered t;
          t = pmtu_probe_on_ack t;
          wnd_before = snd_wnd t;
          t = update_send_window seg prior_una t;
          t = ack_ecn_stage seg prior_flight mss t;
          ((newly_lost, delivered), t) =
            ack_loss_stage seg acked wnd_before prior_flight mss sack_present delivered t;
          t = tlp_on_ack ack dsack sack_present delivered t;
          t = ack_cc_stage delivered mss acked newly_lost t
      in ack_fin_stage (ack_timer_stage acked t))"

definition process_ack :: "segment \<Rightarrow> tcb \<Rightarrow> tcb" where
  "process_ack seg t =
     (let t = t\<lparr>rtx_count := 0\<rparr>
      in if seq_lt (sg_ack seg) (snd_una t) then t else ack_stages seg t)"

section \<open>What acknowledgement processing keeps\<close>

text \<open>A cumulative acknowledgement of something in flight, and the data bytes in it.\<close>

definition acks_new :: "u32 \<Rightarrow> u32 \<Rightarrow> tcb \<Rightarrow> bool" where
  "acks_new ack n t \<longleftrightarrow>
     ack \<noteq> snd_una t \<and> \<not> seq_gt ack (snd_nxt t) \<and> \<not> seq_lt ack (snd_una t)
     \<and> n = sat_sub (sat_sub (ack - snd_una t) (u32_of_bool (fin_covered ack t)))
             (u32_of_bool (syn_outstanding t))"

lemma acks_new_cong: "tx_frame u = tx_frame t \<Longrightarrow> acks_new ack n u = acks_new ack n t"
  by (simp add: tx_frame_def acks_new_def fin_covered_def syn_outstanding_def)

locale sack_kept =
  fixes I :: "tcb \<Rightarrow> bool"
  assumes rack_kept: "I t \<Longrightarrow> I (t\<lparr>tcb_rack := k\<rparr>)"
    and reno_sacked_kept: "I t \<Longrightarrow> I (t\<lparr>reno_sacked := n\<rparr>)"
    and dsack_valid_kept: "I t \<Longrightarrow> I (snd (dsack_valid l r mss t))"
    and dsack_seen_kept: "I t \<Longrightarrow> I (dsack_seen l r mss t)"
    and sack_block_kept: "I t \<Longrightarrow> I (snd (sack_block blk t))"
    and queue_acked_kept: "I t \<Longrightarrow> I (snd (queue_acked ack ts t))"
begin

lemma check_dsack_kept: "I t \<Longrightarrow> I (snd (check_dsack l r mss t))"
  using dsack_valid_kept [of t l r mss]
  by (simp add: check_dsack_def dsack_seen_kept case_prod_beta)

lemma sack_blocks_kept: "I t \<Longrightarrow> I (snd (sack_blocks_stage bs d t))"
proof (induction bs arbitrary: d t)
  case (Cons b bs)
  then show ?case using sack_block_kept [OF Cons.prems, of b] by (simp add: case_prod_beta)
qed simp

lemma sack_stage_kept: "I t \<Longrightarrow> I (snd (ack_sack_stage seg mss t))"
  using check_dsack_kept [of t] sack_blocks_kept
  by (simp add: ack_sack_stage_def Let_def case_prod_beta)

end

interpretation ackf: sack_kept "\<lambda>t. tx_frame t = v" for v
  by unfold_locales
    (simp_all add: tx_frame_def dsack_valid_def dsack_seen_def sack_block_def queue_acked_def Let_def
      case_prod_beta split: option.split)

locale ack_kept = sack_kept +
  assumes alive_kept: "I t \<Longrightarrow> I (t\<lparr>rtx_count := 0\<rparr>)"
    and advance_una_kept: "I t \<Longrightarrow> acks_new ack n t \<Longrightarrow> I (advance_una ack n t)"
    and rtt_kept: "I t \<Longrightarrow> I (update_rtt r t)"
    and progress_kept: "I t \<Longrightarrow> I (note_progress n t)"
    and probe_on_ack_kept: "I t \<Longrightarrow> I (pmtu_probe_on_ack t)"
    and send_window_kept: "I t \<Longrightarrow> I (update_send_window seg una t)"
    and ecn_stage_kept: "I t \<Longrightarrow> 0 < mss \<Longrightarrow> I (ack_ecn_stage seg n mss t)"
    and rack_detect_kept: "I t \<Longrightarrow> I (snd (rack_detect t))"
    and newreno_kept: "I t \<Longrightarrow> I (snd (newreno_detect seg n w t))"
    and fast_recovery_kept: "I t \<Longrightarrow> I (enter_fast_recovery n t)"
    and tlp_on_ack_kept: "I t \<Longrightarrow> I (tlp_on_ack ack dopt present n t)"
    and exit_check_kept: "I t \<Longrightarrow> I (exit_check t)"
    and cwnd_limited_kept: "I t \<Longrightarrow> I (snd (take_cwnd_limited t))"
    and cwnd_update_kept: "I t \<Longrightarrow> 0 < mss \<Longrightarrow> I (cwnd_update d mss safe lim t)"
    and timers_off_kept: "I t \<Longrightarrow> I (rtx_timers_off t)"
    and arm_rto_kept: "I t \<Longrightarrow> I (arm_rto t)"
    and arm_tlp_kept: "I t \<Longrightarrow> I (maybe_arm_tlp t)"
    and fin_stage_kept: "I t \<Longrightarrow> I (ack_fin_stage t)"
begin

lemma cumulative_kept:
  assumes "I t" and "\<not> seq_gt ack (snd_nxt t)" and "\<not> seq_lt ack (snd_una t)"
  shows "I (snd (ack_cumulative ack mss ts d t))"
proof (cases "ack = snd_una t")
  case True
  then show ?thesis using assms(1) by (simp add: ack_cumulative_def)
next
  case False
  obtain x y u where u: "queue_acked ack ts t = ((x, y), u)" by (metis surj_pair)
  then have "I u" using queue_acked_kept [OF assms(1), of ack ts] by simp
  then have r: "I (u\<lparr>reno_sacked := n\<rparr>)" for n by (rule reno_sacked_kept)
  define l where "l = sat_sub (sat_sub (ack - snd_una t) (u32_of_bool (fin_covered ack t)))
    (u32_of_bool (syn_outstanding t))"
  have f: "tx_frame (u\<lparr>reno_sacked := n\<rparr>) = tx_frame t" for n
    using ackf.queue_acked_kept [OF refl, of ack ts t] u by (simp add: tx_frame_def)
  have "acks_new ack l t" using assms(2,3) False by (simp add: acks_new_def l_def)
  then have "acks_new ack l (u\<lparr>reno_sacked := n\<rparr>)" for n using acks_new_cong [OF f] by simp
  then have "I (note_progress m (take_rtt_sample x (advance_una ack l (u\<lparr>reno_sacked := n\<rparr>))))" for m n
    using r by (intro progress_kept) (simp add: take_rtt_sample_def rtt_kept advance_una_kept split: option.split)
  with u False show ?thesis by (simp add: ack_cumulative_def Let_def l_def)
qed

lemma dup_ack_kept: "I t \<Longrightarrow> I (snd (dup_ack_stage seg n w mss d t))"
  using newreno_kept [of t seg n w]
  by (simp add: dup_ack_stage_def count_dup_ack_def reno_sacked_kept case_prod_beta)

lemma loss_stage_kept:
  assumes "I t"
  shows "I (snd (ack_loss_stage seg n w fl mss sp d t))"
proof -
  obtain b u where u: "(if sack_enabled t then rack_detect t else (False, t)) = (b, u)" by (metis surj_pair)
  then have "I u" using rack_detect_kept [OF assms] assms by (auto split: if_splits)
  obtain x y v where v: "(if \<not> sp then dup_ack_stage seg n w mss d u else ((False, d), u)) = ((x, y), v)"
    by (metis surj_pair)
  then have "I v" using dup_ack_kept [OF \<open>I u\<close>, of seg n w mss d] \<open>I u\<close> by (auto split: if_splits)
  then have "I (recovery_check fl v)"
    by (simp add: recovery_check_def Let_def fast_recovery_kept reno_sacked_kept)
  with u v show ?thesis by (simp add: ack_loss_stage_def)
qed

lemma cc_stage_kept: "I t \<Longrightarrow> 0 < mss \<Longrightarrow> I (ack_cc_stage d mss n l t)"
  using cwnd_limited_kept [OF exit_check_kept, of t]
  by (simp add: ack_cc_stage_def cwnd_update_kept case_prod_beta)

lemma timer_stage_kept: "I t \<Longrightarrow> I (ack_timer_stage n t)"
  by (simp add: ack_timer_stage_def arm_tlp_kept timers_off_kept arm_rto_kept)

lemma stages_kept:
  assumes "I t" and "\<not> seq_gt (sg_ack seg) (snd_nxt t)" and "\<not> seq_lt (sg_ack seg) (snd_una t)"
  shows "I (ack_stages seg t)"
proof -
  have mss: "0 < mss_payload t" by (rule mss_payload_pos)
  define t1 where "t1 = t\<lparr>tcb_rack := rack_on_ack_start (tcb_rack t)\<rparr>"
  obtain d ds sp t2 where t2: "ack_sack_stage seg (mss_payload t) t1 = ((d, ds, sp), t2)" by (metis surj_pair)
  have "I t2" using sack_stage_kept [of t1 seg "mss_payload t"] assms(1) t2 by (simp add: t1_def rack_kept)
  moreover have "tx_frame t2 = tx_frame t"
    using ackf.sack_stage_kept [OF refl, of seg "mss_payload t" t1] t2 by (simp add: t1_def tx_frame_def)
  ultimately have t2_ok: "I t2" "\<not> seq_gt (sg_ack seg) (snd_nxt t2)" "\<not> seq_lt (sg_ack seg) (snd_una t2)"
    using assms(2,3) by (simp_all add: tx_frame_def)
  obtain d' t3 where t3: "ack_cumulative (sg_ack seg) (mss_payload t) (ack_tsecr_ms seg t) d t2 = (d', t3)"
    by (metis surj_pair)
  have "I t3" using cumulative_kept [OF t2_ok, of "mss_payload t" "ack_tsecr_ms seg t" d] t3
    by simp
  define t4 where "t4 = ack_ecn_stage seg (snd_nxt t - data_una t) (mss_payload t)
                          (update_send_window seg (snd_una t) (pmtu_probe_on_ack t3))"
  have "I t4" unfolding t4_def using \<open>I t3\<close> mss
    by (intro ecn_stage_kept send_window_kept probe_on_ack_kept)
  obtain nl d'' t5 where t5: "ack_loss_stage seg (sg_ack seg - snd_una t) (snd_wnd (pmtu_probe_on_ack t3))
      (snd_nxt t - data_una t) (mss_payload t) sp d' t4 = ((nl, d''), t5)" by (metis surj_pair)
  have "I t5" using loss_stage_kept [OF \<open>I t4\<close>, of seg "sg_ack seg - snd_una t" "snd_wnd (pmtu_probe_on_ack t3)"
      "snd_nxt t - data_una t" "mss_payload t" sp d'] t5 by simp
  then have "I (ack_fin_stage (ack_timer_stage n (ack_cc_stage d'' (mss_payload t) m nl
      (tlp_on_ack (sg_ack seg) ds sp d'' t5))))" for n m
    using mss by (intro fin_stage_kept timer_stage_kept cc_stage_kept tlp_on_ack_kept)
  then show ?thesis
    by (simp add: ack_stages_def Let_def t1_def [symmetric] t2 t3 t4_def [symmetric] t5)
qed

lemma process_ack_kept: "I t \<Longrightarrow> \<not> seq_gt (sg_ack seg) (snd_nxt t) \<Longrightarrow> I (process_ack seg t)"
  by (simp add: process_ack_def Let_def alive_kept stages_kept)

end

end
