(* ===== verification/Tcb_Input.thy ===== *)
theory Tcb_Input
  imports Tcb_Ack
begin

unbundle bit_operations_syntax

text \<open>
  Inbound segments: \<^verbatim>\<open>tcb/input.rs\<close> and the cookie validation and promotion of
  \<^verbatim>\<open>tcb/cookie.rs\<close>. Reassembly first (text, FIN, acknowledgement scheduling), then the
  synchronized states, the handshake states, the listener, and the dispatcher
  \<^verbatim>\<open>inject_segment\<close>.
\<close>

section \<open>Acceptance tests\<close>

definition acceptable :: "u32 \<Rightarrow> u32 \<Rightarrow> tcb \<Rightarrow> bool" where
  "acceptable seq seg_len t \<longleftrightarrow>
     (let wnd = of_nat (ring_free (recv_ring t)); nxt = rcv_nxt t in
      if seg_len = 0 then seq_in_range seq nxt (nxt + wnd + 1)
      else if wnd = 0 then False
      else let edge = nxt + wnd
           in seq_in_range seq nxt edge \<or> seq_in_range (seq + (seg_len - 1)) nxt edge)"

definition may_answer_at_once :: "segment \<Rightarrow> tcb \<Rightarrow> bool" where
  "may_answer_at_once seg t \<longleftrightarrow>
     (sg_payload seg \<noteq> [] \<or> seg_has seg FLAG_FIN) \<and> seg_has seg FLAG_ACK
     \<and> \<not> seg_has seg FLAG_SYN \<and> \<not> seg_has seg FLAG_RST \<and> ack_acceptable (sg_ack seg) t
     \<and> (\<not> ts_enabled t \<or> op_ts (sg_options seg) \<noteq> None)"

definition paws_reject :: "segment \<Rightarrow> tcb \<Rightarrow> bool" where
  "paws_reject seg t \<longleftrightarrow>
     (if \<not> ts_enabled t \<or> seg_has seg FLAG_RST \<or> (sg_payload seg = [] \<and> \<not> seg_has seg FLAG_FIN)
      then False
      else case op_ts (sg_options seg) of
             None \<Rightarrow> False
           | Some (tsval, _) \<Rightarrow>
               if PAWS_IDLE_MS < sat_sub (now_ms t) (ts_recent_stamp t) then False
               else seq_lt tsval (ts_recent t))"

definition update_ts_recent :: "segment \<Rightarrow> tcb \<Rightarrow> tcb" where
  "update_ts_recent seg t =
     (if \<not> ts_enabled t then t
      else case op_ts (sg_options seg) of
             None \<Rightarrow> t
           | Some (tsval, _) \<Rightarrow>
               if seq_le (sg_seq seg) (last_ack_sent t) \<and> seq_ge tsval (ts_recent t)
               then t\<lparr>ts_recent := tsval, ts_recent_stamp := now_ms t\<rparr> else t)"

definition on_peer_alive :: "tcb \<Rightarrow> tcb" where
  "on_peer_alive t =
     (let t = t\<lparr>keepalive_probes := 0\<rparr>
      in if keepalive_idle_ms t \<noteq> 0 \<and> keepalive_applies t
         then t\<lparr>keepalive_deadline := dl_at (sat_add (now_ms t) (ucast (keepalive_idle_ms t)))\<rparr>
         else t)"

definition on_reset_received :: "tcb \<Rightarrow> tcb" where
  "on_reset_received t =
     (if tcb_state t \<in> {Established, FinWait1, FinWait2, CloseWait} then abort_local t
      else close_clean t)"

section \<open>Reassembly\<close>

definition note_dsack :: "u32 \<Rightarrow> u32 \<Rightarrow> tcb \<Rightarrow> tcb" where
  "note_dsack l r t =
     (if \<not> sack_enabled t then t
      else
        let span = (if of_nat (tcb_BUF t) \<le> st_bytes_received (tcb_stats t) then of_nat (tcb_BUF t)
                    else rcv_nxt t - (irs t + 1));
            floor = rcv_nxt t - span;
            l = (if seq_lt l floor then floor else l)
        in if seq_lt l r then t\<lparr>tcb_dsack := Some (l, r)\<rparr> else t)"

definition count_dup_bytes :: "u64 \<Rightarrow> tcb \<Rightarrow> tcb" where
  "count_dup_bytes n t =
     t\<lparr>tcb_stats := (tcb_stats t)\<lparr>st_dup_bytes_received := sat_add (st_dup_bytes_received (tcb_stats t)) n\<rparr>\<rparr>"

definition count_received :: "u64 \<Rightarrow> tcb \<Rightarrow> tcb" where
  "count_received n t =
     t\<lparr>tcb_stats := (tcb_stats t)\<lparr>st_bytes_received := sat_add (st_bytes_received (tcb_stats t)) n\<rparr>\<rparr>"

definition stop_at_fin :: "u32 \<Rightarrow> u32 option \<Rightarrow> u32 \<Rightarrow> u32" where
  "stop_at_fin nxt fin new =
     (case fin of Some f \<Rightarrow> if seq_ge f nxt \<and> seq_gt new f then f else new | None \<Rightarrow> new)"

definition absorb_ooo :: "u32 option \<Rightarrow> tcb \<Rightarrow> bool \<times> tcb" where
  "absorb_ooo seg_fin t =
     (let (new, ooo) = ooo_advance (rcv_nxt t) (tcb_ooo t);
          t = t\<lparr>tcb_ooo := ooo\<rparr>;
          new = stop_at_fin (rcv_nxt t) (map_option hf_seq (ooo_fin t))
                  (stop_at_fin (rcv_nxt t) seg_fin new);
          n = new - rcv_nxt t
      in if n = 0 then (False, t)
         else
           let (c, ring) = ring_commit (recv_ring t) (unat n)
           in (True, count_received (of_nat c) (t\<lparr>recv_ring := ring, rcv_nxt := rcv_nxt t + of_nat c\<rparr>)))"

text \<open>In-order bytes: written at the end of the receive ring.\<close>

definition take_in_order :: "u8 list \<Rightarrow> tcb \<Rightarrow> tcb" where
  "take_in_order bytes t =
     (case ring_write (recv_ring t) bytes of
        (n, ring) \<Rightarrow> count_received (of_nat n) (t\<lparr>recv_ring := ring, rcv_nxt := rcv_nxt t + of_nat n\<rparr>))"

definition drop_covered_fin :: "tcb \<Rightarrow> tcb" where
  "drop_covered_fin t =
     (case ooo_fin t of
        Some h \<Rightarrow> if seq_gt (rcv_nxt t) (hf_seq h) then t\<lparr>ooo_fin := None\<rparr> else t
      | None \<Rightarrow> t)"

definition receive_in_order :: "u8 list \<Rightarrow> u32 option \<Rightarrow> tcb \<Rightarrow> bool \<times> tcb" where
  "receive_in_order bytes seg_fin t = absorb_ooo seg_fin (drop_covered_fin (take_in_order bytes t))"

text \<open>Out-of-order bytes: recorded as a range and parked in the ring's free space.\<close>

definition park_out_of_order :: "u32 \<Rightarrow> u8 list \<Rightarrow> tcb \<Rightarrow> tcb" where
  "park_out_of_order seq bytes t =
     (let end_seq = seq + of_nat (length bytes) in
      case ooo_insert seq end_seq (rcv_nxt t) (tcb_ooo t) of
        (Stored dup, ooo) \<Rightarrow>
          let t = t\<lparr>tcb_ooo := ooo,
                    recv_ring := snd (ring_write_at (recv_ring t) (unat (seq - rcv_nxt t)) bytes)\<rparr>;
              t = (if dup then note_dsack seq end_seq (count_dup_bytes (of_nat (length bytes)) t) else t)
          in (case ooo_fin t of
                Some h \<Rightarrow> if seq_le seq (hf_start h) \<and> seq_gt end_seq (hf_seq h)
                          then t\<lparr>ooo_fin := None\<rparr> else t
              | None \<Rightarrow> t)
      | (Full, ooo) \<Rightarrow>
          t\<lparr>tcb_ooo := ooo,
            tcb_stats := (tcb_stats t)\<lparr>st_ooo_drops := sat_add (st_ooo_drops (tcb_stats t)) 1\<rparr>\<rparr>)"

text \<open>The part of a segment's text at or beyond \<open>RCV.NXT\<close>, with the duplicate prefix noted;
  \<open>None\<close> when nothing is left.\<close>

definition trim_duplicate :: "segment \<Rightarrow> tcb \<Rightarrow> ((u32 \<times> u8 list \<times> bool) option) \<times> tcb" where
  "trim_duplicate seg t =
     (if seq_lt (sg_seq seg) (rcv_nxt t)
      then
        let lead = unat (rcv_nxt t - sg_seq seg)
        in case get_range (sg_payload seg) lead (length (sg_payload seg)) of
             None \<Rightarrow> (None, t)
           | Some rest \<Rightarrow>
               if rest = [] then (None, t)
               else (Some (rcv_nxt t, rest, True),
                     note_dsack (sg_seq seg) (rcv_nxt t) (count_dup_bytes (of_nat lead) t))
      else (Some (sg_seq seg, sg_payload seg, False), t))"

definition receive_payload :: "segment \<Rightarrow> u32 option \<Rightarrow> tcb \<Rightarrow> bool \<times> tcb" where
  "receive_payload seg seg_fin t =
     (case trim_duplicate seg t of
        (None, t) \<Rightarrow> (True, t)
      | (Some (seq, bytes, ack_now), t) \<Rightarrow>
          let free = ring_free (recv_ring t); at = unat (seq - rcv_nxt t) in
          if free \<le> at then (True, t)
          else
            let bytes = take (min (length bytes) (free - at)) bytes
            in if at = 0
               then (case receive_in_order bytes seg_fin t of (filled, t) \<Rightarrow> (filled \<or> ack_now, t))
               else (True, park_out_of_order seq bytes t))"

definition advance_state_on_remote_fin :: "tcb \<Rightarrow> tcb" where
  "advance_state_on_remote_fin t =
     (case tcb_state t of
        Established \<Rightarrow> t\<lparr>tcb_state := CloseWait\<rparr>
      | FinWait1 \<Rightarrow>
          if fin_sent t \<and> snd_una t = snd_nxt t then (enter_time_wait t)\<lparr>tcb_state := TimeWait\<rparr>
          else t\<lparr>tcb_state := Closing\<rparr>
      | FinWait2 \<Rightarrow> (enter_time_wait t)\<lparr>tcb_state := TimeWait\<rparr>
      | _ \<Rightarrow> t)"

definition consume_fin :: "tcb \<Rightarrow> tcb" where
  "consume_fin t =
     advance_state_on_remote_fin
       (t\<lparr>rcv_nxt := rcv_nxt t + 1, tcb_ooo := ooo_clear (tcb_ooo t), ooo_fin := None\<rparr>)"

definition receive_fin :: "u32 \<Rightarrow> u32 \<Rightarrow> tcb \<Rightarrow> bool \<times> tcb" where
  "receive_fin start fin t =
     (True,
      if fin = rcv_nxt t then consume_fin t
      else if seq_gt fin (rcv_nxt t) \<and> unat (fin - rcv_nxt t) \<le> ring_free (recv_ring t)
      then (case ooo_fin t of
              Some h \<Rightarrow>
                if seq_lt (hf_seq h) fin then t
                else if hf_seq h = fin \<and> seq_le (hf_start h) start then t
                else t\<lparr>ooo_fin := Some \<lparr>hf_start = start, hf_seq = fin\<rparr>\<rparr>
            | None \<Rightarrow> t\<lparr>ooo_fin := Some \<lparr>hf_start = start, hf_seq = fin\<rparr>\<rparr>)
      else t)"

definition parked_ahead_of :: "u32 \<Rightarrow> u32 \<Rightarrow> tcb \<Rightarrow> bool" where
  "parked_ahead_of start fin t =
     (case ooo_containing fin (tcb_ooo t) of Some (block, _) \<Rightarrow> seq_le block start | None \<Rightarrow> False)"

definition maybe_consume_ooo_fin :: "tcb \<Rightarrow> bool \<times> tcb" where
  "maybe_consume_ooo_fin t =
     (if (case ooo_fin t of Some h \<Rightarrow> hf_seq h = rcv_nxt t | None \<Rightarrow> False) \<and> can_recv (tcb_state t)
      then (True, consume_fin t) else (False, t))"

definition count_delayed :: "u32 \<Rightarrow> tcb \<Rightarrow> tcb" where
  "count_delayed payload_len t =
     (let full = payload_len div ucast (max (local_mss t) 1);
          units = ucast (clamp_word 1 255 full)
      in t\<lparr>delayed_ack_count := sat_add (delayed_ack_count t) units, pending_ack := True\<rparr>)"

definition arm_delayed_ack :: "tcb \<Rightarrow> tcb" where
  "arm_delayed_ack t =
     (if \<not> dl_is_armed (ack_deadline t)
      then t\<lparr>ack_deadline := dl_at (sat_add (now_ms t) DELAYED_ACK_MS)\<rparr> else t)"

definition schedule_delayed_ack :: "u32 \<Rightarrow> tcb \<Rightarrow> tcb" where
  "schedule_delayed_ack payload_len t =
     (let t = count_delayed payload_len t
      in if 2 \<le> delayed_ack_count t then snd (send_pure_ack t) else arm_delayed_ack t)"

section \<open>Synchronized states\<close>

text \<open>A retransmitted FIN in TIME-WAIT restarts 2 MSL, up to the cap after entry.\<close>

definition restart_time_wait :: "tcb \<Rightarrow> tcb" where
  "restart_time_wait t =
     (let restart = sat_add (now_ms t) TIME_WAIT_MS;
          cap = sat_add (time_wait_since_ms t) TIME_WAIT_MAX_MS
      in t\<lparr>time_wait_deadline := dl_at (min restart cap)\<rparr>)"

definition ack_live :: "segment \<Rightarrow> u32 \<Rightarrow> bool \<Rightarrow> tcb \<Rightarrow> bool" where
  "ack_live seg payload_len fin t \<longleftrightarrow>
     (let end_seq = sg_seq seg + payload_len;
          right_edge = rcv_nxt t + of_nat (ring_free (recv_ring t))
      in seq_ge (end_seq + u32_of_bool fin) (last_ack_sent t) \<and> seq_le (sg_seq seg) right_edge
         \<and> \<not> paws_reject seg t)"

text \<open>The reply to an unacceptable segment whose ACK field is acceptable.\<close>

definition answer_unacceptable :: "segment \<Rightarrow> u32 \<Rightarrow> bool \<Rightarrow> bool \<Rightarrow> (tcb, unit) rsm" where
  "answer_unacceptable seg payload_len fin live t =
     (let end_seq = sg_seq seg + payload_len; at_once = may_answer_at_once seg t in
      if at_once \<and> tcb_state t = TimeWait \<and> fin \<and> end_seq + 1 = rcv_nxt t
      then send_pure_ack (restart_time_wait t)
      else
        then_rs
          (if at_once \<and> 0 < payload_len \<and> seq_le end_seq (rcv_nxt t)
           then (\<lambda>t. send_pure_ack
                   (note_dsack (sg_seq seg) end_seq (count_dup_bytes (ucast payload_len) t)))
           else if at_once \<and> seq_ge (sg_seq seg) (rcv_nxt t) \<and> ring_free (recv_ring t) = 0
           then send_pure_ack
           else send_oow_ack)
          (if live then maybe_send_data else ret_rs ()) t)"

definition on_unacceptable :: "segment \<Rightarrow> u32 \<Rightarrow> bool \<Rightarrow> (tcb, unit) rsm" where
  "on_unacceptable seg payload_len fin t =
     (if seg_has seg FLAG_RST then (Inr (), t)
      else if seg_has seg FLAG_SYN \<or> \<not> seg_has seg FLAG_ACK \<or> \<not> ack_acceptable (sg_ack seg) t
      then send_oow_ack t
      else if ack_live seg payload_len fin t
      then
        let t = process_ack seg (on_peer_alive (update_ts_recent seg t))
        in if tcb_state t = Closed then (Inr (), t) else answer_unacceptable seg payload_len fin True t
      else answer_unacceptable seg payload_len fin False t)"

text \<open>The text and the FIN of an acceptable segment: whether an ACK is owed at once.\<close>

definition receive_text_and_fin :: "segment \<Rightarrow> u32 \<Rightarrow> bool \<Rightarrow> tcb \<Rightarrow> bool \<times> tcb" where
  "receive_text_and_fin seg payload_len fin t =
     (if can_recv (tcb_state t)
      then
        let f = sg_seq seg + payload_len;
            seg_fin = (if fin \<and> \<not> parked_ahead_of (sg_seq seg) f t then Some f else None);
            (a1, t) = (if 0 < payload_len then receive_payload seg seg_fin t else (False, t));
            (a2, t) = (case seg_fin of
                         Some f \<Rightarrow> receive_fin (sg_seq seg) f t
                       | None \<Rightarrow> (fin, t));
            (a3, t) = maybe_consume_ooo_fin t
        in (a1 \<or> a2 \<or> a3, t)
      else (False, t))"

definition update_ce :: "segment \<Rightarrow> u32 \<Rightarrow> tcb \<Rightarrow> tcb" where
  "update_ce seg payload_len t =
     (if ecn_enabled t \<and> 0 < payload_len
      then
        let t = (if seg_has seg FLAG_CWR then t\<lparr>ce_observed := False\<rparr> else t)
        in if sg_ecn seg = ECN_CE then t\<lparr>ce_observed := True\<rparr> else t
      else t)"

text \<open>Text, FIN and the ACK they draw; then data the ACK released.\<close>

definition accept_text :: "segment \<Rightarrow> u32 \<Rightarrow> bool \<Rightarrow> (tcb, unit) rsm" where
  "accept_text seg payload_len fin t =
     (case receive_text_and_fin seg payload_len fin t of
        (ack_now, t') \<Rightarrow>
          then_rs
            (if ack_now then send_pure_ack
             else if rcv_nxt t' \<noteq> rcv_nxt t then modify_rs (schedule_delayed_ack payload_len)
             else if 0 < payload_len \<or> fin then send_oow_ack
             else ret_rs ())
            maybe_send_data t')"

text \<open>A segment with an acceptable ACK field: ACK processing, then its text and FIN.\<close>

definition on_acceptable_ack :: "segment \<Rightarrow> u32 \<Rightarrow> bool \<Rightarrow> bool \<Rightarrow> (tcb, unit) rsm" where
  "on_acceptable_ack seg payload_len fin zero_window_probe t =
     (let t = process_ack seg (on_peer_alive (update_ce seg payload_len (update_ts_recent seg t)))
      in if tcb_state t = Closed then (Inr (), t)
         else if zero_window_probe then then_rs send_pure_ack maybe_send_data t
         else accept_text seg payload_len fin t)"

definition on_synchronized :: "segment \<Rightarrow> (tcb, unit) rsm" where
  "on_synchronized seg t =
     (if \<not> seg_has seg FLAG_ACK \<and> \<not> seg_has seg FLAG_SYN \<and> \<not> seg_has seg FLAG_RST then (Inr (), t)
      else
        let payload_len = of_nat (length (sg_payload seg)) :: u32;
            fin = seg_has seg FLAG_FIN;
            seg_len = payload_len + u32_of_bool fin + u32_of_bool (seg_has seg FLAG_SYN);
            bare_fin = fin \<and> payload_len = 0 \<and> sg_seq seg = rcv_nxt t;
            ok = acceptable (sg_seq seg) seg_len t \<or> bare_fin;
            zero_window_probe = \<not> ok \<and> sg_seq seg = rcv_nxt t \<and> ring_free (recv_ring t) = 0
        in if \<not> ok \<and> \<not> zero_window_probe then on_unacceptable seg payload_len fin t
           else if paws_reject seg t
           then (if may_answer_at_once seg t then send_pure_ack t else send_oow_ack t)
           else if seg_has seg FLAG_RST
           then (if sg_seq seg = rcv_nxt t then (Inr (), on_reset_received t) else send_oow_ack t)
           else if seg_has seg FLAG_SYN then send_oow_ack t
           else if \<not> seg_has seg FLAG_ACK then (Inr (), t)
           else if \<not> ack_acceptable (sg_ack seg) t then send_oow_ack t
           else on_acceptable_ack seg payload_len fin zero_window_probe t)"

section \<open>Handshake\<close>

definition absorb_ws :: "u8 option \<Rightarrow> tcb \<Rightarrow> tcb" where
  "absorb_ws wscale t =
     (case wscale of
        Some ws \<Rightarrow> t\<lparr>ws_ok := True, snd_wscale := min ws 14, rcv_wscale := tcb_WS t\<rparr>
      | None \<Rightarrow> t\<lparr>ws_ok := False, snd_wscale := 0, rcv_wscale := 0\<rparr>)"

definition absorb_ts :: "(u32 \<times> u32) option \<Rightarrow> tcb \<Rightarrow> tcb" where
  "absorb_ts ts t =
     (case ts of
        Some (tsval, _) \<Rightarrow> t\<lparr>ts_enabled := True, ts_recent := tsval, ts_recent_stamp := now_ms t\<rparr>
      | None \<Rightarrow> t)"

definition absorb_syn_options :: "segment \<Rightarrow> tcb \<Rightarrow> tcb" where
  "absorb_syn_options seg t =
     (let t = t\<lparr>irs := sg_seq seg, rcv_nxt := sg_seq seg + 1, rcv_adv_edge := sg_seq seg + 1,
                last_ack_sent := sg_seq seg + 1, snd_wnd := ucast (sg_window seg),
                max_snd_wnd := ucast (sg_window seg), snd_wl1 := sg_seq seg, snd_wl2 := sg_ack seg,
                peer_mss := (case op_mss (sg_options seg) of
                               Some mss \<Rightarrow> max mss MIN_PEER_MSS | None \<Rightarrow> peer_mss t),
                sack_enabled := op_sack_permitted (sg_options seg)\<rparr>
      in absorb_ts (op_ts (sg_options seg)) (absorb_ws (op_wscale (sg_options seg)) t))"

definition on_established :: "tcb \<Rightarrow> tcb" where
  "on_established t =
     on_peer_alive
       (t\<lparr>tcb_cc := reno_new (initial_window (mss_payload t)), tcb_cwnd_limited := False,
          cwnd_limited_seq := snd_nxt t, pipe_hiwat := 0, last_data_send_ms := now_ms t,
          rcv_adv_edge := (if \<not> seq_gt (rcv_adv_edge t) (rcv_nxt t) then rcv_nxt t
                           else rcv_adv_edge t)\<rparr>)"

definition handshake_sample :: "segment \<Rightarrow> tcb \<Rightarrow> u32 option" where
  "handshake_sample seg t =
     (if \<not> syn_retransmitted t then u32_try_from (sat_sub (now_ms t) (syn_xmit_ms t))
      else case (ts_enabled t, op_ts (sg_options seg)) of
             (True, Some (_, tsecr)) \<Rightarrow>
               if tsecr \<noteq> 0
               then let ts = tsecr_to_ms tsecr t; now = ucast (now_ms t)
                    in if seq_ge ts (ucast (syn_xmit_ms t)) \<and> seq_le ts now
                       then Some (now - ts) else None
               else None
           | _ \<Rightarrow> None)"

definition handshake_rtt_sample :: "segment \<Rightarrow> tcb \<Rightarrow> tcb" where
  "handshake_rtt_sample seg t = take_rtt_sample (handshake_sample seg t) t"

definition syn_acked :: "segment \<Rightarrow> tcb \<Rightarrow> tcb" where
  "syn_acked seg t =
     t\<lparr>snd_una := sg_ack seg, snd_acked := ucast (sg_ack seg - iss t), syn_unacked := False,
       rtx_count := 0\<rparr>"

definition now_established :: "tcb \<Rightarrow> tcb" where
  "now_established t = on_established (t\<lparr>rto_deadline := dl_off, tcb_state := Established\<rparr>)"

definition complete_active_open :: "segment \<Rightarrow> (tcb, unit) rsm" where
  "complete_active_open seg t =
     (let t = (absorb_syn_options seg t)\<lparr>ecn_enabled := seg_has seg FLAG_ECE \<and> \<not> seg_has seg FLAG_CWR\<rparr>
      in send_pure_ack (now_established (handshake_rtt_sample seg (syn_acked seg t))))"

definition half_open :: "tcb \<Rightarrow> tcb" where
  "half_open t = t\<lparr>tcb_state := SynRcvd, syn_rcvd_retries := 0\<rparr>"

definition simultaneous_open :: "segment \<Rightarrow> (tcb, unit) rsm" where
  "simultaneous_open seg t =
     (let t = (half_open (absorb_syn_options seg t))\<lparr>ecn_enabled := False, syn_retransmitted := True\<rparr>
      in bind_rs emit_synack (\<lambda>_. modify_rs arm_rto) t)"

definition third_ack_window :: "segment \<Rightarrow> tcb \<Rightarrow> tcb" where
  "third_ack_window seg t =
     (let wnd = (if seg_has seg FLAG_SYN then ucast (sg_window seg)
                 else scale_peer_window (sg_window seg) t)
      in t\<lparr>snd_wnd := wnd, max_snd_wnd := max (max_snd_wnd t) wnd, snd_wl1 := sg_seq seg,
           snd_wl2 := sg_ack seg,
           syn_retransmitted := (if 0 < syn_rcvd_retries t then True else syn_retransmitted t)\<rparr>)"

definition complete_passive_open :: "segment \<Rightarrow> (tcb, unit) rsm" where
  "complete_passive_open seg t =
     (let t = handshake_rtt_sample seg (third_ack_window seg (syn_acked seg t));
          t = now_established (t\<lparr>syn_rcvd_retries := 0\<rparr>)
      in if seg_has seg FLAG_SYN then send_pure_ack t else on_synchronized seg t)"

text \<open>A rate-limited RST to the sender of an unacceptable ACK.\<close>

definition oow_rst :: "segment \<Rightarrow> (tcb, unit) rsm" where
  "oow_rst seg t =
     (case oow_allowed t of
        (ok, t) \<Rightarrow> if ok then emit_rst_to seg (sg_ack seg) 0 FLAG_RST t else (Inr (), t))"

definition on_syn_sent :: "segment \<Rightarrow> (tcb, unit) rsm" where
  "on_syn_sent seg t =
     (let ack_ok = seg_has seg FLAG_ACK \<and> seq_gt (sg_ack seg) (iss t) \<and> seq_le (sg_ack seg) (snd_nxt t)
      in if seg_has seg FLAG_ACK \<and> \<not> ack_ok
         then (if \<not> seg_has seg FLAG_RST then oow_rst seg t else (Inr (), t))
         else if seg_has seg FLAG_RST then (Inr (), if ack_ok then abort_local t else t)
         else if \<not> seg_has seg FLAG_SYN then (Inr (), t)
         else if ack_ok then complete_active_open seg t else simultaneous_open seg t)"

definition on_syn_rcvd :: "segment \<Rightarrow> (tcb, unit) rsm" where
  "on_syn_rcvd seg t =
     (if seg_has seg FLAG_RST then
        (if \<not> acceptable (sg_seq seg) 0 t then (Inr (), t)
         else if sg_seq seg \<noteq> rcv_nxt t then send_oow_ack t
         else (Inr (), if is_listener t then reset_to_listen_or_closed t else abort_local t))
      else if seg_has seg FLAG_SYN then
        (if seg_has seg FLAG_ACK then
           (if \<not> is_listener t \<and> sg_seq seg = irs t \<and> sg_ack seg = iss t + 1
            then complete_passive_open seg t else oow_rst seg t)
         else if sg_seq seg = irs t then
           (case oow_allowed t of
              (ok, t) \<Rightarrow> if ok then then_rs emit_synack (ret_rs ()) t else (Inr (), t))
         else (Inr (), t))
      else if \<not> seg_has seg FLAG_ACK then (Inr (), t)
      else if sg_ack seg \<noteq> iss t + 1 then oow_rst seg t
      else
        let seg_len = of_nat (length (sg_payload seg)) + u32_of_bool (seg_has seg FLAG_FIN)
        in if \<not> acceptable (sg_seq seg) seg_len t then send_oow_ack t
           else complete_passive_open seg t)"

section \<open>The listener\<close>

definition start_passive :: "segment \<Rightarrow> tcb \<Rightarrow> tcb" where
  "start_passive seg t =
     (let isn = passive_iss (remote_of seg) (sg_seq seg) t
      in t\<lparr>tcb_remote := remote_of seg, iss := isn, snd_una := isn, snd_acked := 0, snd_nxt := isn,
           ts_offset := ts_offset_for (remote_of seg) t\<rparr>)"

definition synack_out :: "tcb \<Rightarrow> tcb" where
  "synack_out t = arm_rto (t\<lparr>snd_nxt := iss t + 1, syn_unacked := True\<rparr>)"

definition accept_syn_stateful :: "segment \<Rightarrow> (tcb, unit) rsm" where
  "accept_syn_stateful seg t =
     (let t = start_passive seg (reset_connection_state t);
          t = (half_open (absorb_syn_options seg t))\<lparr>
                ecn_enabled := seg_has seg FLAG_ECE \<and> seg_has seg FLAG_CWR, syn_xmit_ms := now_ms t\<rparr>
      in bind_rs emit_synack (\<lambda>_. modify_rs synack_out) t)"

definition issued_with :: "u8 list \<Rightarrow> segment \<Rightarrow> tcb \<Rightarrow> bool" where
  "issued_with key seg t \<longleftrightarrow>
     (let cookie = sg_ack seg - 1;
          mss_idx = ucast (drop_bit 29 cookie AND 0x7);
          peer_seq = sg_seq seg - 1;
          now_bucket = now_ms t div COOKIE_TIME_BUCKET_MS
      in list_ex (\<lambda>b. compute_cookie (tcb_local t) key b (remote_of seg) mss_idx peer_seq = cookie)
           [now_bucket, now_bucket - 1])"

definition validate_cookie :: "segment \<Rightarrow> tcb \<Rightarrow> cookie_opts option" where
  "validate_cookie seg t =
     (if \<not> cookie_secret_set t then None
      else
        let mss_idx = ucast (drop_bit 29 (sg_ack seg - 1) AND 0x7);
            prev_valid = prev_cookie_secret_set t \<and> now_ms t < prev_cookie_until_ms t;
            prev_key = (if issued_with (cookie_secret t) seg t then Some False
                        else if prev_valid \<and> issued_with (prev_cookie_secret t) seg t then Some True
                        else None)
        in case prev_key of
             None \<Rightarrow> None
           | Some pk \<Rightarrow>
               (case decode_ts_opts (op_ts (sg_options seg)) of
                  None \<Rightarrow> None
                | Some opts \<Rightarrow> Some (opts\<lparr>co_mss := cookie_mss_from_index mss_idx, co_prev_key := pk\<rparr>)))"

definition promote_seqs :: "segment \<Rightarrow> cookie_opts \<Rightarrow> tcb \<Rightarrow> tcb" where
  "promote_seqs seg opts t =
     (let cookie = sg_ack seg - 1; peer_seq = sg_seq seg - 1
      in t\<lparr>tcb_remote := remote_of seg,
           ts_offset := (if co_prev_key opts \<and> \<not> secret_set t
                         then ts_offset_with (prev_cookie_secret t) (remote_of seg) t
                         else ts_offset_for (remote_of seg) t),
           iss := cookie, irs := peer_seq, rcv_nxt := peer_seq + 1, snd_una := sg_ack seg,
           snd_acked := ucast (sg_ack seg - cookie), snd_nxt := sg_ack seg,
           peer_mss := max (co_mss opts) MIN_PEER_MSS,
           rcv_adv_edge := peer_seq + 1, last_ack_sent := peer_seq + 1\<rparr>)"

definition promote_opts :: "segment \<Rightarrow> cookie_opts \<Rightarrow> tcb \<Rightarrow> tcb" where
  "promote_opts seg opts t =
     (let t = (case co_wscale opts of
                 Some ws \<Rightarrow> t\<lparr>ws_ok := True, snd_wscale := ws, rcv_wscale := tcb_WS t\<rparr> | None \<Rightarrow> t);
          t = (if op_ts (sg_options seg) \<noteq> None
               then t\<lparr>sack_enabled := co_sack opts, ecn_enabled := co_ecn opts\<rparr> else t)
      in absorb_ts (op_ts (sg_options seg)) t)"

definition promote_window :: "segment \<Rightarrow> tcb \<Rightarrow> tcb" where
  "promote_window seg t =
     (let wnd = scale_peer_window (sg_window seg) t
      in t\<lparr>snd_wnd := wnd, max_snd_wnd := wnd, snd_wl1 := sg_seq seg, snd_wl2 := sg_ack seg,
           tcb_cc := reno_new (initial_window (mss_payload t)), tcb_state := Established\<rparr>)"

definition promote_via_cookie :: "segment \<Rightarrow> cookie_opts \<Rightarrow> (tcb, unit) rsm" where
  "promote_via_cookie seg opts t =
     on_synchronized seg
       (on_established
         (promote_window seg (promote_opts seg opts (promote_seqs seg opts (reset_connection_state t)))))"

definition try_promote_via_cookie :: "segment \<Rightarrow> (tcb, bool) rsm" where
  "try_promote_via_cookie seg t =
     (case validate_cookie seg t of
        Some opts \<Rightarrow> then_rs (promote_via_cookie seg opts) (ret_rs True) t
      | None \<Rightarrow> (Inr False, t))"

definition on_listen :: "segment \<Rightarrow> (tcb, unit) rsm" where
  "on_listen seg t =
     (if seg_has seg FLAG_RST then (Inr (), t)
      else if seg_has seg FLAG_ACK then
        (if \<not> seg_has seg FLAG_SYN
         then (if cookie_secret_set t then then_rs (try_promote_via_cookie seg) (ret_rs ()) t
               else (Inr (), t))
         else oow_rst seg t)
      else if \<not> seg_has seg FLAG_SYN \<or> seg_has seg FLAG_FIN then (Inr (), t)
      else accept_syn_stateful seg t)"

definition may_replace_half_open :: "segment \<Rightarrow> tcb \<Rightarrow> bool" where
  "may_replace_half_open seg t \<longleftrightarrow>
     tcb_state t = SynRcvd \<and> is_listener t \<and> seg_has seg FLAG_SYN \<and> \<not> seg_has seg FLAG_ACK
     \<and> \<not> seg_has seg FLAG_RST \<and> \<not> seg_has seg FLAG_FIN \<and> 1 \<le> syn_rcvd_retries t"

definition on_busy_listener :: "segment \<Rightarrow> (tcb, unit) rsm" where
  "on_busy_listener seg t =
     (if tcb_state t \<noteq> SynRcvd \<or> \<not> is_listener t \<or> \<not> cookie_secret_set t then (Inl NotForUs, t)
      else
        let ctl = seg_has seg FLAG_RST \<or> seg_has seg FLAG_FIN
        in if seg_has seg FLAG_SYN \<and> \<not> seg_has seg FLAG_ACK \<and> \<not> ctl then emit_cookie_synack seg t
           else if seg_has seg FLAG_ACK \<and> \<not> seg_has seg FLAG_SYN \<and> \<not> seg_has seg FLAG_RST
           then (case validate_cookie seg t of
                   Some opts \<Rightarrow> promote_via_cookie seg opts (reset_to_listen_or_closed t)
                 | None \<Rightarrow> (Inl NotForUs, t))
           else (Inl NotForUs, t))"

section \<open>Dispatch\<close>

definition count_segs_in :: "tcb \<Rightarrow> tcb" where
  "count_segs_in t =
     t\<lparr>tcb_stats := (tcb_stats t)\<lparr>st_segs_in := sat_add (st_segs_in (tcb_stats t)) 1\<rparr>\<rparr>"

definition dispatch_segment :: "segment \<Rightarrow> (tcb, unit) rsm" where
  "dispatch_segment seg t =
     (case tcb_state t of
        Closed \<Rightarrow> (Inl InvalidState, count_segs_in t)
      | Listen \<Rightarrow> on_listen seg (count_segs_in t)
      | SynSent \<Rightarrow> on_syn_sent seg (count_segs_in t)
      | SynRcvd \<Rightarrow> on_syn_rcvd seg (count_segs_in t)
      | _ \<Rightarrow> on_synchronized seg (count_segs_in t))"

definition inject_segment :: "segment \<Rightarrow> (tcb, unit) rsm" where
  "inject_segment seg t =
     (if sg_dst_ip seg \<noteq> ep_ip (tcb_local t) \<or> sg_dst_port seg \<noteq> ep_port (tcb_local t)
      then (Inl NotForUs, t)
      else
        let from_remote = sg_src_ip seg = ep_ip (tcb_remote t) \<and> sg_src_port seg = ep_port (tcb_remote t)
        in if tcb_state t \<noteq> Listen \<and> \<not> from_remote
           then (if may_replace_half_open seg t then dispatch_segment seg (reset_to_listen_or_closed t)
                 else on_busy_listener seg t)
           else dispatch_segment seg t)"

section \<open>What input processing keeps\<close>

lemma state_count_segs_in: "tcb_state (count_segs_in t) = tcb_state t"
  by (simp add: count_segs_in_def)

text \<open>Everything an arriving segment changes except its text and FIN, which the timers share; then the
  synchronized states, and the handshake.\<close>

lemma before_ack_frame:
  "tx_frame (update_ts_recent seg t) = tx_frame t" "tx_frame (update_ce seg n t) = tx_frame t"
  "tx_frame (on_peer_alive t) = tx_frame t"
  by (simp_all add: tx_frame_def update_ts_recent_def update_ce_def on_peer_alive_def Let_def split: option.split)

lemma ack_in_flight:
  assumes "ack_acceptable ack t"
  shows "\<not> seq_gt ack (snd_nxt (on_peer_alive (update_ts_recent seg t)))"
    and "\<not> seq_gt ack (snd_nxt (on_peer_alive (update_ce seg n (update_ts_recent seg t))))"
  using assms before_ack_frame by (simp_all add: ack_acceptable_def Let_def tx_frame_def)

locale calm_kept = output_kept + ack_kept +
  assumes ts_recent_kept: "I t \<Longrightarrow> I (update_ts_recent seg t)"
    and ce_kept: "I t \<Longrightarrow> I (update_ce seg n t)"
    and peer_alive_kept: "I t \<Longrightarrow> I (on_peer_alive t)"
    and abort_local_kept: "I t \<Longrightarrow> I (abort_local t)"
    and close_clean_kept: "I t \<Longrightarrow> I (close_clean t)"
    and dup_bytes_kept: "I t \<Longrightarrow> I (count_dup_bytes cnt t)"
    and note_dsack_kept: "I t \<Longrightarrow> I (note_dsack l r t)"
    and count_delayed_kept: "I t \<Longrightarrow> I (count_delayed n t)"
    and arm_delayed_kept: "I t \<Longrightarrow> I (arm_delayed_ack t)"
    and restart_time_wait_kept: "I t \<Longrightarrow> I (restart_time_wait t)"
    and reset_listen_kept: "I t \<Longrightarrow> tcb_state t = SynRcvd \<Longrightarrow> I (reset_to_listen_or_closed t)"
    and syn_retransmitted_kept: "I t \<Longrightarrow> I (t\<lparr>syn_retransmitted := b\<rparr>)"
    and syn_retries_kept: "I t \<Longrightarrow> I (t\<lparr>syn_rcvd_retries := retries\<rparr>)"
begin

lemma delayed_ack_kept: "I t \<Longrightarrow> I (schedule_delayed_ack n t)"
  by (simp add: schedule_delayed_ack_def Let_def pure_ack_kept arm_delayed_kept count_delayed_kept)

lemma reset_received_kept: "I t \<Longrightarrow> I (on_reset_received t)"
  by (simp add: on_reset_received_def abort_local_kept close_clean_kept)

lemma trim_kept: "I t \<Longrightarrow> I (snd (trim_duplicate seg t))"
  by (simp add: trim_duplicate_def Let_def note_dsack_kept dup_bytes_kept split: option.split)

lemma answer_kept: "I t \<Longrightarrow> I (snd (answer_unacceptable seg n fin live t))"
  by (auto simp: answer_unacceptable_def Let_def pure_ack_kept oow_ack_kept restart_time_wait_kept
      note_dsack_kept dup_bytes_kept send_data_kept intro!: seq_kept)

lemma acked_kept:
  assumes "I t" and "ack_acceptable (sg_ack seg) t"
  shows "I (process_ack seg (on_peer_alive (update_ts_recent seg t)))"
    and "I (process_ack seg (on_peer_alive (update_ce seg n (update_ts_recent seg t))))"
  using assms ack_in_flight [OF assms(2)]
  by (auto intro!: process_ack_kept peer_alive_kept ce_kept ts_recent_kept)

lemma unacceptable_kept: "I t \<Longrightarrow> I (snd (on_unacceptable seg n fin t))"
  by (simp add: on_unacceptable_def Let_def oow_ack_kept answer_kept acked_kept)

lemma handshake_rtt_kept: "I t \<Longrightarrow> I (handshake_rtt_sample seg t)"
  by (simp add: handshake_rtt_sample_def take_rtt_sample_def rtt_kept split: option.split)

end

locale sync_kept = calm_kept +
  assumes take_in_order_kept: "I t \<Longrightarrow> length bytes \<le> ring_free (recv_ring t) \<Longrightarrow> I (take_in_order bytes t)"
    and drop_covered_kept: "I t \<Longrightarrow> I (drop_covered_fin t)"
    and absorb_kept: "I t \<Longrightarrow> I (snd (absorb_ooo fopt t))"
    and park_kept: "I t \<Longrightarrow> I (park_out_of_order seq bytes t)"
    and receive_fin_kept: "I t \<Longrightarrow> I (snd (receive_fin l r t))"
    and ooo_fin_kept: "I t \<Longrightarrow> I (snd (maybe_consume_ooo_fin t))"
begin

lemma payload_kept:
  assumes "I t"
  shows "I (snd (receive_payload seg fopt t))"
proof -
  obtain x u where u: "trim_duplicate seg t = (x, u)" by (metis surj_pair)
  then have "I u" using trim_kept [OF assms, of seg] by simp
  then show ?thesis
    by (simp add: receive_payload_def u receive_in_order_def case_prod_beta Let_def absorb_kept
        drop_covered_kept take_in_order_kept park_kept split: option.split)
qed

lemma text_and_fin_kept: "I t \<Longrightarrow> I (snd (receive_text_and_fin seg n fin t))"
  by (simp add: receive_text_and_fin_def Let_def case_prod_beta ooo_fin_kept receive_fin_kept payload_kept)

lemma accept_text_kept:
  assumes "I t"
  shows "I (snd (accept_text seg n fin t))"
proof -
  obtain a u where u: "receive_text_and_fin seg n fin t = (a, u)" by (metis surj_pair)
  then have "I u" using text_and_fin_kept [OF assms, of seg n fin] by simp
  with u show ?thesis
    by (auto simp: accept_text_def pure_ack_kept oow_ack_kept delayed_ack_kept
        intro!: seq_kept send_data_kept)
qed

lemma acceptable_ack_kept:
  "I t \<Longrightarrow> ack_acceptable (sg_ack seg) t \<Longrightarrow> I (snd (on_acceptable_ack seg n fin zwp t))"
  by (auto simp: on_acceptable_ack_def Let_def accept_text_kept acked_kept pure_ack_kept send_data_kept
      intro!: seq_kept)

lemma synchronized_kept: "I t \<Longrightarrow> I (snd (on_synchronized seg t))"
  by (simp add: on_synchronized_def Let_def unacceptable_kept pure_ack_kept oow_ack_kept
      reset_received_kept acceptable_ack_kept)

end

locale input_kept = sync_kept +
  assumes reset_kept: "I t \<Longrightarrow> I (reset_connection_state t)"
    and absorb_syn_kept: "I t \<Longrightarrow> I (absorb_syn_options seg t)"
    and ecn_kept: "I t \<Longrightarrow> I (t\<lparr>ecn_enabled := b\<rparr>)"
    and syn_acked_kept: "I t \<Longrightarrow> I (syn_acked seg t)"
    and reach_established_kept: "I t \<Longrightarrow> I (t\<lparr>rto_deadline := dl_off, tcb_state := Established\<rparr>)"
    and half_open_kept: "I t \<Longrightarrow> I (half_open t)"
    and syn_xmit_kept: "I t \<Longrightarrow> I (t\<lparr>syn_xmit_ms := cnt\<rparr>)"
    and third_ack_kept: "I t \<Longrightarrow> I (third_ack_window seg t)"
    and start_passive_kept: "I t \<Longrightarrow> I (start_passive seg t)"
    and synack_out_kept: "I t \<Longrightarrow> I (synack_out t)"
    and promote_seqs_kept: "I t \<Longrightarrow> I (promote_seqs seg copts t)"
    and promote_opts_kept: "I t \<Longrightarrow> I (promote_opts seg copts t)"
    and promote_window_kept: "I t \<Longrightarrow> I (promote_window seg t)"
    and established_kept: "I t \<Longrightarrow> I (on_established t)"
    and segs_in_kept: "I t \<Longrightarrow> I (count_segs_in t)"
begin

lemma now_established_kept: "I t \<Longrightarrow> I (now_established t)"
  by (simp add: now_established_def established_kept reach_established_kept)

lemma active_open_kept: "I t \<Longrightarrow> I (snd (complete_active_open seg t))"
  by (simp add: complete_active_open_def Let_def pure_ack_kept now_established_kept
      handshake_rtt_kept syn_acked_kept ecn_kept absorb_syn_kept)

lemma simultaneous_kept: "I t \<Longrightarrow> I (snd (simultaneous_open seg t))"
  by (auto simp: simultaneous_open_def Let_def arm_rto_kept
      intro!: seq_kept synack_kept half_open_kept absorb_syn_kept ecn_kept
        syn_retransmitted_kept)

lemma passive_open_kept: "I t \<Longrightarrow> I (snd (complete_passive_open seg t))"
  by (simp add: complete_passive_open_def Let_def pure_ack_kept synchronized_kept
      now_established_kept syn_retries_kept handshake_rtt_kept third_ack_kept syn_acked_kept)

lemma oow_rst_kept: "I t \<Longrightarrow> I (snd (oow_rst seg t))"
  using oow_allowed_kept [of t] by (simp add: oow_rst_def rst_to_kept case_prod_beta)

lemma syn_sent_kept: "I t \<Longrightarrow> I (snd (on_syn_sent seg t))"
  by (simp add: on_syn_sent_def Let_def oow_rst_kept abort_local_kept active_open_kept simultaneous_kept)

lemma synack_again_kept:
  "I t \<Longrightarrow> I (snd (case oow_allowed t of (ok, t) \<Rightarrow> if ok then then_rs emit_synack (ret_rs ()) t else (Inr (), t)))"
  using oow_allowed_kept [of t] by (auto simp: case_prod_beta intro!: seq_kept synack_kept)

lemma syn_rcvd_kept: "I t \<Longrightarrow> tcb_state t = SynRcvd \<Longrightarrow> I (snd (on_syn_rcvd seg t))"
  by (simp add: on_syn_rcvd_def Let_def oow_ack_kept oow_rst_kept reset_listen_kept abort_local_kept
      passive_open_kept synack_again_kept)

lemma stateful_kept: "I t \<Longrightarrow> I (snd (accept_syn_stateful seg t))"
  by (auto simp: accept_syn_stateful_def Let_def synack_out_kept intro!: seq_kept synack_kept syn_xmit_kept ecn_kept
      half_open_kept absorb_syn_kept start_passive_kept reset_kept)

lemma cookie_promote_kept: "I t \<Longrightarrow> I (snd (promote_via_cookie seg copts t))"
  by (simp add: promote_via_cookie_def synchronized_kept established_kept
      promote_window_kept promote_opts_kept promote_seqs_kept reset_kept)

lemma try_promote_kept: "I t \<Longrightarrow> I (snd (try_promote_via_cookie seg t))"
  by (auto simp: try_promote_via_cookie_def cookie_promote_kept intro!: seq_kept split: option.split)

lemma listen_kept: "I t \<Longrightarrow> I (snd (on_listen seg t))"
  by (auto simp: on_listen_def oow_rst_kept stateful_kept intro!: seq_kept try_promote_kept)

lemma busy_listener_kept: "I t \<Longrightarrow> I (snd (on_busy_listener seg t))"
  by (simp add: on_busy_listener_def Let_def cookie_synack_kept cookie_promote_kept reset_listen_kept
      split: option.split)

lemma dispatch_kept: "I t \<Longrightarrow> I (snd (dispatch_segment seg t))"
  using segs_in_kept [of t]
  by (cases "tcb_state t")
    (simp_all add: dispatch_segment_def listen_kept syn_sent_kept syn_rcvd_kept synchronized_kept
      state_count_segs_in)

lemma inject_kept: "I t \<Longrightarrow> I (snd (inject_segment seg t))"
  by (simp add: inject_segment_def Let_def dispatch_kept busy_listener_kept may_replace_half_open_def
      reset_listen_kept)

end

end
