(* ===== verification/Tcb_Timers.thy ===== *)
theory Tcb_Timers
  imports Tcb_Input
begin

unbundle bit_operations_syntax

text \<open>
  Timer-driven work: \<^verbatim>\<open>tcb/timers.rs\<close>, one definition per timer and \<open>run_timers\<close>, the
  body of \<^verbatim>\<open>tick()\<close>, which runs them in the order of the code with its early returns.
\<close>

definition backoff_rto :: "tcb \<Rightarrow> tcb" where
  "backoff_rto t = t\<lparr>rto_ms := min (sat_mul (rto_ms t) 2) RTO_MAX_MS\<rparr>"

definition syn_sent_timer :: "(tcb, unit) rsm" where
  "syn_sent_timer t =
     (if \<not> dl_due (now_ms t) (rto_deadline t) then (Inr (), t)
      else
        let t = t\<lparr>rtx_count := sat_add (rtx_count t) 1\<rparr>
        in if MAX_SYN_RETRIES < rtx_count t then (Inr (), abort_local t)
           else bind_rs emit_syn (\<lambda>_. modify_rs arm_rto) (backoff_rto (t\<lparr>syn_retransmitted := True\<rparr>)))"

definition syn_rcvd_timer :: "(tcb, unit) rsm" where
  "syn_rcvd_timer t =
     (if \<not> dl_due (now_ms t) (rto_deadline t) then (Inr (), t)
      else
        let t = t\<lparr>syn_rcvd_retries := sat_add (syn_rcvd_retries t) 1\<rparr>
        in if MAX_SYN_RCVD_RETRIES < syn_rcvd_retries t
           then (Inr (), if is_listener t then reset_to_listen_or_closed t else abort_local t)
           else bind_rs emit_synack (\<lambda>_. modify_rs arm_rto) (backoff_rto (t\<lparr>syn_retransmitted := True\<rparr>)))"

definition blackhole_clamp :: "u16 \<Rightarrow> tcb \<Rightarrow> tcb" where
  "blackhole_clamp target t =
     (let head = (case rq_get (tcb_rtx t) 0 of None \<Rightarrow> 0 | Some s \<Rightarrow> sq_payload_len s)
      in if target < pmtu_mss t \<and> sat_sub (ucast target) 12 < head
         then
           let fresh = (pmtu_restore_mss t = 0);
               backoff = (if fresh then PMTU_PROBE_MIN_MS else pmtu_probe_backoff_ms t)
           in t\<lparr>pmtu_restore_mss := (if fresh then pmtu_mss t else pmtu_restore_mss t),
                pmtu_probe_backoff_ms := backoff, pmtu_mss := target, pmtu_probe_inflight := False,
                pmtu_probe_at := sat_add (now_ms t) (ucast backoff)\<rparr>
         else t)"

definition blackhole_check :: "tcb \<Rightarrow> tcb" where
  "blackhole_check t =
     (if BLACKHOLE_RTO_STEP2 \<le> rtx_count t then blackhole_clamp BLACKHOLE_MSS2 t
      else if BLACKHOLE_RTO_STEP1 \<le> rtx_count t then blackhole_clamp BLACKHOLE_MSS1 t
      else t)"

definition count_rto :: "tcb \<Rightarrow> tcb" where
  "count_rto t =
     t\<lparr>tcb_stats := (tcb_stats t)\<lparr>st_rto_count := sat_add (st_rto_count (tcb_stats t)) 1\<rparr>\<rparr>"

definition forget_reneged :: "tcb \<Rightarrow> tcb" where
  "forget_reneged t =
     (if (case rq_get (tcb_rtx t) 0 of None \<Rightarrow> False | Some s \<Rightarrow> sq_has s SF_SACKED)
      then t\<lparr>tcb_rtx := rq_clear_sacked (tcb_rtx t)\<rparr> else t)"

definition loss_window :: "tcb \<Rightarrow> tcb" where
  "loss_window t =
     (let flight = snd_nxt t - data_una t
      in t\<lparr>tcb_cc := reno_on_rto flight (snd_una t) (snd_nxt t) (mss_payload t) (tcb_cc t),
           tcb_rtx := rq_mark_all_lost (tcb_rtx t), reno_sacked := 0, tlp_end_seq := None,
           tlp_deadline := dl_off, rack_deadline := dl_off, dup_acks := 0\<rparr>)"

definition on_rto :: "tcb \<Rightarrow> tcb" where
  "on_rto t =
     (let t = t\<lparr>rto_deadline := dl_off\<rparr> in
      if snd_una t = snd_nxt t then t
      else
        let t = t\<lparr>rtx_count := sat_add (rtx_count t) 1\<rparr> in
        if MAX_RETRANSMITS < rtx_count t then abort_local t
        else arm_rto (backoff_rto (loss_window (forget_reneged (blackhole_check (count_rto t))))))"

text \<open>The tail loss probe: new data if the window allows, else the last segment again.\<close>

definition tlp_segment :: "(tcb, bool \<times> bool) rsm" where
  "tlp_segment t =
     (let unsent = unsent_bytes t; mss = mss_payload t; usable = usable_window t; n = rq_len (tcb_rtx t) in
      if 0 < unsent \<and> min unsent mss \<le> usable \<and> \<not> rq_is_full (tcb_rtx t)
      then let len = min unsent mss; fin = fin_owed t \<and> len = unsent
           in bind_rs (emit_new len fin) (\<lambda>sent. ret_rs (sent, False)) t
      else if 0 < n \<and> (case rq_get (tcb_rtx t) (n - 1) of
                          Some s \<Rightarrow> \<not> sq_has s SF_SACKED | None \<Rightarrow> False)
      then bind_rs (retransmit (n - 1)) (\<lambda>sent. ret_rs (sent, True)) t
      else (Inr (False, False), t))"

definition note_tlp :: "bool \<Rightarrow> tcb \<Rightarrow> tcb" where
  "note_tlp is_retrans t =
     arm_rto
       (t\<lparr>tcb_stats := (tcb_stats t)\<lparr>st_tlp_count := sat_add (st_tlp_count (tcb_stats t)) 1\<rparr>,
          tlp_end_seq := Some (snd_nxt t), tlp_is_retrans := is_retrans, tlp_deadline := dl_off\<rparr>)"

definition fire_tlp :: "(tcb, unit) rsm" where
  "fire_tlp t =
     (let t = t\<lparr>tlp_deadline := dl_off\<rparr>;
          eligible = sack_enabled t \<and> cc_state (tcb_cc t) = CaOpen \<and> tlp_end_seq t = None
                     \<and> snd_una t \<noteq> snd_nxt t
      in if \<not> eligible then (Inr (), t)
         else if egress_full t then (Inr (), maybe_arm_tlp t)
         else bind_rs tlp_segment
                (\<lambda>(sent, is_retrans) t. (Inr (), if sent then note_tlp is_retrans t else t)) t)"

text \<open>The tail of the persist timer: the next interval, and the timer if still stuck.\<close>

definition persist_rearm :: "tcb \<Rightarrow> tcb" where
  "persist_rearm t =
     (let base = max (persist_backoff_ms t) (rto_ms t);
          t = t\<lparr>persist_backoff_ms := min (sat_mul base 2) RTO_MAX_MS\<rparr>
      in if 0 < unsent_bytes t \<and> snd_una t = snd_nxt t
         then t\<lparr>persist_deadline := dl_at (sat_add (now_ms t) (ucast (persist_backoff_ms t)))\<rparr>
         else t)"

definition persist_probe :: "(tcb, unit) rsm" where
  "persist_probe t =
     bind_rs (emit_probe (snd_una t - 1)) (\<lambda>_ t.
       let t = t\<lparr>rtx_count := sat_add (rtx_count t) 1\<rparr>
       in (Inr (), if MAX_RETRANSMITS < rtx_count t then abort_local t else persist_rearm t)) t"

definition on_persist_timer :: "(tcb, unit) rsm" where
  "on_persist_timer t =
     (let t = t\<lparr>persist_deadline := dl_off\<rparr>; unsent = unsent_bytes t in
      if unsent = 0 \<or> snd_una t \<noteq> snd_nxt t then (Inr (), t)
      else if egress_full t
      then (Inr (), t\<lparr>persist_deadline := dl_at (sat_add (now_ms t) (ucast (rto_ms t)))\<rparr>)
      else
        let usable = usable_window t in
        if 0 < usable \<and> \<not> rq_is_full (tcb_rtx t)
        then
          let len = min (min usable unsent) (mss_payload t); fin = fin_owed t \<and> len = unsent
          in bind_rs (emit_new len fin) (\<lambda>_. modify_rs persist_rearm) t
        else persist_probe t)"

definition check_keepalive :: "(tcb, unit) rsm" where
  "check_keepalive t =
     (if keepalive_idle_ms t = 0 \<or> \<not> dl_due (now_ms t) (keepalive_deadline t) then (Inr (), t)
      else if \<not> keepalive_applies t
      then (Inr (), t\<lparr>keepalive_probes := 0, keepalive_deadline := dl_off\<rparr>)
      else if has_send_work t
      then (Inr (), t\<lparr>keepalive_probes := 0,
                      keepalive_deadline := dl_at (sat_add (now_ms t) (ucast (keepalive_idle_ms t)))\<rparr>)
      else if keepalive_count t \<le> keepalive_probes t
      then (Inr (), if tcb_state t = CloseWait then close_clean t else abort_local t)
      else
        bind_rs (emit_probe (snd_nxt t - 1)) (\<lambda>sent t.
          (Inr (),
           if sent
           then t\<lparr>keepalive_probes := sat_add (keepalive_probes t) 1,
                  keepalive_deadline := dl_at (sat_add (now_ms t) (ucast (keepalive_intvl_ms t)))\<rparr>
           else t)) t)"

definition check_user_timeout :: "tcb \<Rightarrow> tcb" where
  "check_user_timeout t =
     (if user_timeout_ms t = 0 \<or> \<not> has_send_work t \<or> \<not> sending_state (tcb_state t)
      then t\<lparr>user_timeout_deadline := dl_off, ut_progress := 0\<rparr>
      else if \<not> dl_is_armed (user_timeout_deadline t)
      then t\<lparr>user_timeout_deadline := dl_at (sat_add (now_ms t) (ucast (user_timeout_ms t)))\<rparr>
      else if dl_due (now_ms t) (user_timeout_deadline t) then abort_local t
      else t)"

definition prr_credit :: "tcb \<Rightarrow> tcb" where
  "prr_credit t =
     t\<lparr>tcb_cc := prr_update (mss_payload t) (tcb_pipe t) (mss_payload t) False (tcb_cc t)\<rparr>"

definition rack_timer :: "tcb \<Rightarrow> tcb" where
  "rack_timer t =
     (case rack_detect (t\<lparr>rack_deadline := dl_off\<rparr>) of
        (marked, t) \<Rightarrow>
          if marked
          then prr_credit (if \<not> in_loss_recovery (tcb_cc t)
                           then enter_fast_recovery (snd_nxt t - data_una t) t else t)
          else t)"

text \<open>The second half of \<open>run_timers\<close>: from the keepalive check to the delayed ACK.\<close>

definition run_late_timers :: "(tcb, unit) rsm" where
  "run_late_timers =
     then_rs check_keepalive (\<lambda>t.
       let now = now_ms t; t = check_user_timeout t in
       if tcb_state t = Closed then (Inr (), t)
       else then_rs maybe_send_data (\<lambda>t.
         if pending_ack t \<and> dl_due now (ack_deadline t) then send_pure_ack t else (Inr (), t)) t)"

text \<open>The timers between the handshake and the late ones: TLP, RTO, RACK, persist.\<close>

definition run_rack_persist :: "u64 \<Rightarrow> (tcb, unit) rsm" where
  "run_rack_persist now t =
     (let t = (if dl_due now (rack_deadline t) then rack_timer t else t)
      in if dl_due now (persist_deadline t)
         then then_rs on_persist_timer
                (\<lambda>t. if tcb_state t = Closed then (Inr (), t) else run_late_timers t) t
         else run_late_timers t)"

definition run_rto :: "u64 \<Rightarrow> (tcb, unit) rsm" where
  "run_rto now t =
     (if is_synchronized (tcb_state t) \<and> dl_due now (rto_deadline t)
      then let t = on_rto t in if tcb_state t = Closed then (Inr (), t) else run_rack_persist now t
      else run_rack_persist now t)"

definition run_tlp :: "u64 \<Rightarrow> (tcb, unit) rsm" where
  "run_tlp now t = (if dl_due now (tlp_deadline t) then fire_tlp t else (Inr (), t))"

definition handshake_timer :: "(tcb, unit) rsm" where
  "handshake_timer t =
     (if tcb_state t = SynSent then syn_sent_timer t
      else if tcb_state t = SynRcvd then syn_rcvd_timer t
      else (Inr (), t))"

definition time_wait_over :: "tcb \<Rightarrow> tcb" where
  "time_wait_over t = disarm_timers (t\<lparr>tcb_state := Closed\<rparr>)"

definition run_timers :: "(tcb, unit) rsm" where
  "run_timers t =
     (let now = now_ms t in
      if dl_due now (time_wait_deadline t) then (Inr (), time_wait_over t)
      else if tcb_state t = FinWait2 \<and> dl_due now (fin_wait2_deadline t)
      then bind_rs (emit_ctl (FLAG_RST OR FLAG_ACK) (snd_nxt t) (rcv_nxt t))
             (\<lambda>_. modify_rs abort_local) t
      else then_rs handshake_timer (then_rs (run_tlp now) (run_rto now)) t)"

section \<open>What the timers keep\<close>

lemma probe_idle: "keepalive_idle_ms (snd (emit_probe seq t)) = keepalive_idle_ms t"
  using frame.probe_kept [OF refl, of seq t] by (simp add: output_frame_def)

locale timers_kept = calm_kept +
  assumes backoff_kept: "I t \<Longrightarrow> I (backoff_rto t)"
    and rtx_count_kept: "I t \<Longrightarrow> I (t\<lparr>rtx_count := c\<rparr>)"
    and blackhole_kept: "I t \<Longrightarrow> I (blackhole_check t)"
    and count_rto_kept: "I t \<Longrightarrow> I (count_rto t)"
    and reneged_kept: "I t \<Longrightarrow> I (forget_reneged t)"
    and loss_window_kept: "I t \<Longrightarrow> I (loss_window t)"
    and rto_deadline_kept: "I t \<Longrightarrow> I (t\<lparr>rto_deadline := dl\<rparr>)"
    and tlp_deadline_kept: "I t \<Longrightarrow> I (t\<lparr>tlp_deadline := dl\<rparr>)"
    and rack_deadline_kept: "I t \<Longrightarrow> I (t\<lparr>rack_deadline := dl\<rparr>)"
    and persist_deadline_kept: "I t \<Longrightarrow> I (t\<lparr>persist_deadline := dl\<rparr>)"
    and keepalive_kept: "I t \<Longrightarrow> keepalive_idle_ms t \<noteq> 0 \<Longrightarrow> I (t\<lparr>keepalive_probes := c, keepalive_deadline := dl\<rparr>)"
    and ut_kept: "I t \<Longrightarrow> I (t\<lparr>user_timeout_deadline := dl, ut_progress := u\<rparr>)"
    and note_tlp_kept: "I t \<Longrightarrow> I (note_tlp re t)"
    and persist_rearm_kept: "I t \<Longrightarrow> I (persist_rearm t)"
    and prr_credit_kept: "I t \<Longrightarrow> I (prr_credit t)"
    and time_wait_over_kept: "I t \<Longrightarrow> I (time_wait_over t)"
begin

lemma syn_sent_timer_kept: "I t \<Longrightarrow> I (snd (syn_sent_timer t))"
  by (auto simp: syn_sent_timer_def Let_def abort_local_kept rtx_count_kept arm_rto_kept
      intro!: seq_kept syn_kept backoff_kept syn_retransmitted_kept)

lemma syn_rcvd_timer_kept: "I t \<Longrightarrow> tcb_state t = SynRcvd \<Longrightarrow> I (snd (syn_rcvd_timer t))"
  by (auto simp: syn_rcvd_timer_def Let_def abort_local_kept reset_listen_kept syn_retries_kept arm_rto_kept
      intro!: seq_kept synack_kept backoff_kept syn_retransmitted_kept)

lemma on_rto_kept: "I t \<Longrightarrow> I (on_rto t)"
  by (auto simp: on_rto_def Let_def
      intro!: abort_local_kept arm_rto_kept backoff_kept loss_window_kept reneged_kept blackhole_kept
        count_rto_kept rtx_count_kept rto_deadline_kept)

lemma tlp_segment_kept: "I t \<Longrightarrow> I (snd (tlp_segment t))"
  by (auto simp: tlp_segment_def Let_def new_ok_def intro!: seq_kept new_kept retransmit_kept)

lemma fire_tlp_kept: "I t \<Longrightarrow> I (snd (fire_tlp t))"
  by (auto simp: fire_tlp_def Let_def
      intro!: seq_kept arm_tlp_kept tlp_segment_kept note_tlp_kept tlp_deadline_kept)

lemma persist_probe_kept: "I t \<Longrightarrow> I (snd (persist_probe t))"
  by (auto simp: persist_probe_def Let_def
      intro!: seq_kept probe_kept abort_local_kept persist_rearm_kept rtx_count_kept)

lemma persist_kept: "I t \<Longrightarrow> I (snd (on_persist_timer t))"
  using persist_deadline_kept [of t]
  by (auto simp: on_persist_timer_def Let_def new_ok_def min.coboundedI1 min.cobounded2
      intro!: seq_kept new_kept persist_rearm_kept persist_probe_kept)

lemma check_keepalive_kept:
  assumes "I t"
  shows "I (snd (check_keepalive t))"
proof -
  let ?J = "\<lambda>u. I u \<and> keepalive_idle_ms u = keepalive_idle_ms t"
  let ?sent = "\<lambda>sent u. (Inr (), if sent
    then u\<lparr>keepalive_probes := sat_add (keepalive_probes u) 1,
           keepalive_deadline := dl_at (sat_add (now_ms u) (ucast (keepalive_intvl_ms u)))\<rparr>
    else u)"
  have "?J (snd (bind_rs (emit_probe seq) ?sent t))" if "keepalive_idle_ms t \<noteq> 0" for seq
    using that assms
    by (intro bind_rs_keeps [of ?J]) (auto simp: probe_kept probe_idle intro!: keepalive_kept)
  then show ?thesis
    using assms by (auto simp: check_keepalive_def close_clean_kept abort_local_kept intro!: keepalive_kept)
qed

lemma check_user_timeout_kept: "I t \<Longrightarrow> I (check_user_timeout t)"
  using ut_kept [where t = t and u = "ut_progress t"] by (auto simp: check_user_timeout_def abort_local_kept ut_kept)

lemma rack_timer_kept:
  assumes "I t"
  shows "I (rack_timer t)"
proof -
  have "I (snd (rack_detect (t\<lparr>rack_deadline := dl_off\<rparr>)))"
    using assms by (intro rack_detect_kept rack_deadline_kept)
  then show ?thesis
    by (simp add: rack_timer_def case_prod_beta prr_credit_kept fast_recovery_kept)
qed

lemma late_timers_kept: "I t \<Longrightarrow> I (snd (run_late_timers t))"
  by (auto simp: run_late_timers_def Let_def
      intro!: seq_kept check_keepalive_kept check_user_timeout_kept send_data_kept pure_ack_kept)

lemma rack_persist_kept: "I t \<Longrightarrow> I (snd (run_rack_persist now t))"
  by (auto simp: run_rack_persist_def Let_def rack_timer_kept late_timers_kept persist_kept
      intro!: seq_kept)

lemma run_rto_kept: "I t \<Longrightarrow> I (snd (run_rto now t))"
  by (simp add: run_rto_def Let_def rack_persist_kept on_rto_kept)

lemma run_tlp_kept: "I t \<Longrightarrow> I (snd (run_tlp now t))"
  by (simp add: run_tlp_def fire_tlp_kept)

lemma handshake_timer_kept: "I t \<Longrightarrow> I (snd (handshake_timer t))"
  by (simp add: handshake_timer_def syn_sent_timer_kept syn_rcvd_timer_kept)

lemma run_timers_kept: "I t \<Longrightarrow> I (snd (run_timers t))"
  by (auto simp: run_timers_def Let_def time_wait_over_kept abort_local_kept
      intro!: seq_kept ctl_kept handshake_timer_kept run_tlp_kept run_rto_kept)

end

end
