(* ===== verification/Tcb_Api.thy ===== *)
theory Tcb_Api
  imports Tcb_Timers
begin

unbundle bit_operations_syntax

text \<open>
  The public interface of \<^verbatim>\<open>tcb/mod.rs\<close>: configuration, opening and closing, application
  data, packets, \<^verbatim>\<open>tick\<close>, the event mask, and the code's own consistency checks
  (\<^verbatim>\<open>debug_validate_invariants\<close>, \<^verbatim>\<open>debug_check_liveness\<close>). The two lent regions of
  \<^verbatim>\<open>send_reserve\<close> are their (offset, length) pairs in the ring storage.
\<close>

section \<open>Introspection\<close>

record debug_snapshot =
  ds_snd_una :: u32
  ds_snd_nxt :: u32
  ds_snd_wnd :: u32
  ds_rcv_nxt :: u32
  ds_cwnd :: u32
  ds_ssthresh :: u32
  ds_rto_ms :: u32
  ds_rto_deadline :: u64
  ds_now_ms :: u64
  ds_send_ring_len :: u32
  ds_recv_ring_len :: u32
  ds_oo_start :: u32
  ds_oo_len :: u32
  ds_tx_len :: u32
  ds_pending_ack :: bool
  ds_dup_ack_count :: u8
  ds_state :: u8

definition tcb_debug_snapshot :: "tcb \<Rightarrow> debug_snapshot" where
  "tcb_debug_snapshot t =
     \<lparr>ds_snd_una = snd_una t, ds_snd_nxt = snd_nxt t, ds_snd_wnd = snd_wnd t, ds_rcv_nxt = rcv_nxt t,
      ds_cwnd = cc_cwnd (tcb_cc t), ds_ssthresh = cc_ssthresh (tcb_cc t), ds_rto_ms = rto_ms t,
      ds_rto_deadline = (case dl_get (rto_deadline t) of Some d \<Rightarrow> d | None \<Rightarrow> - 1),
      ds_now_ms = now_ms t, ds_send_ring_len = of_nat (rb_len (send_ring t)),
      ds_recv_ring_len = of_nat (rb_len (recv_ring t)),
      ds_oo_start = (case ooo_first_start (tcb_ooo t) of Some s \<Rightarrow> s | None \<Rightarrow> 0),
      ds_oo_len = ooo_held_bytes (tcb_ooo t),
      ds_tx_len = of_nat (case tx_peek_head_len (tcb_tx_ring t) of Some n \<Rightarrow> n | None \<Rightarrow> 0),
      ds_pending_ack = pending_ack t, ds_dup_ack_count = dup_acks t,
      ds_state = state_code (tcb_state t)\<rparr>"

fun ca_code :: "ca_state \<Rightarrow> u8" where
  "ca_code CaOpen = 0"
| "ca_code CaRecovery = 1"
| "ca_code CaLoss = 2"
| "ca_code CaCwr = 3"

definition tcb_get_stats :: "tcb \<Rightarrow> tcb_stats" where
  "tcb_get_stats t =
     (tcb_stats t)\<lparr>st_srtt_ms := srtt_ms t, st_rttvar_ms := rttvar_ms t,
       st_min_rtt_ms := (case wm_get (rk_min_rtt (tcb_rack t)) of Some m \<Rightarrow> m | None \<Rightarrow> 0),
       st_rto_ms := rto_ms t, st_cwnd := cc_cwnd (tcb_cc t), st_ssthresh := cc_ssthresh (tcb_cc t),
       st_pipe := tcb_pipe t, st_mss := mss_payload t, st_snd_wnd := snd_wnd t,
       st_rcv_wnd := rcv_wnd t, st_ca_state := ca_code (cc_state (tcb_cc t)),
       st_state := state_code (tcb_state t)\<rparr>"

text \<open>\<open>True\<close> where the code returns \<^verbatim>\<open>Ok\<close>; one conjunct per check, in order.\<close>

definition valid_send_side :: "tcb \<Rightarrow> bool" where
  "valid_send_side t \<longleftrightarrow>
     \<not> seq_lt (snd_nxt t) (snd_una t)
     \<and> \<not> (syn_unacked t \<and> (snd_una t \<noteq> iss t \<or> snd_nxt t = iss t))
     \<and> (is_synchronized (tcb_state t) \<longrightarrow>
          (let una = data_una t; covered = snd_nxt t - una;
               fin = u32_of_bool (fin_sent t \<and> seq_lt (snd_una t) (snd_nxt t))
           in rq_debug_valid una (snd_nxt t) (tcb_rtx t)
              \<and> (\<not> rq_is_empty (tcb_rtx t) \<or> covered \<noteq> 0 \<longrightarrow>
                   map_option sq_start (rq_get (tcb_rtx t) 0) = Some una)
              \<and> unat (sat_sub covered fin) \<le> rb_len (send_ring t)))
     \<and> (fin_sent t \<longrightarrow>
          fin_seq t + 1 = snd_nxt t
          \<and> tcb_state t \<in> {FinWait1, FinWait2, Closing, TimeWait, LastAck, Closed}
          \<and> \<not> (tcb_state t \<in> {FinWait2, TimeWait} \<and> seq_le (snd_una t) (fin_seq t)))
     \<and> \<not> (dl_is_armed (rto_deadline t) \<and> snd_una t = snd_nxt t)"

definition valid_receive_side :: "tcb \<Rightarrow> bool" where
  "valid_receive_side t \<longleftrightarrow>
     ooo_debug_valid (rcv_nxt t) (tcb_ooo t)
     \<and> (case ooo_last_end (tcb_ooo t) of
          Some e \<Rightarrow> unat (e - rcv_nxt t) \<le> ring_free (recv_ring t) | None \<Rightarrow> True)
     \<and> (case ooo_fin t of
          Some h \<Rightarrow> can_recv (tcb_state t) \<and> seq_gt (hf_seq h) (rcv_nxt t)
                    \<and> \<not> seq_gt (hf_start h) (hf_seq h)
        | None \<Rightarrow> True)"

definition tcb_debug_validate_invariants :: "tcb \<Rightarrow> bool" where
  "tcb_debug_validate_invariants t \<longleftrightarrow>
     valid_send_side t \<and> valid_receive_side t
     \<and> (case tx_peek_head_len (tcb_tx_ring t) of Some n \<Rightarrow> n \<le> MAX_PACKET | None \<Rightarrow> True)"

definition tcb_debug_check_liveness :: "tcb \<Rightarrow> bool" where
  "tcb_debug_check_liveness t \<longleftrightarrow>
     tx_peek_head_len (tcb_tx_ring t) \<noteq> None \<or> tcb_state t = Closed
     \<or> (\<not> (snd_una t \<noteq> snd_nxt t \<and> \<not> dl_is_armed (rto_deadline t)
            \<and> \<not> dl_is_armed (tlp_deadline t) \<and> \<not> dl_is_armed (rack_deadline t))
        \<and> \<not> (can_send (tcb_state t) \<and> 0 < unsent_bytes t \<and> snd_una t = snd_nxt t
              \<and> \<not> dl_is_armed (persist_deadline t)))"

definition min_deadline :: "deadline list \<Rightarrow> u64 option" where
  "min_deadline ds =
     (case List.map_filter dl_get ds of [] \<Rightarrow> None | x # xs \<Rightarrow> Some (fold min xs x))"

definition tcb_next_deadline :: "tcb \<Rightarrow> u64 option" where
  "tcb_next_deadline t =
     (let ack = (if pending_ack t \<and> \<not> egress_paused t then ack_deadline t else dl_off);
          keepalive = (if egress_paused t then dl_off else keepalive_deadline t);
          fin2 = (if tcb_state t = FinWait2 then fin_wait2_deadline t else dl_off)
      in min_deadline [time_wait_deadline t, fin2, rto_deadline t, tlp_deadline t, rack_deadline t,
           persist_deadline t, ack, keepalive, user_timeout_deadline t])"

definition tcb_debug_next_deadline :: "tcb \<Rightarrow> u64 option" where
  "tcb_debug_next_deadline t =
     min_deadline [rto_deadline t, tlp_deadline t, rack_deadline t, persist_deadline t,
       ack_deadline t, keepalive_deadline t, fin_wait2_deadline t]"

definition tcb_poll :: "tcb \<Rightarrow> u32" where
  "tcb_poll t =
     (let ev = (if \<not> ring_is_empty (recv_ring t) then EV_READABLE else 0);
          ev = (if can_send (tcb_state t) \<and> 0 < ring_free (send_ring t) \<and> send_lent t = 0
                then ev OR EV_WRITABLE else ev);
          ev = (if tcb_state t = Established then ev OR EV_ESTABLISHED else ev);
          ev = (if tcb_state t \<in> {CloseWait, LastAck, Closing, TimeWait} then ev OR EV_PEER_CLOSED else ev);
          ev = (if tcb_state t = Closed then ev OR EV_CLOSED else ev);
          ev = (if tcb_state t = Listen then ev OR EV_LISTENING else ev);
          ev = (if tcb_state t = SynRcvd then ev OR EV_HALF_OPEN else ev);
          ev = (if \<not> tx_is_empty (tcb_tx_ring t) then ev OR EV_TX_PENDING else ev)
      in if tcb_error t \<noteq> None then ev OR EV_ERROR else ev)"

section \<open>Configuration\<close>

definition set_now :: "u64 \<Rightarrow> tcb \<Rightarrow> tcb" where
  "set_now now t = t\<lparr>now_ms := now\<rparr>"

definition set_egress_paused :: "bool \<Rightarrow> tcb \<Rightarrow> tcb" where
  "set_egress_paused paused t =
     (let t = (if egress_paused t \<and> \<not> paused \<and> dl_is_armed (tlp_deadline t) then maybe_arm_tlp t else t)
      in t\<lparr>egress_paused := paused\<rparr>)"

definition set_tx_csum_offload :: "bool \<Rightarrow> tcb \<Rightarrow> tcb" where
  "set_tx_csum_offload on t = t\<lparr>tx_csum_offload := on\<rparr>"

definition set_keepalive :: "u32 \<Rightarrow> u32 \<Rightarrow> u8 \<Rightarrow> tcb \<Rightarrow> tcb" where
  "set_keepalive idle_ms intvl_ms count t =
     t\<lparr>keepalive_idle_ms := idle_ms, keepalive_intvl_ms := max intvl_ms 1, keepalive_count := count,
       keepalive_probes := 0,
       keepalive_deadline := (if idle_ms = 0 \<or> \<not> keepalive_applies t then dl_off
                              else dl_at (sat_add (now_ms t) (ucast idle_ms)))\<rparr>"

definition set_user_timeout :: "u32 \<Rightarrow> tcb \<Rightarrow> tcb" where
  "set_user_timeout ms t =
     t\<lparr>user_timeout_ms := ms, ut_progress := 0,
       user_timeout_deadline := (if ms = 0 \<or> \<not> has_send_work t then dl_off
                                 else dl_at (sat_add (now_ms t) (ucast ms)))\<rparr>"

definition set_fin_wait2_timeout :: "u32 \<Rightarrow> tcb \<Rightarrow> tcb" where
  "set_fin_wait2_timeout ms t =
     t\<lparr>fin_wait2_timeout_ms := ms,
       fin_wait2_deadline := (if ms \<noteq> 0 \<and> tcb_state t = FinWait2
                              then dl_at (sat_add (now_ms t) (ucast ms)) else dl_off)\<rparr>"

definition set_mtu :: "u16 \<Rightarrow> (tcb, unit) rsm" where
  "set_mtu mtu t =
     (if tcb_state t \<notin> {Closed, Listen} then (Inl InvalidState, t)
      else
        let m = clamp_word MIN_MTU MAX_MTU mtu
        in (Inr (), t\<lparr>tcb_mtu := m, local_mss := m - HDR_LEN, pmtu_mss := m - HDR_LEN,
                      tcb_cc := reno_new (initial_window (ucast (m - HDR_LEN)))\<rparr>))"

definition mark_oversized :: "u32 \<Rightarrow> usize \<Rightarrow> rtx_queue \<Rightarrow> rtx_queue" where
  "mark_oversized limit i q =
     (case rq_get q i of
        Some s \<Rightarrow> if limit < sq_payload_len s then rq_mark_lost i q else q
      | None \<Rightarrow> q)"

text \<open>A reported MTU also bounds black-hole recovery.\<close>

definition bound_restore :: "u16 \<Rightarrow> tcb \<Rightarrow> tcb" where
  "bound_restore mss t =
     (let restore = min (pmtu_restore_mss t) mss
      in if restore \<le> min (pmtu_mss t) mss
         then t\<lparr>pmtu_restore_mss := 0, pmtu_probe_inflight := False\<rparr>
         else t\<lparr>pmtu_restore_mss := restore\<rparr>)"

definition resend_oversized :: "tcb \<Rightarrow> tcb" where
  "resend_oversized t =
     t\<lparr>tcb_rtx := fold (mark_oversized (mss_payload t)) [0..<rq_len (tcb_rtx t)] (tcb_rtx t)\<rparr>"

definition update_pmtu :: "u16 \<Rightarrow> tcb \<Rightarrow> tcb" where
  "update_pmtu mtu t =
     (let mss = clamp_word MIN_MTU MAX_MTU mtu - HDR_LEN; t = bound_restore mss t
      in if pmtu_mss t \<le> mss then t
         else
           let t = t\<lparr>pmtu_mss := mss\<rparr>
           in if is_synchronized (tcb_state t) then snd (maybe_send_data (resend_oversized t)) else t)"

section \<open>Connection control\<close>

definition start_active :: "tcb \<Rightarrow> tcb" where
  "start_active t =
     t\<lparr>ts_offset := ts_offset_for (tcb_remote t) t, tcb_state := SynSent, syn_xmit_ms := now_ms t\<rparr>"

definition not_listener :: "tcb \<Rightarrow> tcb" where
  "not_listener t = t\<lparr>is_listener := False\<rparr>"

definition tcb_connect :: "(tcb, unit) rsm" where
  "tcb_connect t =
     (if tcb_state t \<noteq> Closed then (Inl InvalidState, t)
      else
        bind_rs emit_syn (\<lambda>sent t. (Inr (), if sent then synack_out t else t))
          (start_active (reset_connection_state (not_listener t))))"

definition start_listen :: "tcb \<Rightarrow> tcb" where
  "start_listen t =
     (reset_connection_state (t\<lparr>tcb_remote := no_endpoint, is_listener := True\<rparr>))\<lparr>tcb_state := Listen\<rparr>"

definition tcb_listen :: "(tcb, unit) rsm" where
  "tcb_listen t =
     (if tcb_state t \<notin> {Closed, Listen, TimeWait} then (Inl InvalidState, t)
      else if \<not> secret_set t \<and> \<not> cookie_secret_set t then (Inl InvalidState, t)
      else (Inr (), start_listen t))"

definition close_unopened :: "tcb \<Rightarrow> tcb" where
  "close_unopened t = (reset_connection_state (not_listener t))\<lparr>tcb_state := Closed\<rparr>"

definition begin_close :: "tcb \<Rightarrow> tcb" where
  "begin_close t = t\<lparr>tcb_state := (if tcb_state t = CloseWait then LastAck else FinWait1)\<rparr>"

definition tcb_close :: "(tcb, unit) rsm" where
  "tcb_close t =
     (if tcb_state t \<in> {Established, CloseWait, SynRcvd} then maybe_send_data (begin_close t)
      else if tcb_state t \<in> {SynSent, Listen} then (Inr (), close_unopened t)
      else (Inr (), t))"

definition tcb_abort :: "(tcb, unit) rsm" where
  "tcb_abort t =
     (if tcb_state t = Closed then (Inr (), t)
      else if tcb_state t \<in> {Listen, SynSent} then (Inr (), abort_local (not_listener t))
      else bind_rs (emit_ctl (FLAG_RST OR FLAG_ACK) (snd_nxt t) (rcv_nxt t))
             (\<lambda>_. modify_rs abort_local) t)"

section \<open>Application data\<close>

definition queue_bytes :: "u8 list \<Rightarrow> tcb \<Rightarrow> usize \<times> tcb" where
  "queue_bytes bytes t =
     (case ring_write (send_ring t) bytes of (written, ring) \<Rightarrow> (written, t\<lparr>send_ring := ring\<rparr>))"

definition tcb_send :: "u8 list \<Rightarrow> (tcb, usize) rsm" where
  "tcb_send bytes t =
     (if \<not> can_send (tcb_state t) then (Inl InvalidState, t)
      else if send_lent t \<noteq> 0 then (Inl WouldBlock, t)
      else case queue_bytes bytes t of
             (written, t) \<Rightarrow> (if written = 0 \<and> bytes \<noteq> [] then Inl WouldBlock else Inr written, t))"

definition send_reserve :: "usize \<Rightarrow> (tcb, (usize \<times> usize) \<times> (usize \<times> usize)) rsm" where
  "send_reserve mx t =
     (if send_lent t \<noteq> 0 \<or> \<not> can_send (tcb_state t) then (Inl InvalidState, t)
      else
        let (a, b) = ring_free_regions (send_ring t) mx; n = snd a + snd b
        in if n = 0 then (Inl WouldBlock, t)
           else (Inr (a, b), t\<lparr>send_lent := n, send_lent_conn := conn_gen t\<rparr>))"

definition send_commit :: "usize \<Rightarrow> (tcb, usize) rsm" where
  "send_commit n t =
     (let lent = send_lent t; t = t\<lparr>send_lent := 0\<rparr>
      in if lent = 0 \<or> send_lent_conn t \<noteq> conn_gen t \<or> \<not> can_send (tcb_state t)
         then (Inl InvalidState, t)
         else let (c, ring) = ring_commit (send_ring t) (min n lent)
              in (Inr c, t\<lparr>send_ring := ring\<rparr>))"

text \<open>The destination slice of \<^verbatim>\<open>recv\<close> is returned with its new contents.\<close>

definition read_bytes :: "u8 list \<Rightarrow> tcb \<Rightarrow> usize \<times> u8 list \<times> tcb" where
  "read_bytes dst t =
     (case ring_read (recv_ring t) dst of (n, dst, ring) \<Rightarrow> (n, dst, t\<lparr>recv_ring := ring\<rparr>))"

definition extend_fin_wait2 :: "tcb \<Rightarrow> tcb" where
  "extend_fin_wait2 t =
     (if tcb_state t = FinWait2 \<and> fin_wait2_timeout_ms t \<noteq> 0
      then t\<lparr>fin_wait2_deadline := dl_at (sat_add (now_ms t) (ucast (fin_wait2_timeout_ms t)))\<rparr> else t)"

definition tcb_recv :: "u8 list \<Rightarrow> tcb \<Rightarrow> usize result \<times> u8 list \<times> tcb" where
  "tcb_recv dst t =
     (case tcb_error t of
        Some e \<Rightarrow> (Inl e, dst, t)
      | None \<Rightarrow>
          (case read_bytes dst t of
             (n, dst, t) \<Rightarrow>
               if 0 < n
               then (case maybe_send_window_update (extend_fin_wait2 t) of
                       (Inl e, t) \<Rightarrow> (Inl e, dst, t) | (Inr _, t) \<Rightarrow> (Inr n, dst, t))
               else if tcb_state t \<in> {Closed, CloseWait, LastAck, Closing, TimeWait}
               then (Inl ConnectionClosed, dst, t)
               else (Inr n, dst, t)))"

section \<open>Packets and time\<close>

definition extract_packet :: "u8 list \<Rightarrow> tcb \<Rightarrow> usize result \<times> u8 list \<times> tcb" where
  "extract_packet out t =
     (case tx_pop_into out (tcb_tx_ring t) of (r, out, ring) \<Rightarrow> (r, out, t\<lparr>tcb_tx_ring := ring\<rparr>))"

definition extract_packet_with :: "(u8 list \<Rightarrow> 'r) \<Rightarrow> tcb \<Rightarrow> 'r option \<times> tcb" where
  "extract_packet_with f t =
     (case tx_pop_with f (tcb_tx_ring t) of (r, ring) \<Rightarrow> (r, t\<lparr>tcb_tx_ring := ring\<rparr>))"

definition inject_packet :: "u8 list \<Rightarrow> (tcb, unit) rsm" where
  "inject_packet packet t =
     (case parse packet of Inl e \<Rightarrow> (Inl e, t) | Inr seg \<Rightarrow> inject_segment seg t)"

definition inject_packet_l4_csum_trusted :: "u8 list \<Rightarrow> (tcb, unit) rsm" where
  "inject_packet_l4_csum_trusted packet t =
     (case parse_opts packet False of Inl e \<Rightarrow> (Inl e, t) | Inr seg \<Rightarrow> inject_segment seg t)"

definition tcb_tick :: "(tcb, unit) rsm" where
  "tcb_tick t = run_timers t"

section \<open>Sequences of calls\<close>

text \<open>One call of the public interface. The slices that \<^verbatim>\<open>recv\<close> and
  \<^verbatim>\<open>extract_packet\<close> fill are arguments; what a call returns is in its own definition.\<close>

datatype api_call =
    SetNow u64 | SetEgressPaused bool | SetTxCsumOffload bool | SetKeepalive u32 u32 u8
  | SetUserTimeout u32 | SetFinWait2Timeout u32 | SetMtu u16 | UpdatePmtu u16
  | SetSecret "u8 list" | SetCookieSecret "u8 list" | Connect | ListenCall | Close | Abort
  | Send "u8 list" | SendReserve usize | SendCommit usize | Recv "u8 list"
  | ExtractPacket "u8 list" | InjectPacket "u8 list" | InjectTrusted "u8 list" | Tick

fun tcb_call :: "api_call \<Rightarrow> tcb \<Rightarrow> tcb" where
  "tcb_call (SetNow now) t = set_now now t"
| "tcb_call (SetEgressPaused b) t = set_egress_paused b t"
| "tcb_call (SetTxCsumOffload b) t = set_tx_csum_offload b t"
| "tcb_call (SetKeepalive idle intvl count) t = set_keepalive idle intvl count t"
| "tcb_call (SetUserTimeout ms) t = set_user_timeout ms t"
| "tcb_call (SetFinWait2Timeout ms) t = set_fin_wait2_timeout ms t"
| "tcb_call (SetMtu mtu) t = snd (set_mtu mtu t)"
| "tcb_call (UpdatePmtu mtu) t = update_pmtu mtu t"
| "tcb_call (SetSecret key) t = set_secret key t"
| "tcb_call (SetCookieSecret key) t = set_cookie_secret key t"
| "tcb_call Connect t = snd (tcb_connect t)"
| "tcb_call ListenCall t = snd (tcb_listen t)"
| "tcb_call Close t = snd (tcb_close t)"
| "tcb_call Abort t = snd (tcb_abort t)"
| "tcb_call (Send bytes) t = snd (tcb_send bytes t)"
| "tcb_call (SendReserve n) t = snd (send_reserve n t)"
| "tcb_call (SendCommit n) t = snd (send_commit n t)"
| "tcb_call (Recv dst) t = snd (snd (tcb_recv dst t))"
| "tcb_call (ExtractPacket out) t = snd (snd (extract_packet out t))"
| "tcb_call (InjectPacket p) t = snd (inject_packet p t)"
| "tcb_call (InjectTrusted p) t = snd (inject_packet_l4_csum_trusted p t)"
| "tcb_call Tick t = snd (tcb_tick t)"

text \<open>The states a connection can reach: built, with a \<open>usize\<close> buffer size and queue capacities that
  pass the compile-time checks, or after a call, or recycled.\<close>

definition caps_valid :: "usize \<Rightarrow> usize \<Rightarrow> usize \<Rightarrow> bool" where
  "caps_valid BUF RTX TXQ \<longleftrightarrow> BUF < 2 ^ 64 \<and> 0 < RTX \<and> RTX mod 64 = 0 \<and> RTX \<le> 1024 \<and> 0 < TXQ"

inductive reachable :: "tcb \<Rightarrow> bool" where
  built: "caps_valid BUF RTX TXQ \<Longrightarrow> tcb_init_in_place BUF RTX TXQ cfg = Inr t \<Longrightarrow> reachable t"
| called: "reachable t \<Longrightarrow> reachable (tcb_call c t)"
| recycled: "reachable t \<Longrightarrow> reachable (tcb_reinit cfg t)"

inductive_cases reachable_cases: "reachable t"

lemma reachable_calls: "reachable t \<Longrightarrow> reachable (fold tcb_call cs t)"
  by (induction cs arbitrary: t) (simp_all add: reachable.called)

text \<open>The calls that neither start a connection nor move the data of the host or of the peer.  While send space is lent out,
  every call but \<^verbatim>\<open>send_commit\<close> keeps what the loan fixes, so that call is left to the last
  locale.\<close>

fun quiet_call :: "api_call \<Rightarrow> bool" where
  "quiet_call Connect = False"
| "quiet_call ListenCall = False"
| "quiet_call (Recv dst) = False"
| "quiet_call (InjectPacket p) = False"
| "quiet_call (InjectTrusted p) = False"
| "quiet_call (Send bytes) = False"
| "quiet_call (SendCommit n) = False"
| "quiet_call _ = True"

locale quiet_kept = timers_kept +
  assumes now_kept: "I t \<Longrightarrow> I (set_now now t)"
    and paused_kept: "I t \<Longrightarrow> I (t\<lparr>egress_paused := on\<rparr>)"
    and offload_kept: "I t \<Longrightarrow> I (set_tx_csum_offload on t)"
    and set_keepalive_kept: "I t \<Longrightarrow> I (set_keepalive ms ivl knt t)"
    and set_user_timeout_kept: "I t \<Longrightarrow> I (set_user_timeout ms t)"
    and set_fin_wait2_kept: "I t \<Longrightarrow> I (set_fin_wait2_timeout ms t)"
    and set_mtu_kept: "I t \<Longrightarrow> I (snd (set_mtu mtu t))"
    and bound_restore_kept: "I t \<Longrightarrow> I (bound_restore m t)"
    and pmtu_mss_kept: "I t \<Longrightarrow> I (t\<lparr>pmtu_mss := clamp_word MIN_MTU MAX_MTU mtu - HDR_LEN\<rparr>)"
    and oversized_kept: "I t \<Longrightarrow> I (resend_oversized t)"
    and set_secret_kept: "I t \<Longrightarrow> I (set_secret key t)"
    and set_cookie_secret_kept: "I t \<Longrightarrow> I (set_cookie_secret key t)"
    and not_listener_kept: "I t \<Longrightarrow> I (not_listener t)"
    and close_unopened_kept: "I t \<Longrightarrow> I (close_unopened t)"
    and begin_close_kept: "I t \<Longrightarrow> tcb_state t \<in> {Established, CloseWait, SynRcvd} \<Longrightarrow> I (begin_close t)"
    and reserve_kept: "I t \<Longrightarrow> I (snd (send_reserve room t))"
    and extend_fin_wait2_kept: "I t \<Longrightarrow> I (extend_fin_wait2 t)"
    and extract_kept: "I t \<Longrightarrow> I (snd (snd (extract_packet bytes t)))"
begin

lemma pmtu_kept: "I t \<Longrightarrow> I (update_pmtu mtu t)"
  by (simp add: update_pmtu_def Let_def send_data_kept oversized_kept pmtu_mss_kept bound_restore_kept)

lemma abort_kept: "I t \<Longrightarrow> I (snd (tcb_abort t))"
  by (auto simp: tcb_abort_def abort_local_kept not_listener_kept intro!: seq_kept ctl_kept)

lemma quiet_call_kept: "I t \<Longrightarrow> quiet_call c \<Longrightarrow> I (tcb_call c t)"
  by (cases c)
    (simp_all add: now_kept set_egress_paused_def Let_def paused_kept arm_tlp_kept offload_kept
      set_keepalive_kept set_user_timeout_kept set_fin_wait2_kept set_mtu_kept pmtu_kept
      set_secret_kept set_cookie_secret_kept tcb_close_def send_data_kept begin_close_kept
      close_unopened_kept abort_kept reserve_kept extract_kept tcb_tick_def run_timers_kept)

end

locale uncommitted_kept = input_kept + quiet_kept +
  assumes start_active_kept: "I t \<Longrightarrow> I (start_active t)"
    and start_listen_kept: "I t \<Longrightarrow> I (start_listen t)"
    and send_kept: "I t \<Longrightarrow> I (snd (tcb_send bytes t))"
    and read_kept: "I t \<Longrightarrow> I (snd (snd (read_bytes bytes t)))"
begin

lemma recv_kept:
  assumes "I t"
  shows "I (snd (snd (tcb_recv dst t)))"
proof -
  obtain n d u where u: "read_bytes dst t = (n, d, u)" by (metis surj_pair)
  then have "I u" using read_kept [OF assms, of dst] by simp
  then have "I (snd (maybe_send_window_update (extend_fin_wait2 u)))"
    by (intro window_update_kept extend_fin_wait2_kept)
  with assms u \<open>I u\<close> show ?thesis
    by (auto simp: tcb_recv_def split: option.split prod.split sum.split)
qed

lemma connect_kept: "I t \<Longrightarrow> I (snd (tcb_connect t))"
  by (auto simp: tcb_connect_def synack_out_kept
      intro!: seq_kept syn_kept start_active_kept reset_kept not_listener_kept)

lemma packet_kept:
  "I t \<Longrightarrow> I (snd (inject_packet p t))" "I t \<Longrightarrow> I (snd (inject_packet_l4_csum_trusted p t))"
  by (simp_all add: inject_packet_def inject_packet_l4_csum_trusted_def inject_kept split: sum.split)

lemma uncommitted_call_kept: "I t \<Longrightarrow> \<forall>n. c \<noteq> SendCommit n \<Longrightarrow> I (tcb_call c t)"
  using quiet_call_kept [of t c]
  by (cases c) (simp_all add: connect_kept tcb_listen_def start_listen_kept send_kept recv_kept packet_kept)

end

locale api_kept = uncommitted_kept +
  assumes commit_kept: "I t \<Longrightarrow> I (snd (send_commit room t))"
begin

lemma call_kept: "I t \<Longrightarrow> I (tcb_call c t)"
  using uncommitted_call_kept by (cases "\<exists>n. c = SendCommit n") (auto simp: commit_kept)

lemma calls_kept: "I t \<Longrightarrow> I (fold tcb_call cs t)"
  by (induction cs arbitrary: t) (simp_all add: call_kept)

end

locale reachable_kept = api_kept +
  assumes init_kept: "caps_valid BUF RTX TXQ \<Longrightarrow> is_pow2 BUF \<Longrightarrow> I (tcb_setup cfg (tcb_zero BUF RTX TXQ))"
    and reinit_kept: "I t \<Longrightarrow> I (tcb_reinit cfg t)"
begin

lemma reachable_kept: "reachable t \<Longrightarrow> I t"
  by (induction rule: reachable.induct)
    (auto simp: tcb_init_in_place_def init_kept call_kept reinit_kept split: if_splits)

end

subsection \<open>A connection to evaluate\<close>

definition example_cfg :: tcb_config where
  "example_cfg = \<lparr>tc_local = \<lparr>ep_ip = (10, 0, 0, 1), ep_port = 80\<rparr>,
     tc_remote = \<lparr>ep_ip = (10, 0, 0, 2), ep_port = 4000\<rparr>, tc_iss = 1000, tc_initial_rto_ms = 1000\<rparr>"

definition example_tcb :: tcb where
  "example_tcb = tcb_setup example_cfg (tcb_zero 16 64 4)"

lemma example_reachable: "reachable example_tcb"
  by (rule reachable.built [of 16 64 4 example_cfg])
    (simp_all add: caps_valid_def tcb_init_in_place_def example_tcb_def is_pow2_def)

section \<open>The elementary steps\<close>

text \<open>The definitions of the steps that the locales name, by theory (those of the output layer are in
  \<^verbatim>\<open>Tcb_Output\<close>): an invariant unfolds them to discharge the assumptions.\<close>

lemmas ack_step_defs = dsack_valid_def dsack_seen_def sack_block_def queue_acked_def
  advance_una_def update_rtt_def note_progress_def pmtu_probe_on_ack_def update_send_window_def
  ack_ecn_stage_def rack_detect_def newreno_detect_def enter_fast_recovery_def tlp_on_ack_def
  exit_check_def take_cwnd_limited_def cwnd_update_def rtx_timers_off_def ack_fin_stage_def
  enter_fin_wait2_def enter_time_wait_def close_clean_def abort_local_def
  release_buffers_and_timers_def disarm_timers_def

lemmas input_step_defs = update_ts_recent_def update_ce_def on_peer_alive_def count_dup_bytes_def
  note_dsack_def take_in_order_def drop_covered_fin_def absorb_ooo_def count_received_def
  park_out_of_order_def receive_fin_def consume_fin_def advance_state_on_remote_fin_def
  maybe_consume_ooo_fin_def count_delayed_def arm_delayed_ack_def restart_time_wait_def
  reset_connection_state_def reset_to_listen_or_closed_def absorb_syn_options_def absorb_ts_def
  absorb_ws_def syn_acked_def on_established_def half_open_def third_ack_window_def
  start_passive_def synack_out_def promote_window_def promote_opts_def promote_seqs_def
  count_segs_in_def

lemmas timer_step_defs = backoff_rto_def blackhole_check_def blackhole_clamp_def count_rto_def
  forget_reneged_def loss_window_def note_tlp_def persist_rearm_def prr_credit_def
  time_wait_over_def

lemmas api_step_defs = set_now_def set_tx_csum_offload_def set_keepalive_def set_user_timeout_def
  set_fin_wait2_timeout_def set_mtu_def bound_restore_def resend_oversized_def set_secret_def
  set_cookie_secret_def install_cookie_key_def start_active_def not_listener_def start_listen_def
  close_unopened_def begin_close_def tcb_send_def queue_bytes_def send_reserve_def send_commit_def
  read_bytes_def extend_fin_wait2_def extract_packet_def

lemmas step_defs = output_step_defs ack_step_defs input_step_defs timer_step_defs api_step_defs

end
