(* ===== verification/Tcb_Invariants.thy ===== *)
theory Tcb_Invariants
  imports Tcb_Api
begin

text \<open>
  Invariants of the connection that hold after every sequence of calls. Each is a predicate
  shown to be kept by the elementary steps (an interpretation of \<open>api_kept\<close>), from which the
  locale gives every public call, and rule induction every reachable state.
\<close>

section \<open>The retransmission timeout\<close>

definition rto_ok :: "tcb \<Rightarrow> bool" where
  "rto_ok t \<longleftrightarrow> rto_ms t \<in> {RTO_MIN_MS..RTO_MAX_MS} \<and> init_rto_ms t \<in> {RTO_MIN_MS..RTO_MAX_MS}"

lemma rto_range: "RTO_MIN_MS \<le> RTO_MAX_MS"
  by (simp add: RTO_MIN_MS_def RTO_MAX_MS_def)

lemma clamp_rto: "clamp_word RTO_MIN_MS RTO_MAX_MS x \<in> {RTO_MIN_MS..RTO_MAX_MS}"
  by (simp add: clamp_word_bounds rto_range)

lemma backoff_rto_ok: "rto_ok t \<Longrightarrow> rto_ok (backoff_rto t)"
  using order_trans [OF _ sat_mul_ge, of RTO_MIN_MS "rto_ms t" 2] rto_range
  by (simp add: rto_ok_def backoff_rto_def)

lemma update_rtt_rto_ok: "rto_ok t \<Longrightarrow> rto_ok (update_rtt r t)"
  using clamp_rto by (simp add: rto_ok_def update_rtt_def Let_def)

lemma setup_rto_ok: "rto_ok (tcb_setup cfg t)"
  using clamp_rto by (simp add: rto_ok_def tcb_setup_def reset_connection_state_def)

interpretation rto: reachable_kept rto_ok
  by unfold_locales
    (simp_all add: backoff_rto_ok update_rtt_rto_ok setup_rto_ok tcb_reinit_def,
     simp_all add: rto_ok_def step_defs Let_def case_prod_beta split: step_splits)

text \<open>C25. In every state a connection can reach, by any sequence of calls, packets and clock
  settings, the retransmission timeout is between 200 ms and 60 s: the RTT estimator clamps it, and
  exponential backoff only doubles it up to the cap.\<close>

theorem rto_bounded:
  assumes "reachable t"
  shows "200 \<le> rto_ms t \<and> rto_ms t \<le> 60000"
  using rto.reachable_kept [OF assms] by (simp add: rto_ok_def RTO_MIN_MS_def RTO_MAX_MS_def)

theorem rto_bounded_witness:
  "reachable (tcb_call Tick (tcb_call (SetNow 5000) example_tcb))
   \<and> 200 \<le> rto_ms (tcb_call Tick (tcb_call (SetNow 5000) example_tcb))"
proof -
  have r: "reachable (tcb_call Tick (tcb_call (SetNow 5000) example_tcb))"
    by (intro reachable.called example_reachable)
  show ?thesis using r rto_bounded [OF r] by blast
qed

section \<open>Segment sizes and the congestion window\<close>

text \<open>The MTU and every bound derived from it stay in range, and the congestion window and the
  threshold stay positive.\<close>

definition sizes_ok :: "tcb \<Rightarrow> bool" where
  "sizes_ok t \<longleftrightarrow>
     tcb_mtu t \<in> {576..1500} \<and> local_mss t = tcb_mtu t - HDR_LEN \<and> pmtu_mss t \<in> {536..1460}
     \<and> 64 \<le> peer_mss t \<and> pmtu_restore_mss t \<le> 1460 \<and> pmtu_probe_mss t \<le> 1460
     \<and> cc_open (tcb_cc t)"

lemma mtu_to_mss: "m \<in> {576..1500} \<Longrightarrow> m - HDR_LEN \<in> {536..1460}" for m :: u16
  by (auto simp add: HDR_LEN_def word_le_nat_alt unat_sub)

lemma mtu_to_mss_sat: "m \<in> {576..1500} \<Longrightarrow> sat_sub m HDR_LEN = m - HDR_LEN" for m :: u16
  by (simp add: HDR_LEN_def sat_sub_def word_le_nat_alt)

lemma clamp_mtu: "clamp_word MIN_MTU MAX_MTU m \<in> {576..1500}"
  using clamp_word_bounds [of MIN_MTU MAX_MTU m] by (simp add: MIN_MTU_def MAX_MTU_def MAX_PACKET_def)

lemma unat_u16_up: "unat (ucast (x :: u16) :: u32) = unat x"
  by (simp add: unsigned_ucast_eq take_bit_nat_eq_self_iff less_trans [OF unsigned_less])

lemma mss_ucast_pos: "(m :: u16) \<in> {536..1460} \<Longrightarrow> 0 < (ucast m :: u32)"
  by (simp add: word_le_nat_alt word_less_nat_alt unat_u16_up)

lemma mtu_values:
  assumes "576 \<le> m" and "m \<le> 1500"
  shows "sat_sub m HDR_LEN = m - HDR_LEN"
    and "536 \<le> m - HDR_LEN" and "m - HDR_LEN \<le> 1460"
    and "cc_open (reno_new (initial_window (ucast (m - HDR_LEN))))"
  using assms mtu_to_mss [of m] mss_ucast_pos [of "m - HDR_LEN"]
  by (simp_all add: mtu_to_mss_sat cc_open_new initial_window_pos)

lemma reset_sizes_ok: "tcb_mtu t \<in> {576..1500} \<Longrightarrow> sizes_ok (reset_connection_state t)"
  by (simp add: sizes_ok_def reset_connection_state_def mtu_values DEFAULT_PEER_MSS_def)

lemma cap_bounds:
  assumes "sizes_ok t"
  shows "min (min (local_mss t) (peer_mss t)) (pmtu_mss t) \<in> {64..tcb_mtu t - HDR_LEN}"
proof -
  have "64 \<le> local_mss t" and "64 \<le> peer_mss t" and "64 \<le> pmtu_mss t"
    using assms mtu_to_mss [of "tcb_mtu t"] by (auto simp: sizes_ok_def intro: order_trans [of 64 536])
  then show ?thesis using assms by (simp add: sizes_ok_def min_le_iff_disj)
qed

lemma mss_payload_fits:
  assumes "sizes_ok t"
  shows "52 \<le> unat (mss_payload t)
    \<and> unat (mss_payload t) + (if ts_enabled t then 12 else 0) + 40 \<le> unat (tcb_mtu t)"
proof -
  define cap where "cap = min (min (local_mss t) (peer_mss t)) (pmtu_mss t)"
  have "576 \<le> unat (tcb_mtu t)" using assms by (simp add: sizes_ok_def word_le_nat_alt)
  then have "64 \<le> unat (ucast cap :: u32)" "unat (ucast cap :: u32) + 40 \<le> unat (tcb_mtu t)"
    using cap_bounds [OF assms] unfolding cap_def [symmetric]
    by (auto simp add: word_le_nat_alt unat_u16_up HDR_LEN_def unat_sub)
  then show ?thesis
    by (auto simp: mss_payload_def Let_def cap_def [symmetric] word_le_nat_alt sat_sub_def unat_sub max_def)
qed

lemma sizes_ok_steps:
  "sizes_ok t \<Longrightarrow> sizes_ok (blackhole_clamp BLACKHOLE_MSS1 t)"
  "sizes_ok t \<Longrightarrow> sizes_ok (blackhole_clamp BLACKHOLE_MSS2 t)"
  "sizes_ok t \<Longrightarrow> sizes_ok (pmtu_probe_on_ack t)"
  "sizes_ok t \<Longrightarrow> sizes_ok (bound_restore m t)"
  "sizes_ok t \<Longrightarrow> sizes_ok (snd (set_mtu mtu t))"
  "sizes_ok t \<Longrightarrow> sizes_ok (t\<lparr>pmtu_mss := clamp_word MIN_MTU MAX_MTU mtu - HDR_LEN\<rparr>)"
  "sizes_ok t \<Longrightarrow> sizes_ok (absorb_syn_options seg t)"
  "sizes_ok t \<Longrightarrow> sizes_ok (promote_seqs seg copts t)"
  subgoal by (auto simp: sizes_ok_def blackhole_clamp_def Let_def BLACKHOLE_MSS1_def)
  subgoal by (auto simp: sizes_ok_def blackhole_clamp_def Let_def BLACKHOLE_MSS2_def DEFAULT_PEER_MSS_def)
  subgoal by (auto simp: sizes_ok_def pmtu_probe_on_ack_def Let_def le_max_iff_disj)
  subgoal by (auto simp: sizes_ok_def bound_restore_def Let_def min_le_iff_disj)
  subgoal using mtu_to_mss [OF clamp_mtu, of mtu] clamp_mtu [of mtu]
    by (simp add: sizes_ok_def set_mtu_def Let_def cc_open_new initial_window_pos mss_ucast_pos)
  subgoal using mtu_to_mss [OF clamp_mtu, of mtu] by (simp add: sizes_ok_def)
  subgoal by (simp add: sizes_ok_def absorb_syn_options_def Let_def absorb_ts_def absorb_ws_def MIN_PEER_MSS_def le_max_iff_disj split: option.split)
  subgoal by (simp add: sizes_ok_def promote_seqs_def Let_def MIN_PEER_MSS_def le_max_iff_disj)
  done

lemma note_probe_sizes_ok:
  "sizes_ok t \<Longrightarrow> sizes_ok u \<Longrightarrow> pmtu_probe_len u = Some (plen, cap) \<Longrightarrow> sizes_ok (note_probe seq plen cap t)"
  by (auto simp: sizes_ok_def note_probe_def pmtu_probe_len_def Let_def BLACKHOLE_MSS1_def split: if_splits)

lemma with_state_sizes_ok: "sizes_ok t \<Longrightarrow> sizes_ok (t\<lparr>tcb_state := st\<rparr>)"
  by (simp add: sizes_ok_def)

lemma setup_sizes_ok: "sizes_ok (tcb_setup cfg t)"
  unfolding tcb_setup_def
proof (rule with_state_sizes_ok, rule reset_sizes_ok)
qed (simp add: MAX_MTU_def MAX_PACKET_def)

lemma cc_open_halved:
  "0 < mss \<Longrightarrow> cc_open (c\<lparr>cc_ssthresh := max x (sat_mul mss 2), cc_cwnd := max x (sat_mul mss 2)\<rparr>)"
  by (simp add: cc_open_def two_mss_pos)

lemma mtu_of_sizes_ok: "sizes_ok t \<Longrightarrow> tcb_mtu t \<in> {576..1500}"
  by (simp add: sizes_ok_def)

interpretation sizes: reachable_kept sizes_ok
  by unfold_locales
    (simp_all add: sizes_ok_steps note_probe_sizes_ok setup_sizes_ok tcb_reinit_def reset_sizes_ok mtu_of_sizes_ok
       blackhole_check_def,
     simp_all add: sizes_ok_def step_defs mtu_values cc_open_halved DEFAULT_PEER_MSS_def cc_open_intros initial_window_pos mss_payload_pos cc_open_new Let_def case_prod_beta split: step_splits)
text \<open>C23. In every reachable state a full segment fits the configured MTU: its payload, the
  timestamp option when negotiated, and the 40 bytes of headers are at most the MTU, and the
  payload is at least 52 bytes. No peer MSS option, ICMP report, MTU setting or black-hole probe
  breaks it.\<close>

theorem full_segment_fits_mtu:
  assumes "reachable t"
  shows "52 \<le> unat (mss_payload t)
    \<and> unat (mss_payload t) + (if ts_enabled t then 12 else 0) + 40 \<le> unat (tcb_mtu t)
    \<and> unat (tcb_mtu t) \<le> MAX_PACKET"
  using mss_payload_fits sizes.reachable_kept [OF assms]
  by (simp add: sizes_ok_def word_le_nat_alt MAX_PACKET_def)

theorem full_segment_fits_mtu_witness:
  "unat (mss_payload (fold tcb_call [SetMtu 600, UpdatePmtu 0, Connect] example_tcb)) \<le> MAX_PACKET"
  using full_segment_fits_mtu [OF reachable_calls [OF example_reachable, of "[SetMtu 600, UpdatePmtu 0, Connect]"]]
  by linarith

text \<open>C24. The congestion window and the slow-start threshold are positive in every reachable state:
  no sequence of losses, timeouts, ECN echoes, D-SACKs or idle periods closes the window, so a
  sender with data always has the right to send some of it.\<close>

theorem congestion_window_never_closes:
  assumes "reachable t"
  shows "0 < cc_cwnd (tcb_cc t) \<and> 0 < cc_ssthresh (tcb_cc t)"
  using sizes.reachable_kept [OF assms] by (simp add: sizes_ok_def cc_open_def)

theorem congestion_window_never_closes_witness:
  "0 < cc_cwnd (tcb_cc (fold tcb_call [SetNow 7, Connect, SetNow 9000, Tick] example_tcb))"
  using congestion_window_never_closes
    [OF reachable_calls [OF example_reachable, of "[SetNow 7, Connect, SetNow 9000, Tick]"]]
  by blast

section \<open>Buffers\<close>

definition stores_ok :: "tcb \<Rightarrow> bool" where
  "stores_ok t \<longleftrightarrow>
     ring_inv (send_ring t) \<and> ring_inv (recv_ring t)
     \<and> ring_capacity (send_ring t) = ring_capacity (recv_ring t) \<and> tx_inv (tcb_tx_ring t)"

lemma ring_inv_steps:
  assumes "ring_inv r"
  shows "ring_inv (snd (ring_write r xs))" "ring_capacity (snd (ring_write r xs)) = ring_capacity r"
    and "ring_inv (snd (ring_write_at r k xs))" "ring_capacity (snd (ring_write_at r k xs)) = ring_capacity r"
    and "ring_inv (snd (ring_commit r k))" "ring_capacity (snd (ring_commit r k)) = ring_capacity r"
    and "ring_inv (ring_consume r k)" "ring_capacity (ring_consume r k) = ring_capacity r"
    and "ring_inv (snd (snd (ring_read r xs)))" "ring_capacity (snd (snd (ring_read r xs))) = ring_capacity r"
    and "ring_inv (ring_clear r)" "ring_capacity (ring_clear r) = ring_capacity r"
  using ring_write_refines [OF assms prod.collapse [symmetric]] ring_write_at_refines [OF assms prod.collapse [symmetric]]
    ring_commit_refines [OF assms prod.collapse [symmetric]] ring_consume_refines [OF assms refl refl]
    ring_clear_refines [OF assms]
  by (simp_all add: ring_read_def case_prod_beta)

lemma peek_fill_length: "ring_inv r \<Longrightarrow> length (snd (peek_fill r k d)) = length d"
  by (simp add: peek_fill_def ring_peek_at_refines Let_def)

lemma tx_inv_push: "tx_inv r \<Longrightarrow> same_size f \<Longrightarrow> tx_inv (snd (tx_push_with f r))"
  using tx_push_refines [OF _ _ prod.collapse [symmetric], of r f] by (simp add: fills_slot_def same_size_def)

lemma tx_inv_pop: "tx_inv r \<Longrightarrow> tx_inv (snd (snd (tx_pop_into out r)))"
  using tx_pop_into_refines [of r out] by (auto split: list.splits if_splits)

lemma stores_ok_pushes:
  assumes "stores_ok t"
  shows "stores_ok (snd (push_segment seq ack fl w opts pl cp t))"
    and "stores_ok (snd (push_bare remote seq ack fl w opts t))"
proof -
  have "same_size (emit_with src dst sp dp seq ack fl w opts n (peek_fill (send_ring t) k) i e c)"
    and "same_size (emit_with src dst sp dp seq ack fl w opts n (\<lambda>d. (True, d)) i e c)" for src dst sp dp n k i e c
    using assms by (auto intro!: same_size_emit_with peek_fill_length simp: stores_ok_def)
  then show "stores_ok (snd (push_segment seq ack fl w opts pl cp t))"
    and "stores_ok (snd (push_bare remote seq ack fl w opts t))"
    using assms
    by (simp_all add: stores_ok_def push_segment_def push_bare_def on_tx_ring_def case_prod_beta tx_inv_push)
qed

lemma stores_ok_init: "caps_valid BUF RTX TXQ \<Longrightarrow> is_pow2 BUF \<Longrightarrow> stores_ok (tcb_zero BUF RTX TXQ)"
  using tx_inv_new [of TXQ]
  by (simp add: stores_ok_def tcb_zero_def caps_valid_def ring_inv_def ring_capacity_def)

interpretation stores: reachable_kept stores_ok
  by unfold_locales
    (simp_all only: stores_ok_pushes,
     simp_all add: stores_ok_def step_defs ring_inv_steps tx_inv_clear tx_inv_pop
       tcb_reinit_def tcb_setup_def stores_ok_init [unfolded stores_ok_def]
       Let_def case_prod_beta split: step_splits)
text \<open>C19. In every reachable state the send and receive rings are well formed with one common
  power-of-two capacity, and the egress ring is well formed: its indices are in range, every slot
  has \<open>MAX_PACKET\<close> bytes, and every staged packet has between 1 and \<open>MAX_PACKET\<close> bytes. So no
  slice of the code is taken out of bounds.\<close>

theorem buffers_well_formed:
  assumes "reachable t"
  shows "ring_inv (send_ring t) \<and> ring_inv (recv_ring t)
    \<and> ring_capacity (send_ring t) = ring_capacity (recv_ring t) \<and> tx_inv (tcb_tx_ring t)"
  using stores.reachable_kept [OF assms] by (simp add: stores_ok_def)

theorem buffers_well_formed_witness:
  "tx_inv (tcb_tx_ring (fold tcb_call [Connect, InjectPacket [69, 0], Tick] example_tcb))"
  using buffers_well_formed
    [OF reachable_calls [OF example_reachable, of "[Connect, InjectPacket [69, 0], Tick]"]]
  by blast

section \<open>Budgets\<close>

text \<open>A deadline that, when armed, is at most the bound.\<close>

definition dl_within :: "deadline \<Rightarrow> u64 \<Rightarrow> bool" where
  "dl_within d b \<longleftrightarrow> (case dl_get d of Some x \<Rightarrow> x \<le> b | None \<Rightarrow> True)"

lemma dl_within_off [simp]: "dl_within dl_off b"
  by (simp add: dl_within_def dl_get_def dl_off_def)

lemma dl_within_at: "x \<le> b \<Longrightarrow> dl_within (dl_at x) b"
  by (auto simp: dl_within_def dl_get_def dl_at_def sat_add_def word_le_nat_alt unat_word_ariths unat_minus_one unsigned_minus_1_eq_mask mask_eq_exp_minus_1 intro: order_trans)

lemma sat_add_mono: "b \<le> c \<Longrightarrow> sat_add a b \<le> sat_add a (c :: 'a::len word)"
  using unat_le_max [of "a + b"] by (auto simp: word_le_nat_alt sat_simps)

definition limits_ok :: "tcb \<Rightarrow> bool" where
  "limits_ok t \<longleftrightarrow>
     dsack_segs t \<le> st_segs_retrans (tcb_stats t)
     \<and> dl_within (time_wait_deadline t) (sat_add (time_wait_since_ms t) TIME_WAIT_MAX_MS)"

lemma time_wait_spans: "sat_add a TIME_WAIT_MS \<le> sat_add a TIME_WAIT_MAX_MS"
  by (rule sat_add_mono) (simp add: TIME_WAIT_MS_def TIME_WAIT_MAX_MS_def)

lemma retrans_grows: "(a :: u64) \<le> b \<Longrightarrow> a \<le> sat_add b 1"
  using sat_add_ge order_trans by blast

interpretation limits: reachable_kept limits_ok
  by unfold_locales
    (simp_all add: limits_ok_def step_defs dl_within_at time_wait_spans retrans_grows stats_default_def not_less
       tcb_reinit_def tcb_setup_def Let_def case_prod_beta split: step_splits)





section \<open>Lent send space\<close>

text \<open>Between \<^verbatim>\<open>send_reserve\<close> and \<^verbatim>\<open>send_commit\<close> the application writes into the ring storage
  directly, so no call in between may write there.\<close>

definition lent_same :: "u8 list \<Rightarrow> usize \<Rightarrow> tcb \<Rightarrow> bool" where
  "lent_same B n t \<longleftrightarrow> n \<noteq> 0 \<and> rb_buf (send_ring t) = B \<and> send_lent t = n"

interpretation lent: uncommitted_kept "lent_same B n" for B n
  by unfold_locales
    (simp_all add: lent_same_def step_defs ring_clear_def ring_consume_def
       Let_def case_prod_beta split: step_splits)
lemma lent_calls:
  "lent_same B n t \<Longrightarrow> \<forall>c\<in>set cs. \<forall>k. c \<noteq> SendCommit k \<Longrightarrow> lent_same B n (fold tcb_call cs t)"
  by (induction cs arbitrary: t) (simp_all add: lent.uncommitted_call_kept)

text \<open>C22. While send space is lent out, no sequence of calls other than \<^verbatim>\<open>send_commit\<close> (packets,
  timers, closing and reopening included) changes the loan or a single byte of the send ring's
  storage, so the bytes the application writes into its regions are the ones that get committed.\<close>

theorem lent_space_is_untouched:
  assumes "send_lent t \<noteq> 0" and "\<forall>c\<in>set cs. \<forall>n. c \<noteq> SendCommit n"
  shows "send_lent (fold tcb_call cs t) = send_lent t
    \<and> rb_buf (send_ring (fold tcb_call cs t)) = rb_buf (send_ring t)"
  using lent_calls [of "rb_buf (send_ring t)" "send_lent t" t cs] assms by (simp add: lent_same_def)

theorem lent_space_is_untouched_witness:
  "send_lent (fold tcb_call [Tick, Send [1], Close] (example_tcb\<lparr>send_lent := 5\<rparr>)) = 5"
  using lent_space_is_untouched [of "example_tcb\<lparr>send_lent := 5\<rparr>" "[Tick, Send [1], Close]"]
  by simp

end
