(* ===== verification/Tcb_States.thy ===== *)
theory Tcb_States
  imports Tcb_Api
begin

text \<open>
  The state machine of the connection. \<open>stays_in s\<close> is where packets in a synchronized state and
  timers in any state can lead; the handshake, the listener and the calls that open and close add
  their own moves. Every call moves only along \<^verbatim>\<open>debug_transition_allowed\<close>, the table of
  \<^verbatim>\<open>state.rs\<close>.
\<close>

section \<open>Operations that keep the state\<close>

interpretation same_state: output_kept "\<lambda>t. tcb_state t = s" for s
  by unfold_locales
    (simp_all add: output_step_defs Let_def case_prod_beta split: step_splits)

section \<open>Packets in a synchronized state, and timers\<close>

fun stays_in :: "state \<Rightarrow> state set" where
  "stays_in Closed = {Closed}"
| "stays_in Listen = {Listen, Closed}"
| "stays_in SynSent = {SynSent, Closed}"
| "stays_in SynRcvd = {SynRcvd, Listen, Closed}"
| "stays_in Established = {Established, CloseWait, Closed}"
| "stays_in FinWait1 = {FinWait1, FinWait2, Closing, TimeWait, Closed}"
| "stays_in FinWait2 = {FinWait2, TimeWait, Closed}"
| "stays_in Closing = {Closing, TimeWait, Closed}"
| "stays_in TimeWait = {TimeWait, Closed}"
| "stays_in CloseWait = {CloseWait, Closed}"
| "stays_in LastAck = {LastAck, Closed}"

lemma stays_in_refl [simp]: "s \<in> stays_in s" by (cases s) simp_all

lemma stays_in_Closed [simp]: "Closed \<in> stays_in s" by (cases s) simp_all

lemma stays_in_allowed: "s' \<in> stays_in s \<Longrightarrow> debug_transition_allowed s s'"
  by (cases s) (auto simp: debug_transition_allowed_def)

lemma stays_in_moves:
  assumes "r \<in> stays_in s"
  shows "r = SynRcvd \<Longrightarrow> Listen \<in> stays_in s" and "r = Established \<Longrightarrow> CloseWait \<in> stays_in s"
    and "r = FinWait1 \<Longrightarrow> FinWait2 \<in> stays_in s" and "r = FinWait1 \<Longrightarrow> Closing \<in> stays_in s"
    and "r = FinWait1 \<Longrightarrow> TimeWait \<in> stays_in s" and "r = FinWait2 \<Longrightarrow> TimeWait \<in> stays_in s"
    and "r = Closing \<Longrightarrow> TimeWait \<in> stays_in s"
  using assms by (cases s; auto)+

lemma stays_in_after_fin:
  assumes "tcb_state t \<in> stays_in s"
  shows "tcb_state (advance_state_on_remote_fin t) \<in> stays_in s"
    and "tcb_state (ack_fin_stage t) \<in> stays_in s"
  using assms stays_in_moves [OF assms]
  by (cases "tcb_state t"; simp add: advance_state_on_remote_fin_def ack_fin_stage_def enter_fin_wait2_def
      enter_time_wait_def close_clean_def release_buffers_and_timers_def disarm_timers_def)+

lemma stays_in_fin_steps:
  assumes "tcb_state t \<in> stays_in s"
  shows "tcb_state (snd (receive_fin l r t)) \<in> stays_in s"
    and "tcb_state (snd (maybe_consume_ooo_fin t)) \<in> stays_in s"
  using assms
  by (auto simp: receive_fin_def maybe_consume_ooo_fin_def consume_fin_def
      intro!: stays_in_after_fin split: option.split)

interpretation settled: sync_kept "\<lambda>t. tcb_state t \<in> stays_in s" for s
  by unfold_locales
    (simp_all only: stays_in_after_fin stays_in_fin_steps,
     simp_all add: step_defs stays_in_moves Let_def case_prod_beta split: step_splits)

interpretation settled: timers_kept "\<lambda>t. tcb_state t \<in> stays_in s" for s
  by unfold_locales
    (simp_all add: step_defs stays_in_moves Let_def case_prod_beta split: step_splits)

section \<open>The handshake and the listener\<close>

lemma synchronized_state: "tcb_state t = s \<Longrightarrow> tcb_state (snd (on_synchronized seg t)) \<in> stays_in s"
  by (rule settled.synchronized_kept) simp

lemma pure_ack_state [simp]: "tcb_state (snd (send_pure_ack t)) = tcb_state t"
  by (rule same_state.pure_ack_kept) simp

lemma oow_ack_state [simp]: "tcb_state (snd (send_oow_ack t)) = tcb_state t"
  by (rule same_state.oow_ack_kept) simp

lemma send_data_state [simp]: "tcb_state (snd (maybe_send_data t)) = tcb_state t"
  by (rule same_state.send_data_kept) simp

lemma oow_allowed_state [simp]: "tcb_state (snd (oow_allowed t)) = tcb_state t"
  by (rule same_state.oow_allowed_kept) simp

lemma oow_rst_state [simp]: "tcb_state (snd (oow_rst seg t)) = tcb_state t"
  using same_state.rst_to_kept [of "snd (oow_allowed t)" "tcb_state t"]
  by (simp add: oow_rst_def case_prod_beta)

lemma synack_then_state:
  assumes "\<And>u. tcb_state (f u) = tcb_state u"
  shows "tcb_state (snd (bind_rs emit_synack (\<lambda>_. modify_rs f) t)) = tcb_state t"
  using assms
  by (intro bind_rs_keeps [of "\<lambda>u. tcb_state u = tcb_state t"] same_state.synack_kept) simp_all

lemma synack_again_state [simp]: "tcb_state (snd (then_rs emit_synack (ret_rs ()) t)) = tcb_state t"
  by (intro then_rs_keeps [of "\<lambda>u. tcb_state u = tcb_state t"] same_state.synack_kept) simp_all

lemma now_established_state [simp]: "tcb_state (now_established t) = Established"
  by (simp add: now_established_def on_established_def on_peer_alive_def Let_def)

lemma active_open_state: "tcb_state (snd (complete_active_open seg t)) = Established"
  by (simp add: complete_active_open_def Let_def)

lemma half_open_state [simp]: "tcb_state (half_open t) = SynRcvd"
  by (simp add: half_open_def)

lemma synack_out_state: "tcb_state (synack_out t) = tcb_state t" "tcb_state (arm_rto t) = tcb_state t"
  by (simp_all add: synack_out_def arm_rto_def)

lemma simultaneous_open_state: "tcb_state (snd (simultaneous_open seg t)) = SynRcvd"
  by (simp add: simultaneous_open_def Let_def synack_then_state synack_out_state)

lemma stateful_state: "tcb_state (snd (accept_syn_stateful seg t)) = SynRcvd"
  by (simp add: accept_syn_stateful_def Let_def synack_then_state synack_out_state)

lemma passive_open_state: "tcb_state (snd (complete_passive_open seg t)) \<in> stays_in Established"
  by (simp add: complete_passive_open_def Let_def synchronized_state del: stays_in.simps)

lemma promote_state: "tcb_state (snd (promote_via_cookie seg opts t)) \<in> stays_in Established"
proof -
  have "tcb_state (on_established (promote_window seg u)) = Established" for u
    by (simp add: on_established_def on_peer_alive_def promote_window_def Let_def)
  then show ?thesis unfolding promote_via_cookie_def by (rule synchronized_state)
qed

lemma try_promote_state:
  "tcb_state (snd (try_promote_via_cookie seg t)) \<in> insert (tcb_state t) (stays_in Established)"
proof (cases "validate_cookie seg t")
  case (Some opts)
  have "tcb_state (snd (then_rs (promote_via_cookie seg opts) (ret_rs True) t)) \<in> stays_in Established"
    by (intro then_rs_keeps [of "\<lambda>u. tcb_state u \<in> stays_in Established"] promote_state) simp
  with Some show ?thesis by (simp add: try_promote_via_cookie_def del: stays_in.simps)
qed (simp add: try_promote_via_cookie_def)

lemma try_promote_then_state:
  "tcb_state (snd (then_rs (try_promote_via_cookie seg) (ret_rs ()) t))
   \<in> insert (tcb_state t) (stays_in Established)"
  by (intro then_rs_keeps [of "\<lambda>u. tcb_state u \<in> insert (tcb_state t) (stays_in Established)"]
      try_promote_state) simp

lemma closed_state [simp]: "tcb_state (abort_local t) = Closed" "tcb_state (close_clean t) = Closed"
  by (simp_all add: abort_local_def close_clean_def release_buffers_and_timers_def disarm_timers_def)

lemma syn_sent_state:
  "tcb_state t = SynSent \<Longrightarrow>
   tcb_state (snd (on_syn_sent seg t)) \<in> {SynSent, Established, SynRcvd, Closed}"
  by (simp add: on_syn_sent_def Let_def active_open_state simultaneous_open_state)

lemma reset_to_listen_state:
  "tcb_state (reset_to_listen_or_closed t) = (if is_listener t then Listen else Closed)"
  by (simp add: reset_to_listen_or_closed_def Let_def)

lemma syn_rcvd_state:
  "tcb_state t = SynRcvd \<Longrightarrow>
   tcb_state (snd (on_syn_rcvd seg t)) \<in> {SynRcvd, Established, CloseWait, Closed, Listen}"
  using passive_open_state [of seg t]
  by (auto simp: on_syn_rcvd_def Let_def reset_to_listen_state case_prod_beta)

lemma listen_state:
  "tcb_state t = Listen \<Longrightarrow>
   tcb_state (snd (on_listen seg t)) \<in> {Listen, SynRcvd, Established, CloseWait, Closed}"
  using try_promote_then_state [of seg t] by (auto simp: on_listen_def stateful_state)

lemma cookie_synack_state [simp]: "tcb_state (snd (emit_cookie_synack seg t)) = tcb_state t"
  by (rule same_state.cookie_synack_kept) simp

lemma busy_listener_state:
  "tcb_state (snd (on_busy_listener seg t)) \<in>
   insert (tcb_state t) (if tcb_state t = SynRcvd then {Established, CloseWait, Closed} else {})"
  using promote_state [of seg _ "reset_to_listen_or_closed t"]
  by (auto simp: on_busy_listener_def Let_def split: option.split)

lemma dispatch_state:
  "debug_transition_allowed (tcb_state t) (tcb_state (snd (dispatch_segment seg t)))"
proof -
  have c: "tcb_state (count_segs_in t) = tcb_state t" by (rule state_count_segs_in)
  show ?thesis
    using syn_sent_state [of "count_segs_in t" seg] syn_rcvd_state [of "count_segs_in t" seg]
      listen_state [of "count_segs_in t" seg]
      stays_in_allowed [OF synchronized_state [OF refl], of "count_segs_in t" seg]
    by (cases "tcb_state t") (auto simp: dispatch_segment_def c debug_transition_allowed_def)
qed

text \<open>A SYN that replaces a half-open connection restarts it; every other SYN-RCVD move is a listed
  one.\<close>

lemma replaced_state:
  assumes "may_replace_half_open seg t"
  shows "tcb_state (snd (dispatch_segment seg (reset_to_listen_or_closed t))) = SynRcvd"
  using assms
  by (simp add: may_replace_half_open_def dispatch_segment_def reset_to_listen_state on_listen_def
      stateful_state)

lemma inject_state: "debug_transition_allowed (tcb_state t) (tcb_state (snd (inject_segment seg t)))"
  using dispatch_state [of t seg] busy_listener_state [of seg t] replaced_state [of seg t]
  by (auto simp: inject_segment_def Let_def may_replace_half_open_def debug_transition_allowed_def
      split: if_splits)

section \<open>The public calls\<close>

lemma bind_state:
  assumes "\<And>x u. tcb_state (snd (f x u)) = tcb_state u" and "tcb_state (snd (m t)) = s"
  shows "tcb_state (snd (bind_rs m f t)) = s"
  using assms by (intro bind_rs_keeps [of "\<lambda>u. tcb_state u = s"]) simp_all

lemma recv_state: "tcb_state (snd (snd (tcb_recv dst t))) = tcb_state t"
proof -
  have "tcb_state (snd (snd (read_bytes dst t))) = tcb_state t"
    by (simp add: read_bytes_def case_prod_beta)
  moreover have "tcb_state (extend_fin_wait2 u) = tcb_state u" for u by (simp add: extend_fin_wait2_def)
  ultimately have "tcb_state (snd (maybe_send_window_update (extend_fin_wait2 (snd (snd (read_bytes dst t))))))
      = tcb_state t"
    by (intro same_state.window_update_kept) simp
  with \<open>tcb_state (snd (snd (read_bytes dst t))) = tcb_state t\<close> show ?thesis
    by (auto simp: tcb_recv_def case_prod_beta split: option.split sum.split)
qed

lemma connect_state: "tcb_state (snd (tcb_connect t)) \<in> {tcb_state t, SynSent}"
proof -
  have "tcb_state (snd (emit_syn u)) = tcb_state u" for u by (rule same_state.syn_kept) simp
  then have "tcb_state (snd (bind_rs emit_syn (\<lambda>sent t. (Inr (), if sent then synack_out t else t)) u))
      = tcb_state u" for u
    by (intro bind_state) (simp_all add: synack_out_state)
  then show ?thesis by (simp add: tcb_connect_def start_active_def)
qed

lemma abort_state: "tcb_state (snd (tcb_abort t)) \<in> {tcb_state t, Closed}"
proof -
  have "tcb_state (snd (emit_ctl fl seq ack t)) = tcb_state t" for fl seq ack
    by (rule same_state.ctl_kept) simp
  then have "tcb_state (snd (bind_rs (emit_ctl fl seq ack) (\<lambda>_. modify_rs abort_local) t))
      \<in> {tcb_state t, Closed}" for fl seq ack
    by (intro bind_rs_keeps [of "\<lambda>u. tcb_state u \<in> {tcb_state t, Closed}"]) simp_all
  then show ?thesis by (simp add: tcb_abort_def)
qed

lemma pmtu_state: "tcb_state (update_pmtu mtu t) = tcb_state t"
  by (simp add: update_pmtu_def Let_def bound_restore_def resend_oversized_def)

lemma close_state: "debug_transition_allowed (tcb_state t) (tcb_state (snd (tcb_close t)))"
  by (cases "tcb_state t")
    (simp_all add: tcb_close_def begin_close_def close_unopened_def debug_transition_allowed_def)

lemma timers_state: "debug_transition_allowed (tcb_state t) (tcb_state (snd (run_timers t)))"
  by (intro stays_in_allowed settled.run_timers_kept) simp

text \<open>C3. Every call of the public interface, on every connection block and with every argument
  (packet, clock, time, buffer), moves the connection state only along an edge of
  \<^verbatim>\<open>State::debug_transition_allowed\<close>, the relation the state diagram draws.\<close>

theorem every_call_follows_the_state_diagram:
  "debug_transition_allowed (tcb_state t) (tcb_state (tcb_call c t))"
proof (cases c)
  case Connect
  then show ?thesis
    using connect_state [of t] by (auto simp: tcb_connect_def debug_transition_allowed_def split: if_splits)
next
  case ListenCall
  then show ?thesis
    by (auto simp: tcb_listen_def start_listen_def debug_transition_allowed_def)
next
  case Abort
  then show ?thesis using abort_state [of t] transition_to_Closed [of "tcb_state t"]
    by (cases "tcb_state t = Closed") auto
next
  case (InjectPacket p)
  then show ?thesis using inject_state by (auto simp: inject_packet_def split: sum.split)
next
  case (InjectTrusted p)
  then show ?thesis using inject_state by (auto simp: inject_packet_l4_csum_trusted_def split: sum.split)
qed (simp_all add: close_state timers_state tcb_tick_def recv_state pmtu_state set_egress_paused_def
    maybe_arm_tlp_def api_step_defs Let_def case_prod_beta)

end
