(* ===== verification/Tcb_Deadlines.thy ===== *)
theory Tcb_Deadlines
  imports Tcb_Invariants Tcb_States
begin

text \<open>
  What a tick leaves armed. \<open>ticking\<close> says which deadlines are already known to lie after the
  current time; each timer of \<^verbatim>\<open>run_timers\<close> adds its own, and everything the timers send keeps
  them. The result is the promise of \<^verbatim>\<open>next_deadline\<close>: a host that sleeps until it and ticks does
  not spin, unless the egress ring is full.
\<close>

section \<open>Deadlines after now\<close>

definition later :: "u64 \<Rightarrow> deadline \<Rightarrow> bool" where
  "later now d \<longleftrightarrow> \<not> dl_due now d"

lemma later_off [simp]: "later now dl_off"
  by (simp add: later_def dl_due_def dl_get_def dl_off_def)

lemma not_armed_off: "\<not> dl_is_armed d \<longleftrightarrow> d = dl_off"
  by (simp add: dl_is_armed_def dl_off_def)

lemma unat_dl_at: "unat (dl_at d) = min (unat d + 1) 18446744073709551615"
  by (simp add: dl_at_def sat_simps min_def)

lemma dl_at_nonzero: "dl_at d \<noteq> 0"
  using unat_dl_at [of d] by (auto simp flip: unat_pos_iff)

lemma later_at: "now < - 2 \<Longrightarrow> later now (dl_at d) \<longleftrightarrow> now < d"
proof -
  assume n: "now < - 2"
  have m: "unat now < 18446744073709551614" using n by (simp add: word_less_nat_alt)
  have "unat (dl_at d - 1) = min (unat d) 18446744073709551614"
    using unat_dl_at [of d] dl_at_nonzero [of d] by (simp add: unat_minus_one min_def split: if_splits)
  then show ?thesis
    using m dl_at_nonzero by (simp add: later_def dl_due_def dl_get_def not_le word_less_nat_alt min_def)
qed

lemma later_in: "now < - 2 \<Longrightarrow> 0 < w \<Longrightarrow> later now (dl_at (sat_add now w))"
  using unat_pos_iff [of w]
  by (simp add: later_at word_less_nat_alt sat_simps)

lemma later_get: "dl_get d = Some r \<Longrightarrow> later now d \<longleftrightarrow> now < r"
  by (simp add: later_def dl_due_def not_le)

lemma ucast_pos: "w \<noteq> 0 \<Longrightarrow> 0 < (ucast (w :: u32) :: u64)"
  by (simp add: word_less_nat_alt unsigned_ucast_eq take_bit_nat_eq_self_iff
      less_trans [OF unsigned_less] unat_pos_iff)

text \<open>
  The deadlines handled so far are later than \<open>now\<close>: always those of TIME-WAIT and FIN-WAIT-2,
  and the retransmission deadline outside the synchronized states; the tail-loss probe (unless the
  retransmission timer, which replaces it, is due), the retransmission timer, RACK and persist
  according to the flags.
\<close>

definition ticking :: "bool \<Rightarrow> bool \<Rightarrow> bool \<Rightarrow> bool \<Rightarrow> u64 \<Rightarrow> tcb \<Rightarrow> bool" where
  "ticking tlp rto rack persist now t \<longleftrightarrow>
     now_ms t = now \<and> now < - 2 \<and> rto_ms t \<noteq> 0
     \<and> later now (time_wait_deadline t) \<and> (tcb_state t = FinWait2 \<longrightarrow> later now (fin_wait2_deadline t))
     \<and> (is_synchronized (tcb_state t) \<or> later now (rto_deadline t))
     \<and> (tlp \<longrightarrow> later now (tlp_deadline t) \<or> \<not> later now (rto_deadline t) \<and> snd_una t \<noteq> snd_nxt t)
     \<and> (rto \<longrightarrow> later now (rto_deadline t))
     \<and> (rack \<longrightarrow> later now (rack_deadline t))
     \<and> (persist \<longrightarrow> later now (persist_deadline t))"

lemma ticking_arm_rto: "ticking a b c d now t \<Longrightarrow> ticking a True c d now (arm_rto (t\<lparr>tlp_deadline := dl_off\<rparr>))"
  by (simp add: ticking_def arm_rto_def later_in ucast_pos)

lemma ticking_arm_rto_if_off: "ticking a b c d now t \<Longrightarrow> ticking a b c d now (arm_rto_if_off t)"
  by (auto simp add: ticking_def arm_rto_if_off_def arm_rto_def not_armed_off later_in ucast_pos)

lemma ticking_arm_tlp:
  assumes "ticking a b c d now t"
  shows "ticking True b c d now (maybe_arm_tlp t)"
proof -
  have n: "now_ms t = now" "now < - 2" using assms by (auto simp: ticking_def)
  have m: "now < sat_add now (max x TLP_MIN_PTO_MS)" for x
    using later_in [OF n(2), of "max x TLP_MIN_PTO_MS"] n
    by (simp add: later_at TLP_MIN_PTO_MS_def less_max_iff_disj)
  have "later now (tlp_deadline (maybe_arm_tlp t)) \<or> \<not> later now (rto_deadline t) \<and> snd_una t \<noteq> snd_nxt t"
    using n m by (auto simp: maybe_arm_tlp_def Let_def later_at later_get split: option.split)
  then show ?thesis using assms
    by (auto simp: ticking_def maybe_arm_tlp_def Let_def)
qed

lemma ticking_update:
  assumes "ticking a b c d now t"
  shows "ticking a b c d now (update_persist t)"
  using assms
  by (auto simp: ticking_def update_persist_def Let_def later_in ucast_pos)

lemma ticking_weaken: "ticking a b c d now t \<Longrightarrow> (a' \<longrightarrow> a) \<Longrightarrow> (b' \<longrightarrow> b) \<Longrightarrow> (c' \<longrightarrow> c) \<Longrightarrow> (d' \<longrightarrow> d)
    \<Longrightarrow> ticking a' b' c' d' now t"
  by (simp add: ticking_def)

lemma ticking_note_new:
  assumes "ticking a b c d now t"
  shows "ticking a b c d now (note_new len fin t)"
proof -
  have "ticking True b c d now (note_new len fin t)"
    unfolding note_new_def Let_def
    by (rule ticking_arm_tlp [of False], rule ticking_arm_rto_if_off) (use assms in \<open>simp add: ticking_def\<close>)
  then show ?thesis by (rule ticking_weaken) simp_all
qed

lemma ticking_note_retransmit: "ticking a b c d now t \<Longrightarrow> ticking a b c d now (note_retransmit i s n fin t)"
  unfolding note_retransmit_def by (rule ticking_arm_rto_if_off) (simp add: ticking_def)

interpretation ticking: output_kept "ticking a b c d now" for a b c d now
  by unfold_locales
    (simp_all only: ticking_update ticking_note_new ticking_note_retransmit,
     simp_all add: ticking_def output_step_defs Let_def case_prod_beta split: step_splits, blast)


section \<open>The stages of a tick\<close>

lemma ticking_closed:
  assumes "ticking a b c d now t"
  shows "ticking True True True True now (abort_local t)" "ticking True True True True now (close_clean t)"
  using assms
  by (simp_all add: ticking_def abort_local_def close_clean_def release_buffers_and_timers_def disarm_timers_def)

lemma ticking_reset:
  assumes "ticking a b c d now t" and "init_rto_ms t \<noteq> 0"
  shows "ticking True True True True now (reset_to_listen_or_closed t)"
  using assms
  by (simp add: ticking_def reset_to_listen_or_closed_def reset_connection_state_def Let_def)

lemma returns_ok: "Q x t \<Longrightarrow> returns (\<lambda>t. (Inr x, t)) t Q"
  by (simp add: returns_def)

text \<open>Handshake: a due retransmission deadline is re-armed, or the attempt is given up.\<close>

definition awake :: "u64 \<Rightarrow> tcb \<Rightarrow> bool" where
  "awake now t \<longleftrightarrow>
     now_ms t = now \<and> now < - 2 \<and> rto_ms t \<noteq> 0
     \<and> later now (time_wait_deadline t) \<and> (tcb_state t = FinWait2 \<longrightarrow> later now (fin_wait2_deadline t))"

lemma awake_frame: "output_frame u = output_frame t \<Longrightarrow> awake now u = awake now t"
  by (simp add: output_frame_def awake_def)

lemma awake_arm_rto: "awake now t \<Longrightarrow> ticking False True False False now (arm_rto t)"
  by (simp add: awake_def ticking_def arm_rto_def later_in ucast_pos)

lemma awake_emit_then_arm:
  assumes "awake now t" and "output_frame (snd (m t)) = output_frame t"
  shows "returns (bind_rs m (\<lambda>_. modify_rs arm_rto)) t (\<lambda>_. ticking False False False False now)"
proof (rule returns_bind, rule returns_mono, rule returns_kept [of "\<lambda>u. output_frame u = output_frame t"])
  show "output_frame (snd (m t)) = output_frame t" by (rule assms)
  show "returns (modify_rs arm_rto) u (\<lambda>_. ticking False False False False now)"
    if "output_frame u = output_frame t" for u
    using awake_frame [OF that, of now] assms(1)
    by (auto simp: returns_def modify_rs_def intro!: ticking_weaken [OF awake_arm_rto])
qed

lemma awake_closed:
  assumes "awake now t"
  shows "ticking True True True True now (abort_local t)"
  using assms
  by (simp add: awake_def ticking_def abort_local_def release_buffers_and_timers_def disarm_timers_def)

lemma awake_reset:
  "awake now t \<Longrightarrow> init_rto_ms t \<noteq> 0 \<Longrightarrow> ticking True True True True now (reset_to_listen_or_closed t)"
  by (simp add: awake_def ticking_def reset_to_listen_or_closed_def reset_connection_state_def Let_def)

lemma awake_backoff: "awake now t \<Longrightarrow> awake now (backoff_rto t)"
  using sat_mul_ge [of 2 "rto_ms t"]
  by (auto simp: awake_def backoff_rto_def min_def RTO_MAX_MS_def)

lemma awake_retrying:
  "awake now t \<Longrightarrow> awake now (backoff_rto (t\<lparr>rtx_count := c, syn_retransmitted := True\<rparr>))"
  "awake now t \<Longrightarrow> awake now (backoff_rto (t\<lparr>syn_rcvd_retries := r, syn_retransmitted := True\<rparr>))"
  by (intro awake_backoff, simp add: awake_def)+

lemma handshake_stage:
  assumes "awake now t" and "init_rto_ms t \<noteq> 0" and "tcb_state t \<notin> {Closed, Listen}"
  shows "returns handshake_timer t (\<lambda>_. ticking False False False False now)"
proof -
  have syn: "output_frame (snd (emit_syn u)) = output_frame u" "output_frame (snd (emit_synack u)) = output_frame u"
    for u by (rule frame.syn_kept frame.synack_kept, simp)+
  have arm: "returns (bind_rs emit_syn (\<lambda>_. modify_rs arm_rto))
        (backoff_rto (t\<lparr>rtx_count := c, syn_retransmitted := True\<rparr>)) (\<lambda>_. ticking False False False False now)"
      "returns (bind_rs emit_synack (\<lambda>_. modify_rs arm_rto))
        (backoff_rto (t\<lparr>syn_rcvd_retries := r, syn_retransmitted := True\<rparr>)) (\<lambda>_. ticking False False False False now)"
    for c r
    by (intro awake_emit_then_arm awake_retrying assms(1) syn)+
  have closed: "ticking False False False False now (abort_local (t\<lparr>rtx_count := c\<rparr>))"
    "ticking False False False False now (abort_local (t\<lparr>syn_rcvd_retries := r\<rparr>))"
    "ticking False False False False now (reset_to_listen_or_closed (t\<lparr>syn_rcvd_retries := r\<rparr>))" for c r
    using assms
    by (auto intro!: ticking_weaken [OF awake_closed] ticking_weaken [OF awake_reset] simp: awake_def)
  show ?thesis
    using assms arm closed
    by (cases "tcb_state t")
      (auto simp: returns_def handshake_timer_def syn_sent_timer_def syn_rcvd_timer_def Let_def
        ticking_def awake_def later_def is_synchronized_def split: if_splits)
qed

lemma tlp_stage:
  assumes "ticking False False False False now t"
  shows "returns (run_tlp now) t (\<lambda>_. ticking True False False False now)"
proof (cases "later now (tlp_deadline t)")
  case True
  then show ?thesis using assms by (simp add: returns_def run_tlp_def later_def ticking_def)
next
  case False
  let ?t = "t\<lparr>tlp_deadline := dl_off\<rparr>"
  have t: "ticking True False False False now ?t" using assms by (simp add: ticking_def)
  then have "ticking True False False False now (snd (tlp_segment ?t))"
    by (auto simp: tlp_segment_def Let_def new_ok_def intro!: ticking.seq_kept ticking.new_kept ticking.retransmit_kept)
  moreover have "ticking True False False False now (note_tlp re u)" if "ticking True False False False now u" for re u
    using that by (simp add: note_tlp_def ticking_def arm_rto_def later_in ucast_pos)
  ultimately have "ticking True False False False now (snd (bind_rs tlp_segment
      (\<lambda>(sent, re) t. (Inr (), if sent then note_tlp re t else t)) ?t))"
    by (intro ticking.seq_kept) auto
  then have "ticking True False False False now (snd (fire_tlp t))"
    using t ticking_arm_tlp [OF t] by (simp add: fire_tlp_def Let_def)
  with False show ?thesis using returns_kept by (auto simp: run_tlp_def later_def returns_def)
qed

lemma rto_stage:
  assumes "ticking True False False False now t" and "is_synchronized (tcb_state t) \<and> dl_due now (rto_deadline t)"
  shows "ticking True True False False now (on_rto t)"
proof -
  let ?t = "t\<lparr>rto_deadline := dl_off, rtx_count := sat_add (rtx_count t) 1\<rparr>"
  let ?u = "loss_window (forget_reneged (blackhole_check (count_rto ?t)))"
  have "awake now ?t" using assms by (simp add: awake_def ticking_def)
  then have "awake now ?u" "tlp_deadline ?u = dl_off"
    by (simp_all add: awake_def loss_window_def forget_reneged_def blackhole_check_def blackhole_clamp_def
        count_rto_def Let_def)
  moreover have "awake now (backoff_rto ?u)" by (rule awake_backoff) fact
  ultimately have "awake now (backoff_rto ?u)" "tlp_deadline (backoff_rto ?u) = dl_off"
    by (simp_all only: backoff_rto_def, simp)
  then have arm: "ticking True True False False now (arm_rto (backoff_rto ?u))"
    by (simp add: awake_def ticking_def arm_rto_def later_in ucast_pos)
  have "ticking True True False False now (abort_local ?t)"
    using awake_closed [OF \<open>awake now ?t\<close>] by (rule ticking_weaken) simp_all
  moreover have "snd_una t = snd_nxt t \<Longrightarrow> ticking True True False False now (t\<lparr>rto_deadline := dl_off\<rparr>)"
    using assms by (simp add: ticking_def)
  ultimately show ?thesis using arm by (simp add: on_rto_def Let_def)
qed

lemma no_rto_stage:
  assumes "ticking True False False False now t" and "\<not> (is_synchronized (tcb_state t) \<and> dl_due now (rto_deadline t))"
  shows "ticking True True False False now t"
  using assms by (auto simp: ticking_def later_def)

lemma rack_detect_ticking:
  "ticking a b c d now t \<Longrightarrow> ticking a b True d now (snd (rack_detect t))"
  by (auto simp: ticking_def rack_detect_def Let_def case_prod_beta detect_loss_def later_in split: option.split)

lemma rack_stage:
  assumes "ticking True True False False now t"
  shows "ticking True True True False now (if dl_due now (rack_deadline t) then rack_timer t else t)"
proof -
  have "ticking True True True False now (snd (rack_detect (t\<lparr>rack_deadline := dl_off\<rparr>)))"
    by (rule rack_detect_ticking [of _ _ False]) (use assms in \<open>auto simp: ticking_def\<close>)
  then have "ticking True True True False now (rack_timer t)"
    by (auto simp: rack_timer_def case_prod_beta prr_credit_def enter_fast_recovery_def Let_def ticking_def)
  then show ?thesis using assms by (auto simp: ticking_def later_def)
qed

lemma persist_rearm_ticking:
  assumes "ticking a b c True now t"
  shows "ticking a b c True now (persist_rearm t)"
proof -
  have "min (sat_mul (max x (rto_ms t)) 2) RTO_MAX_MS \<noteq> 0" for x
    using assms sat_mul_ge [of 2 "max x (rto_ms t)"]
    by (auto simp: ticking_def min_def RTO_MAX_MS_def max_def split: if_splits)
  then show ?thesis
    using assms by (auto simp: persist_rearm_def Let_def ticking_def later_in ucast_pos)
qed

lemma persist_stage:
  assumes "ticking True True True False now t"
  shows "ticking True True True True now (snd (on_persist_timer t))"
proof -
  let ?I = "ticking True True True True now" and ?t = "t\<lparr>persist_deadline := dl_off\<rparr>"
  have t: "?I ?t" using assms by (auto simp: ticking_def)
  have cnt: "?I u \<Longrightarrow> ?I (u\<lparr>rtx_count := c\<rparr>)" for u c by (auto simp: ticking_def)
  have "?I (snd (persist_probe u))" if "?I u" for u
    using that unfolding persist_probe_def Let_def
    by (intro ticking.seq_kept ticking.probe_kept) (auto intro!: ticking_closed persist_rearm_ticking cnt)
  moreover have "?I (snd (bind_rs (emit_new n fin) (\<lambda>_. modify_rs persist_rearm) ?t))" if "new_ok n fin ?t" for n fin
    by (intro ticking.seq_kept ticking.new_kept t that) (simp add: persist_rearm_ticking)
  ultimately show ?thesis
    using t by (auto simp: on_persist_timer_def Let_def new_ok_def min.coboundedI1 min.cobounded2) (auto simp: ticking_def later_in ucast_pos)
qed

text \<open>What could not be sent because the egress ring is full or paused stays so to the end.\<close>

definition blocked :: "tcb \<Rightarrow> bool" where
  "blocked t \<longleftrightarrow> tx_is_full (tcb_tx_ring t) \<or> egress_paused t"

lemma push_blocked:
  "blocked t \<Longrightarrow> blocked (t\<lparr>tcb_tx_ring := snd (tx_push_with f (tcb_tx_ring t))\<rparr>)"
  using tx_push_full [of "tcb_tx_ring t" f] by (auto simp: blocked_def)

interpretation blocked: output_kept "\<lambda>t. blocked t" 
  by unfold_locales
    (simp_all add: push_segment_def push_bare_def on_tx_ring_def case_prod_beta push_blocked,
     simp_all add: blocked_def output_step_defs Let_def case_prod_beta split: step_splits)

lemma blocked_abort [simp]: "blocked (abort_local t) = blocked t" "blocked (close_clean t) = blocked t"
  by (simp_all add: blocked_def abort_local_def close_clean_def release_buffers_and_timers_def disarm_timers_def)

lemma unsent_is_blocked:
  "returns (emit_segment fl seq ack opts pl ect) t (\<lambda>sent u. sent \<or> blocked u)"
  by (auto simp: returns_def emit_segment_def blocked_def Let_def bind_rs_def push_segment_def on_tx_ring_def
      tx_push_with_def tx_is_full_def split: prod.splits sum.splits if_splits option.splits)


definition keepalive_ok :: "tcb \<Rightarrow> bool" where
  "keepalive_ok t \<longleftrightarrow>
     keepalive_intvl_ms t \<noteq> 0 \<and> (keepalive_idle_ms t = 0 \<longrightarrow> keepalive_deadline t = dl_off)"

abbreviation timers_done :: "u64 \<Rightarrow> tcb \<Rightarrow> bool" where
  "timers_done \<equiv> ticking True True True True"

lemma timers_done_keepalive: "timers_done now t \<Longrightarrow> timers_done now (t\<lparr>keepalive_probes := c, keepalive_deadline := dl\<rparr>)"
  by (auto simp: ticking_def)

lemma closed_keepalive [simp]:
  "keepalive_deadline (abort_local t) = dl_off" "keepalive_deadline (close_clean t) = dl_off"
  by (simp_all add: abort_local_def close_clean_def release_buffers_and_timers_def disarm_timers_def)

lemma keepalive_probe_stage:
  assumes "timers_done now t" and "keepalive_intvl_ms t \<noteq> 0"
  shows "returns (bind_rs (emit_probe seq) (\<lambda>sent t. (Inr (), if sent
      then t\<lparr>keepalive_probes := sat_add (keepalive_probes t) 1,
             keepalive_deadline := dl_at (sat_add (now_ms t) (ucast (keepalive_intvl_ms t)))\<rparr> else t))) t
    (\<lambda>_ u. timers_done now u \<and> (blocked u \<or> later now (keepalive_deadline u)))"
proof (rule returns_bind, rule returns_mono)
  show "returns (emit_probe seq) t (\<lambda>sent u. (sent \<or> blocked u)
      \<and> timers_done now u \<and> output_frame u = output_frame t)"
    using unsent_is_blocked [of FLAG_ACK seq "rcv_nxt t" "ts_options t" NO_PAYLOAD False t]
      ticking.probe_kept [OF assms(1), of seq] frame.probe_kept [OF refl, of seq t]
    by (auto simp: returns_def emit_probe_def)
  show "returns (\<lambda>u. (Inr (), if sent
      then u\<lparr>keepalive_probes := sat_add (keepalive_probes u) 1,
             keepalive_deadline := dl_at (sat_add (now_ms u) (ucast (keepalive_intvl_ms u)))\<rparr> else u)) u
      (\<lambda>_ u. timers_done now u \<and> (blocked u \<or> later now (keepalive_deadline u)))"
    if "(sent \<or> blocked u) \<and> timers_done now u \<and> output_frame u = output_frame t" for sent u
  proof -
    have "now_ms u = now" "now < - 2" "keepalive_intvl_ms u \<noteq> 0"
      using that assms(2) by (simp_all add: ticking_def output_frame_def)
    then show ?thesis using that
      by (auto simp: returns_def timers_done_keepalive later_in ucast_pos)
  qed
qed

lemma keepalive_stage:
  assumes "timers_done now t" and "keepalive_ok t"
  shows "returns check_keepalive t (\<lambda>_ u. timers_done now u \<and> (blocked u \<or> later now (keepalive_deadline u)))"
proof -
  have n: "now_ms t = now" "now < - 2" using assms by (simp_all add: ticking_def)
  have "timers_done now (abort_local t)" "timers_done now (close_clean t)"
    by (rule ticking_closed [OF assms(1)])+
  then show ?thesis
    using keepalive_probe_stage [OF assms(1), of "snd_nxt t - 1"] assms n
    by (auto simp: returns_def check_keepalive_def keepalive_ok_def later_def [symmetric]
        timers_done_keepalive later_in ucast_pos)
qed

definition slept :: "u64 \<Rightarrow> tcb \<Rightarrow> bool" where
  "slept now t \<longleftrightarrow>
     timers_done now t \<and> later now (user_timeout_deadline t)
     \<and> (blocked t \<or> later now (keepalive_deadline t))"

lemma user_timeout_stage:
  assumes "timers_done now t" and "blocked t \<or> later now (keepalive_deadline t)"
  shows "slept now (check_user_timeout t)"
proof -
  have "timers_done now (abort_local t)" by (rule ticking_closed [OF assms(1)])
  moreover have "user_timeout_deadline (abort_local t) = dl_off"
    by (simp add: abort_local_def release_buffers_and_timers_def disarm_timers_def)
  moreover have "timers_done now (t\<lparr>user_timeout_deadline := dl, ut_progress := u\<rparr>)"
      "timers_done now (t\<lparr>user_timeout_deadline := dl\<rparr>)" for dl u
    using assms(1) by (auto simp: ticking_def)
  moreover have "now_ms t = now" "now < - 2" using assms by (simp_all add: ticking_def)
  ultimately show ?thesis
    using assms by (auto simp: check_user_timeout_def slept_def blocked_def later_in ucast_pos later_def [symmetric])
qed

lemma slept_output:
  assumes "slept now t" and "timers_done now (m t)" and "output_frame (m t) = output_frame t"
    and "blocked t \<Longrightarrow> blocked (m t)"
  shows "slept now (m t)"
  using assms by (auto simp: slept_def output_frame_def)

lemma slept_send_data: "slept now t \<Longrightarrow> slept now (snd (maybe_send_data t))"
  by (rule slept_output [where m = "\<lambda>t. snd (maybe_send_data t)"])
    (auto simp: slept_def intro: ticking.send_data_kept frame.send_data_kept blocked.send_data_kept)

lemma slept_pure_ack: "slept now t \<Longrightarrow> slept now (snd (send_pure_ack t))"
  by (rule slept_output [where m = "\<lambda>t. snd (send_pure_ack t)"])
    (auto simp: slept_def intro: ticking.pure_ack_kept frame.pure_ack_kept blocked.pure_ack_kept)

lemma pure_ack_settles: "returns send_pure_ack t (\<lambda>_ u. blocked u \<or> \<not> pending_ack u)"
proof (cases "egress_full t")
  case True
  then show ?thesis by (auto simp: returns_def send_pure_ack_def blocked_def defer_ack_def egress_full_def)
next
  case False
  have "returns (bind_rs (emit_segment fl seq ack opts pl ect)
      (\<lambda>queued t. (Inr (), if queued then ack_sent t else t))) u (\<lambda>_ u. blocked u \<or> \<not> pending_ack u)"
    for fl seq ack opts pl ect u
    by (rule returns_bind, rule returns_mono [OF unsent_is_blocked]) (auto simp: returns_def ack_sent_def)
  with False show ?thesis by (simp add: returns_def send_pure_ack_def case_prod_beta)
qed

definition asleep :: "u64 \<Rightarrow> tcb \<Rightarrow> bool" where
  "asleep now t \<longleftrightarrow>
     tcb_state t = Closed \<or> slept now t \<and> (blocked t \<or> \<not> pending_ack t \<or> later now (ack_deadline t))"

lemma late_stage:
  assumes "timers_done now t" and "keepalive_ok t"
  shows "returns run_late_timers t (\<lambda>_. asleep now)"
  unfolding run_late_timers_def
proof (rule returns_then, rule returns_mono [OF keepalive_stage [OF assms]])
  fix x u
  assume "timers_done now u \<and> (blocked u \<or> later now (keepalive_deadline u))"
  then have v: "slept now (check_user_timeout u)" and n: "now_ms u = now"
    by (auto intro: user_timeout_stage simp: ticking_def)
  have "returns (then_rs maybe_send_data (\<lambda>t.
         if pending_ack t \<and> dl_due now (ack_deadline t) then send_pure_ack t else (Inr (), t)))
       (check_user_timeout u) (\<lambda>_. asleep now)"
  proof (rule returns_then, rule returns_mono, rule returns_kept, rule slept_send_data [OF v])
    fix y w assume w: "slept now w"
    show "returns (\<lambda>t. if pending_ack t \<and> dl_due now (ack_deadline t) then send_pure_ack t else (Inr (), t))
        w (\<lambda>_. asleep now)"
      using pure_ack_settles [of w] slept_pure_ack [OF w] w
      by (auto simp: returns_def asleep_def later_def)
  qed
  then show "returns (\<lambda>t. let now = now_ms t; t = check_user_timeout t in
       if tcb_state t = Closed then (Inr (), t)
       else then_rs maybe_send_data (\<lambda>t.
         if pending_ack t \<and> dl_due now (ack_deadline t) then send_pure_ack t else (Inr (), t)) t)
     u (\<lambda>_. asleep now)"
    by (auto simp: returns_def Let_def n asleep_def)
qed

section \<open>The whole tick\<close>

lemma max_one_nonzero: "max x 1 \<noteq> (0 :: u32)"
  by (auto simp: max_def)

interpretation keepalive: reachable_kept keepalive_ok
  by unfold_locales
    (simp_all add: keepalive_ok_def step_defs tcb_reinit_def tcb_setup_def DEFAULT_KEEPALIVE_INTVL_MS_def
       max_one_nonzero Let_def case_prod_beta split: step_splits)

lemma persist_then_late:
  assumes "ticking True True True False now t" and "keepalive_ok t"
  shows "returns (\<lambda>t. if dl_due now (persist_deadline t)
      then then_rs on_persist_timer (\<lambda>t. if tcb_state t = Closed then (Inr (), t) else run_late_timers t) t
      else run_late_timers t) t (\<lambda>_. asleep now)"
proof (cases "dl_due now (persist_deadline t)")
  case True
  let ?J = "\<lambda>u. timers_done now u \<and> keepalive_ok u"
  have "returns (then_rs on_persist_timer (\<lambda>t. if tcb_state t = Closed then (Inr (), t) else run_late_timers t))
      t (\<lambda>_. asleep now)"
  proof (rule returns_then, rule returns_mono [OF returns_kept [of ?J]])
    show "?J (snd (on_persist_timer t))"
      using persist_stage [OF assms(1)] keepalive.persist_kept [OF assms(2)] by blast
    show "returns (\<lambda>t. if tcb_state t = Closed then (Inr (), t) else run_late_timers t) u (\<lambda>_. asleep now)"
      if "?J u" for u
      using late_stage [of now u] that by (auto simp: returns_def asleep_def)
  qed
  with True show ?thesis by (simp add: returns_def)
next
  case False
  then have "timers_done now t" using assms(1) by (auto simp: ticking_def later_def)
  then show ?thesis using False late_stage [OF _ assms(2)] by (simp add: returns_def)
qed

lemma rack_persist_stage:
  assumes "ticking True True False False now t" and "keepalive_ok t"
  shows "returns (run_rack_persist now) t (\<lambda>_. asleep now)"
  using persist_then_late [OF rack_stage [OF assms(1)]] keepalive.rack_timer_kept [OF assms(2)] assms(2)
  by (simp add: returns_def run_rack_persist_def Let_def)

lemma rto_then_rest:
  assumes "ticking True False False False now t" and "keepalive_ok t"
  shows "returns (run_rto now) t (\<lambda>_. asleep now)"
  using rack_persist_stage [OF rto_stage [OF assms(1)] keepalive.on_rto_kept [OF assms(2)]]
    rack_persist_stage [OF no_rto_stage [OF assms(1)] assms(2)]
  by (auto simp: returns_def run_rto_def Let_def asleep_def split: if_splits)

lemma timers_stage:
  assumes "awake now t" and "init_rto_ms t \<noteq> 0" and "tcb_state t \<notin> {Closed, Listen}" and "keepalive_ok t"
  shows "returns (then_rs handshake_timer (then_rs (run_tlp now) (run_rto now))) t (\<lambda>_. asleep now)"
proof (rule returns_then, rule returns_mono)
  show "returns handshake_timer t (\<lambda>_ u. ticking False False False False now u \<and> keepalive_ok u)"
    using assms by (intro returns_conj handshake_stage returns_kept keepalive.handshake_timer_kept)
  fix u assume u: "ticking False False False False now u \<and> keepalive_ok u"
  show "returns (then_rs (run_tlp now) (run_rto now)) u (\<lambda>_. asleep now)"
  proof (rule returns_then, rule returns_mono)
    show "returns (run_tlp now) u (\<lambda>_ v. ticking True False False False now v \<and> keepalive_ok v)"
      using u by (intro returns_conj tlp_stage returns_kept keepalive.run_tlp_kept) simp_all
  qed (simp add: rto_then_rest)
qed

lemma run_timers_asleep:
  assumes "rto_ok t" and "keepalive_ok t" and "now_ms t < - 2" and "tcb_state t \<notin> {Closed, Listen}"
  shows "returns run_timers t (\<lambda>_. asleep (now_ms t))"
proof -
  have z: "rto_ms t \<noteq> 0" "init_rto_ms t \<noteq> 0" using assms(1) by (auto simp: rto_ok_def RTO_MIN_MS_def)
  have "returns (bind_rs (emit_ctl fl seq ack) (\<lambda>_. modify_rs abort_local)) t (\<lambda>_. asleep (now_ms t))"
    for fl seq ack
    by (rule returns_bind) (simp add: returns_def modify_rs_def asleep_def)
  then show ?thesis
    using timers_stage [of "now_ms t" t] assms z
    by (auto simp: returns_def run_timers_def Let_def awake_def later_def asleep_def time_wait_over_def
        disarm_timers_def)
qed

lemma set_map_filter: "set (List.map_filter f xs) = {y. \<exists>x\<in>set xs. f x = Some y}"
  by (induction xs) (auto simp: List.map_filter_simps split: option.split)

lemma min_deadline_armed:
  assumes "min_deadline ds = Some d"
  shows "\<exists>x\<in>set ds. dl_get x = Some d"
proof -
  have m: "fold min xs x \<in> insert x (set xs)" for xs :: "u64 list" and x
    using Min_in [of "set (x # xs)"] by (simp only: Min.set_eq_fold) simp
  obtain y ys where "List.map_filter dl_get ds = y # ys" and "d = fold min ys y"
    using assms by (auto simp: min_deadline_def split: list.splits)
  then have "d \<in> set (List.map_filter dl_get ds)" using m [of ys y] by simp
  then show ?thesis by (simp add: set_map_filter)
qed

lemma asleep_next_deadline:
  assumes "asleep now t" and "tcb_state t \<noteq> Closed" and "\<not> tx_is_full (tcb_tx_ring t)"
    and "tcb_next_deadline t = Some d"
  shows "now < d"
proof -
  let ?ds = "[time_wait_deadline t, if tcb_state t = FinWait2 then fin_wait2_deadline t else dl_off,
      rto_deadline t, tlp_deadline t, rack_deadline t, persist_deadline t,
      if pending_ack t \<and> \<not> egress_paused t then ack_deadline t else dl_off,
      if egress_paused t then dl_off else keepalive_deadline t, user_timeout_deadline t]"
  have "\<forall>x\<in>set ?ds. later now x"
    using assms(1-3) by (auto simp: asleep_def slept_def blocked_def ticking_def)
  moreover have "min_deadline ?ds = Some d" using assms(4) by (simp add: tcb_next_deadline_def Let_def)
  ultimately show ?thesis using min_deadline_armed [of ?ds d] by (metis later_get)
qed

text \<open>C4. A tick leaves no due deadline behind. On every reachable connection that is open, if
  \<^verbatim>\<open>tick\<close> at time \<open>now\<close> succeeds and leaves the connection open with room in the egress ring,
  then \<^verbatim>\<open>next_deadline\<close> is later than \<open>now\<close>, so a host that sleeps until it makes progress and
  never spins.\<close>

theorem tick_leaves_no_due_deadline:
  assumes "reachable t" and "tcb_state t \<notin> {Closed, Listen}" and "now_ms t < - 2"
  shows "case tcb_tick t of
      (Inr _, t') \<Rightarrow> tcb_state t' = Closed \<or> tx_is_full (tcb_tx_ring t')
        \<or> (case tcb_next_deadline t' of Some d \<Rightarrow> now_ms t < d | None \<Rightarrow> True)
    | (Inl _, _) \<Rightarrow> True"
  using run_timers_asleep [OF rto.reachable_kept keepalive.reachable_kept, of t] assms
    asleep_next_deadline [of "now_ms t"]
  by (auto simp: returns_def tcb_tick_def split: prod.split sum.split option.split)

lemma connect_frame:
  assumes "tcb_state t = Closed"
  shows "output_frame (snd (tcb_connect t)) = output_frame (start_active (reset_connection_state (not_listener t)))"
proof -
  have "output_frame (snd (bind_rs emit_syn (\<lambda>sent t. (Inr (), if sent then synack_out t else t)) u))
      = output_frame u" for u
    by (intro bind_rs_keeps [of "\<lambda>v. output_frame v = output_frame u"] frame.syn_kept)
      (simp_all add: output_frame_def synack_out_def arm_rto_def)
  with assms show ?thesis by (simp add: tcb_connect_def)
qed

lemma example_closed: "tcb_state example_tcb = Closed" "now_ms example_tcb = 0"
  by (simp_all add: example_tcb_def tcb_setup_def reset_connection_state_def)

lemma example_connecting:
  "tcb_state (tcb_call Connect example_tcb) = SynSent" "now_ms (tcb_call Connect example_tcb) = 0"
  using connect_frame [OF example_closed(1)] example_closed(2)
  by (simp_all add: output_frame_def start_active_def reset_connection_state_def not_listener_def)

lemma zero_before_max: "(0 :: u64) < - 2"
  by (simp add: word_less_nat_alt)

theorem tick_leaves_no_due_deadline_witness:
  "tcb_state (tcb_call Connect example_tcb) = SynSent
   \<and> (case tcb_tick (tcb_call Connect example_tcb) of
        (Inr _, t') \<Rightarrow> tcb_state t' = Closed \<or> tx_is_full (tcb_tx_ring t')
          \<or> (case tcb_next_deadline t' of Some d \<Rightarrow> 0 < d | None \<Rightarrow> True)
      | (Inl _, _) \<Rightarrow> True)"
  using tick_leaves_no_due_deadline [OF reachable.called [OF example_reachable, of Connect],
      unfolded example_connecting]
    example_connecting(1) zero_before_max by simp

text \<open>The case left out: with a full egress ring that is not paused, a due acknowledgement is put
  back with the current time as its deadline, and \<^verbatim>\<open>next_deadline\<close> reports that time.\<close>

lemma min_deadline_le:
  assumes "x \<in> set ds" and "dl_get x = Some d"
  shows "\<exists>e. min_deadline ds = Some e \<and> e \<le> d"
proof -
  have m: "z \<in> insert y (set ys) \<Longrightarrow> fold min ys y \<le> z" for ys :: "u64 list" and y z
    by (simp flip: Min.set_eq_fold)
  have "d \<in> set (List.map_filter dl_get ds)" using assms by (auto simp: set_map_filter)
  then obtain y ys where "List.map_filter dl_get ds = y # ys" "d \<in> insert y (set ys)"
    by (cases "List.map_filter dl_get ds") auto
  then show ?thesis using m by (auto simp: min_deadline_def)
qed

lemma full_ring_deadline_is_now:
  assumes "tx_is_full (tcb_tx_ring t)" and "\<not> egress_paused t"
  shows "\<exists>d. tcb_next_deadline (snd (send_pure_ack t)) = Some d \<and> d \<le> now_ms t"
proof -
  have u: "snd (send_pure_ack t) = defer_ack t"
    using assms(1) by (simp add: send_pure_ack_def egress_full_def)
  obtain d where d: "dl_get (dl_at (now_ms t)) = Some d" and le: "d \<le> now_ms t"
    using dl_within_at [of "now_ms t" "now_ms t"] dl_at_nonzero [of "now_ms t"]
    by (simp add: dl_within_def dl_get_def)
  have "\<exists>e. tcb_next_deadline (defer_ack t) = Some e \<and> e \<le> d"
    unfolding tcb_next_deadline_def Let_def
    by (rule min_deadline_le [OF _ d]) (use assms(2) in \<open>simp add: defer_ack_def\<close>)
  with u le show ?thesis by (auto intro: order_trans)
qed

end
