(* ===== verification/Rtx_Size.thy ===== *)
theory Rtx_Size
  imports Rack
begin

text \<open>
  The number of records in the retransmission queue: every operation keeps it within the slots the
  queue was built with, and so the walk over a SACK block, which splits records as it goes,
  comes to an end.
\<close>

section \<open>The queue stays within its slots\<close>

text \<open>The number of records and of slots: marking changes neither, splitting takes one free slot.\<close>

definition rq_size :: "rtx_queue \<Rightarrow> usize \<times> usize" where
  "rq_size q = (rq_len q, rq_cap q)"

definition rq_fits :: "rtx_queue \<Rightarrow> bool" where
  "rq_fits q \<longleftrightarrow> rq_len q \<le> rq_cap q"

lemma rq_fits_cong: "rq_size q' = rq_size q \<Longrightarrow> rq_fits q' = rq_fits q"
  by (simp add: rq_size_def rq_fits_def)

lemma rq_size_basic [simp]:
  "rq_size (rq_set_sacked_bit p on q) = rq_size q" "rq_size (rq_put i s q) = rq_size q"
  "rq_size (rq_add_counts s sign q) = rq_size q" "rq_size (rq_shift_sacked_bits_up i n q) = rq_size q"
  "rq_size (q\<lparr>rq_lost_hint := h\<rparr>) = rq_size q" "rq_size (q\<lparr>rq_next_xmit := x\<rparr>) = rq_size q"
  "rq_size (q\<lparr>rq_segs := (rq_segs q)[j := s]\<rparr>) = rq_size q"
  by (simp_all add: rq_size_def rq_set_sacked_bit_def rq_put_def rq_add_counts_def rq_shift_sacked_bits_up_def
      rq_cap_def Let_def)

lemma rq_size_marks [simp]:
  "rq_size (rq_set_state i fl sent q) = rq_size q" "rq_size (rq_set_flags i fl q) = rq_size q"
  "rq_size (rq_mark_lost i q) = rq_size q" "rq_size (rq_unmark_one i q) = rq_size q"
  "rq_size (rq_unsack_one i q) = rq_size q" "rq_size (rq_retransmitted i now sent q) = rq_size q"
  by (simp_all add: rq_set_state_def rq_set_flags_def rq_mark_lost_def rq_unmark_one_def rq_unsack_one_def
      rq_retransmitted_def Let_def split: option.split)

lemma fold_rq_size: "(\<And>i q. rq_size (f i q) = rq_size q) \<Longrightarrow> rq_size (fold f is q) = rq_size q"
  by (induction "is" arbitrary: q) simp_all

lemma rq_size_shift [simp]: "rq_size (shift_segs_up i j q) = rq_size q"
proof (induction i j q rule: shift_segs_up.induct)
  case (2 i j q)
  then show ?case by (simp add: Let_def split: option.split)
qed simp

lemma rq_size_split:
  assumes "rq_split i at q = (ok, q')"
  shows "rq_cap q' = rq_cap q" and "rq_len q' = (if ok then rq_len q + 1 else rq_len q)"
    and "ok \<Longrightarrow> rq_len q \<noteq> rq_cap q"
proof -
  have sz: "rq_size (x\<lparr>rq_len := k\<rparr>) = (k, rq_cap x)" for x k by (simp add: rq_size_def rq_cap_def)
  have up: "rq_len (rq_shift_sacked_bits_up p k (shift_segs_up i j q)) = rq_len q"
      "rq_cap (rq_shift_sacked_bits_up p k (shift_segs_up i j q)) = rq_cap q" for p k j
    using rq_size_shift [of i j q] rq_size_basic(4) [of p k "shift_segs_up i j q"] by (simp_all add: rq_size_def)
  have "(\<not> ok \<and> q' = q) \<or> (ok \<and> \<not> rq_is_full q \<and> rq_size q' = (rq_len q + 1, rq_cap q))"
    using assms by (auto simp: rq_split_def Let_def sz up split: option.splits if_splits)
  then show "rq_cap q' = rq_cap q" "rq_len q' = (if ok then rq_len q + 1 else rq_len q)"
    "ok \<Longrightarrow> rq_len q \<noteq> rq_cap q"
    by (auto simp: rq_size_def rq_is_full_def)
qed

text \<open>The walk over a SACK block returns on the fuel it is given.\<close>

lemma sack_walk_fuel:
  assumes "rq_fits q" and "2 * (rq_cap q - rq_len q) + (rq_len q - i) < fuel"
  shows "\<exists>newly' calls' q'. sack_walk fuel l r i newly calls q = Some (newly', calls', q') \<and> rq_fits q'"
  using assms
proof (induction fuel l r i newly calls q rule: sack_walk.induct)
  case (2 fuel l r i newly calls q)
  show ?case
  proof (cases "rq_get q i")
    case None
    then show ?thesis using "2.prems" by simp
  next
    case (Some s)
    then have i: "i < rq_len q" by (simp add: rq_get_def split: if_splits)
    have sz: "rq_len (rq_set_flags i fl q) = rq_len q" "rq_cap (rq_set_flags i fl q) = rq_cap q" for fl
      using rq_size_marks(2) [of i fl q] by (simp_all add: rq_size_def)
    have sp: "rq_fits q' \<and> 2 * (rq_cap q' - rq_len q') + (rq_len q' - i) < fuel" if "rq_split i r q = (True, q')" for q'
      using rq_size_split [OF that] "2.prems" i by (simp add: rq_fits_def)
    have sf: "rq_fits q'" if "rq_split i r q = (False, q')" for q'
      using rq_size_split [OF that] "2.prems" by (simp add: rq_fits_def)
    have nx: "2 * (rq_cap q - rq_len q) + (rq_len q - j) < fuel" if "i + 1 \<le> j" for j
      using "2.prems"(2) i that by linarith
    consider (over) "\<not> seq_lt (sq_start s) r"
      | (sacked) "seq_lt (sq_start s) r" "sq_has s SF_SACKED"
      | (tail) "seq_lt (sq_start s) r" "\<not> sq_has s SF_SACKED" "seq_lt r (sq_end s)"
      | (mark) "seq_lt (sq_start s) r" "\<not> sq_has s SF_SACKED" "\<not> seq_lt r (sq_end s)" "seq_le l (sq_start s)"
      | (skip) "seq_lt (sq_start s) r" "\<not> sq_has s SF_SACKED" "\<not> seq_lt r (sq_end s)" "\<not> seq_le l (sq_start s)"
      by blast
    then show ?thesis
    proof cases
      case over
      then show ?thesis using Some "2.prems"(1) by simp
    next
      case sacked
      show ?thesis
      proof (cases "rq_next_unsacked q (i + 1)")
        case None
        then show ?thesis using Some sacked "2.prems"(1) by simp
      next
        case (Some j)
        then have "i + 1 \<le> j" using next_unsacked_ge by (simp add: rq_next_unsacked_def)
        from "2.IH"(1) [OF \<open>rq_get q i = Some s\<close> _ sacked(2) Some "2.prems"(1) nx [OF this]] sacked
        show ?thesis using \<open>rq_get q i = Some s\<close> Some by simp
      qed
    next
      case tail
      obtain ok q' where q': "rq_split i r q = (ok, q')" by (metis surj_pair)
      show ?thesis
      proof (cases ok)
        case True
        with q' have q'': "rq_split i r q = (True, q')" by simp
        from "2.IH"(2) [OF Some _ tail(2,3) q''[symmetric] refl] sp [OF q''] tail(1)
        show ?thesis using Some tail q'' by simp
      qed (use Some tail q' sf in simp)
    next
      case mark
      define q' where "q' = rq_set_flags i ((sq_flags s OR SF_SACKED) AND NOT (SF_LOST OR SF_RETRANS OR SF_PARTIAL)) q"
      have "rq_fits q'" "2 * (rq_cap q' - rq_len q') + (rq_len q' - (i + 1)) < fuel"
        using "2.prems"(1) nx [OF le_refl] by (simp_all only: q'_def rq_fits_def sz)
      from "2.IH"(3) [OF Some _ mark(2-4), folded q'_def, OF _ this] mark(1)
      show ?thesis using Some mark by (simp add: q'_def)
    next
      case skip
      from "2.IH"(4) [OF Some _ skip(2-4) "2.prems"(1) nx [OF le_refl]] skip(1)
      show ?thesis using Some skip by simp
    qed
  qed
qed simp

lemma rq_fits_basic:
  "rq_fits (rq_clear q)" "rq_fits (rq_new n)" "rq_fits (q\<lparr>rq_lost_hint := h\<rparr>) = rq_fits q"
  "rq_fits q \<Longrightarrow> rq_fits (rq_mark_lost i q)" "rq_fits q \<Longrightarrow> rq_fits (rq_mark_all_lost q)"
  "rq_fits q \<Longrightarrow> rq_fits (rq_unmark_lost q)" "rq_fits q \<Longrightarrow> rq_fits (rq_clear_sacked q)"
  "rq_fits q \<Longrightarrow> rq_fits (rq_on_retransmit i now q)" "rq_fits q \<Longrightarrow> rq_fits (rq_on_partial_retransmit i now sent q)"
  "rq_fits q \<Longrightarrow> rq_fits (snd (rq_next_lost q))" "rq_fits q \<Longrightarrow> rq_fits (snd (rq_push s q))"
  "rq_fits q \<Longrightarrow> rq_fits (snd (rq_split i at q))"
proof -
  have c: "rq_fits q \<Longrightarrow> rq_size q' = rq_size q \<Longrightarrow> rq_fits q'" for q' using rq_fits_cong by blast
  show "rq_fits (rq_clear q)" "rq_fits (rq_new n)" by (simp_all add: rq_fits_def rq_clear_def rq_new_def)
  show "rq_fits (q\<lparr>rq_lost_hint := h\<rparr>) = rq_fits q" by (simp add: rq_fits_def rq_cap_def)
  show "rq_fits q \<Longrightarrow> rq_fits (rq_mark_lost i q)" by (erule c) simp
  show "rq_fits q \<Longrightarrow> rq_fits (rq_mark_all_lost q)" by (erule c) (simp add: rq_mark_all_lost_def fold_rq_size)
  show "rq_fits q \<Longrightarrow> rq_fits (rq_unmark_lost q)" by (erule c) (simp add: rq_unmark_lost_def fold_rq_size)
  show "rq_fits q \<Longrightarrow> rq_fits (rq_clear_sacked q)" by (erule c) (simp add: rq_clear_sacked_def fold_rq_size)
  show "rq_fits q \<Longrightarrow> rq_fits (rq_on_retransmit i now q)" by (erule c) (simp add: rq_on_retransmit_def)
  show "rq_fits q \<Longrightarrow> rq_fits (rq_on_partial_retransmit i now sent q)"
    by (erule c) (simp add: rq_on_partial_retransmit_def)
  show "rq_fits q \<Longrightarrow> rq_fits (snd (rq_next_lost q))" by (erule c) (simp add: rq_next_lost_def split: option.split)
  show "rq_fits q \<Longrightarrow> rq_fits (snd (rq_push s q))"
    by (auto simp: rq_push_def rq_fits_def rq_is_full_def rq_set_sacked_bit_def rq_cap_def Let_def)
  show "rq_fits q \<Longrightarrow> rq_fits (snd (rq_split i at q))"
    using rq_size_split [OF prod.collapse [symmetric], of i at q] by (auto simp: rq_fits_def split: if_splits)
qed

lemma rq_fits_ack_loop: "rq_fits q \<Longrightarrow> rq_fits (snd (snd (ack_to_loop una removed calls q)))"
proof (induction una removed calls q rule: ack_to_loop.induct)
  case (1 una removed calls q)
  have c: "rq_size q' = rq_size q \<Longrightarrow> rq_fits q'" for q' using rq_fits_cong "1.prems" by blast
  have d: "rq_fits ((rq_add_counts s False q)\<lparr>rq_head := h, rq_len := rq_len (rq_add_counts s False q) - 1, rq_lost_hint := k\<rparr>)" for s h k
    using "1.prems" by (simp add: rq_fits_def rq_add_counts_def rq_cap_def Let_def)
  show ?case
    unfolding ack_to_loop.simps [of una removed calls q]
    using "1.IH" "1.prems" d by (auto simp: Let_def case_prod_beta split: option.split intro!: c)
qed

lemma rq_fits_ack_to: "rq_fits q \<Longrightarrow> rq_fits (snd (snd (rq_ack_to una q)))"
  using rq_fits_ack_loop [of q una 0 "[]"]
  by (simp add: rq_ack_to_def Let_def case_prod_beta) (simp add: rq_fits_def rq_cap_def)

lemma rq_fits_sack:
  assumes "rq_fits q"
  shows "rq_fits (snd (snd (rq_sack left right q)))"
proof -
  have w: "rq_fits (snd (snd (case sack_walk (sack_fuel x) l r i 0 [] x of Some res \<Rightarrow> res | None \<Rightarrow> (0, [], y))))"
    if "rq_fits x" for x y l r i
  proof -
    have "2 * (rq_cap x - rq_len x) + (rq_len x - i) < sack_fuel x"
      using that by (auto simp: sack_fuel_def rq_fits_def)
    from sack_walk_fuel [OF that this, of l r 0 "[]"] show ?thesis by (auto simp del: sack_walk.simps)
  qed
  have "rq_fits (snd (case rq_split i l q of (ok, q') \<Rightarrow> (if ok then i + 1 else i, q')))" for i l
    using rq_fits_basic(12) [OF assms, of i l] by (simp add: case_prod_beta)
  then show ?thesis using assms w by (auto simp: rq_sack_def Let_def case_prod_beta split: option.split)
qed

lemma rq_size_detect_scan: "rq_size (snd (snd (detect_scan k now thresh i marked timeout q))) = rq_size q"
proof (induction k now thresh i marked timeout q rule: detect_scan.induct)
  case (1 k now thresh i marked timeout q)
  then show ?case
    unfolding detect_scan.simps [of k now thresh i marked timeout q] by (auto split: option.split)
qed

lemma rq_fits_detect_loss: "rq_fits q \<Longrightarrow> rq_fits (snd (detect_loss k now w q))"
  using rq_fits_cong [OF rq_size_detect_scan] by (auto simp: detect_loss_def Let_def case_prod_beta)

text \<open>C20. Recording a SACK block always ends: on a queue with no more records than slots, whatever
  the block and wherever the walk starts, the loop of \<^verbatim>\<open>RtxQueue::sack\<close> returns, although it
  splits records in two as it goes, and the queue it leaves has again no more records than slots.\<close>

theorem sack_walk_returns:
  assumes "rq_len q \<le> rq_cap q"
  shows "\<exists>newly' calls' q'. sack_walk (sack_fuel q) left right i newly calls q = Some (newly', calls', q')
    \<and> rq_len q' \<le> rq_cap q'"
proof -
  have "2 * (rq_cap q - rq_len q) + (rq_len q - i) < sack_fuel q" using assms by (simp add: sack_fuel_def)
  with sack_walk_fuel [of q i] assms show ?thesis by (simp add: rq_fits_def del: sack_walk.simps)
qed

theorem sack_walk_returns_witness:
  "rq_len (snd (rq_push (seg_zero\<lparr>sq_start := 100, sq_end := 300\<rparr>) (rq_new 2))) = 1
   \<and> (\<exists>newly' calls' q'.
        sack_walk (sack_fuel (snd (rq_push (seg_zero\<lparr>sq_start := 100, sq_end := 300\<rparr>) (rq_new 2)))) 100 200 0 0 []
          (snd (rq_push (seg_zero\<lparr>sq_start := 100, sq_end := 300\<rparr>) (rq_new 2))) = Some (newly', calls', q')
        \<and> rq_len q' \<le> rq_cap q')"
proof -
  let ?q = "snd (rq_push (seg_zero\<lparr>sq_start := 100, sq_end := 300\<rparr>) (rq_new 2))"
  have "rq_len ?q = 1" and "rq_cap ?q = 2" by code_simp+
  then show ?thesis using sack_walk_returns [of ?q 100 200 0 0 "[]"] by simp
qed

end
