(* ===== verification/Tcb_Queue.thy ===== *)
theory Tcb_Queue
  imports Tcb_Api Rtx_Size
begin

text \<open>
  The retransmission queue of a connection never holds more records than it has slots, in any
  reachable state, which is what the walk over a SACK block needs to come to an end.
\<close>

definition queue_ok :: "tcb \<Rightarrow> bool" where
  "queue_ok t \<longleftrightarrow> rq_fits (tcb_rtx t)"

lemma rq_fits_oversized: "rq_fits q \<Longrightarrow> rq_fits (fold (mark_oversized limit) is q)"
proof -
  have "rq_size (mark_oversized limit i q) = rq_size q" for i q
    by (simp add: mark_oversized_def split: option.split)
  then show "rq_fits q \<Longrightarrow> ?thesis" using rq_fits_cong [OF fold_rq_size [of "mark_oversized limit"]] by blast
qed

interpretation queue: reachable_kept queue_ok
  by unfold_locales
    (simp_all add: queue_ok_def step_defs rq_fits_basic rq_fits_sack rq_fits_ack_to rq_fits_detect_loss
       rq_fits_oversized tcb_zero_def tcb_reinit_def tcb_setup_def Let_def case_prod_beta split: step_splits)

text \<open>C21. In every reachable state the retransmission queue holds at most as many records as it has
  slots: new segments are refused when it is full, and the splits made for SACK blocks, for a smaller
  segment size and for retransmissions only take free slots. So no index into the slots is out of
  bounds.\<close>

theorem queue_within_slots:
  assumes "reachable t"
  shows "rq_len (tcb_rtx t) \<le> rq_cap (tcb_rtx t)"
  using queue.reachable_kept [OF assms] by (simp add: queue_ok_def rq_fits_def)

theorem queue_within_slots_witness:
  "rq_len (tcb_rtx (fold tcb_call [Connect, Send [1, 2], Tick] example_tcb))
   \<le> rq_cap (tcb_rtx (fold tcb_call [Connect, Send [1, 2], Tick] example_tcb))"
  using queue_within_slots [OF reachable_calls [OF example_reachable, of "[Connect, Send [1, 2], Tick]"]] .

end
