(* ===== verification/Tcb_Segments.thy ===== *)
theory Tcb_Segments
  imports Tcb_Invariants
begin

unbundle bit_operations_syntax

text \<open>
  What the output layer puts on the wire. An emission into a free slot of the egress ring queues one
  packet that parses back to the segment meant (\<open>emission_works\<close>), the options of a segment always
  fit beside its payload (\<open>segment_options_fit\<close>), so the encoder's own errors never surface in
  \<^verbatim>\<open>connect\<close>, \<^verbatim>\<open>abort\<close>, \<^verbatim>\<open>recv\<close> or an acknowledgement.
\<close>

section \<open>Emission\<close>

lemma tx_push_writes:
  assumes inv: "tx_inv t" and room: "\<not> tx_is_full t" and p: "p \<noteq> []" "length p \<le> MAX_PACKET"
    and f: "\<And>b. length b = MAX_PACKET \<Longrightarrow> f b = (Inr (length p), p @ drop (length p) b)"
  shows "\<exists>t'. tx_push_with f t = (Inr True, t') \<and> tx_inv t' \<and> tx_packets t' = tx_packets t @ [p]
    \<and> length (tx_slots t') = length (tx_slots t)"
proof -
  have r: "tx_len t < length (tx_slots t)" using inv room by (auto simp: tx_inv_def tx_is_full_def)
  obtain s where s: "get_at (tx_slots t) ((tx_head t + tx_len t) mod length (tx_slots t)) = Some s"
      and sl: "length (sl_buf s) = MAX_PACKET"
    using tx_tail_slot [OF inv r] .
  have n: "0 < length p" "length p \<le> MAX_PACKET" using p by auto
  have l: "length (p @ drop (length p) (sl_buf s)) = MAX_PACKET" using sl p by simp
  show ?thesis
    using tx_pushed [OF inv r l n, of s] r s f [OF sl] n by (auto simp: tx_push_with_def Let_def)
qed

definition sent_segment ::
  "tcb \<Rightarrow> endpoint \<Rightarrow> u32 \<Rightarrow> u32 \<Rightarrow> u8 \<Rightarrow> u16 \<Rightarrow> tcp_options \<Rightarrow> u8 list \<Rightarrow> u8 \<Rightarrow> segment" where
  "sent_segment t remote seq ack fl window options payload cp =
     \<lparr>sg_src_ip = ep_ip (tcb_local t), sg_dst_ip = ep_ip remote, sg_src_port = ep_port (tcb_local t),
      sg_dst_port = ep_port remote, sg_seq = seq, sg_ack = ack, sg_flags = fl, sg_window = window,
      sg_options = options_norm options, sg_payload = payload, sg_ecn = cp AND ECN_MASK\<rparr>"

definition options_fit :: "tcp_options \<Rightarrow> nat \<Rightarrow> bool" where
  "options_fit opts n \<longleftrightarrow>
     sack_ok (op_sack opts) \<and> options_encoded_len opts \<le> 40
     \<and> 40 + options_encoded_len opts + n \<le> MAX_PACKET"

definition slice_bytes :: "ring_slice \<Rightarrow> tcb \<Rightarrow> u8 list" where
  "slice_bytes sl t = take (rs_len sl) (drop (rs_off sl) (ring_contents (send_ring t)))"

definition slice_ok :: "ring_slice \<Rightarrow> tcb \<Rightarrow> bool" where
  "slice_ok sl t \<longleftrightarrow> rs_len sl = 0 \<or> rs_off sl + rs_len sl \<le> rb_len (send_ring t)"

lemma peek_fill_slice:
  assumes "ring_inv (send_ring t)" and "slice_ok sl t" and "length d = rs_len sl"
  shows "peek_fill (send_ring t) (rs_off sl) d = (True, slice_bytes sl t)"
  using assms by (auto simp: peek_fill_def ring_peek_at_refines Let_def slice_bytes_def slice_ok_def)

lemma length_slice_bytes: "ring_inv (send_ring t) \<Longrightarrow> slice_ok sl t \<Longrightarrow> length (slice_bytes sl t) = rs_len sl"
  by (auto simp: slice_bytes_def slice_ok_def)

text \<open>An emission into a free slot queues exactly one packet, which parses to the segment.\<close>

lemma emission_works:
  assumes st: "stores_ok t" and room: "\<not> tx_is_full (tcb_tx_ring t)"
    and o: "options_fit opts (length payload)"
    and fill: "\<And>d. length d = length payload \<Longrightarrow> fill d = (True, payload)"
  shows "\<exists>p r. on_tx_ring (tx_push_with (emit_with (ep_ip (tcb_local t)) (ep_ip remote)
        (ep_port (tcb_local t)) (ep_port remote) seq ack fl w opts (length payload) fill (tcb_ip_id t) cp c)) t
      = (Inr True, t\<lparr>tcb_tx_ring := r\<rparr>)
    \<and> tx_inv r \<and> tx_packets r = tx_packets (tcb_tx_ring t) @ [p]
    \<and> length p = 40 + options_encoded_len opts + length payload
    \<and> parse_opts p c = Inr (sent_segment t remote seq ack fl w opts payload cp)"
proof -
  have inv: "tx_inv (tcb_tx_ring t)" using st by (simp_all add: stores_ok_def)
  let ?n = "40 + options_encoded_len opts + length payload"
  let ?p = "emitted_bytes (ep_ip (tcb_local t)) (ep_ip remote) (ep_port (tcb_local t))
      (ep_port remote) seq ack fl w opts payload (tcb_ip_id t) cp c"
  have so: "sack_ok (op_sack opts)" "options_encoded_len opts \<le> 40" "?n \<le> MAX_PACKET" "?n < 65536"
    using o by (simp_all add: options_fit_def MAX_PACKET_def)
  have lp: "length ?p = ?n" using length_emitted_bytes [OF so(1)] by simp
  have e: "emit_with (ep_ip (tcb_local t)) (ep_ip remote) (ep_port (tcb_local t)) (ep_port remote)
      seq ack fl w opts (length payload) fill (tcb_ip_id t) cp c b = (Inr (length ?p), ?p @ drop (length ?p) b)"
    if "length b = MAX_PACKET" for b
    unfolding lp by (rule emit_with_bytes) (use so that fill in simp_all)
  have "?p \<noteq> []" "length ?p \<le> MAX_PACKET" using lp so(3) by auto
  from tx_push_writes [OF inv room this e] obtain r where
    r: "tx_push_with (emit_with (ep_ip (tcb_local t)) (ep_ip remote) (ep_port (tcb_local t))
      (ep_port remote) seq ack fl w opts (length payload) fill (tcb_ip_id t) cp c) (tcb_tx_ring t) = (Inr True, r)"
    "tx_inv r" "tx_packets r = tx_packets (tcb_tx_ring t) @ [?p]" by blast
  have "parse_opts ?p c = Inr (sent_segment t remote seq ack fl w opts payload cp)"
    unfolding sent_segment_def by (rule parse_emitted [OF so(1,2) refl so(4)])
  then show ?thesis
    using r lp by (intro exI [of _ ?p] exI [of _ r]) (simp add: on_tx_ring_def)
qed

lemma push_segment_works:
  assumes st: "stores_ok t" and room: "\<not> tx_is_full (tcb_tx_ring t)"
    and o: "options_fit opts (rs_len sl)" and sl: "slice_ok sl t"
  shows "\<exists>p r. push_segment seq ack fl w opts sl cp t = (Inr True, t\<lparr>tcb_tx_ring := r\<rparr>)
    \<and> tx_inv r \<and> tx_packets r = tx_packets (tcb_tx_ring t) @ [p]
    \<and> length p = 40 + options_encoded_len opts + rs_len sl
    \<and> parse_opts p (\<not> tx_csum_offload t) =
        Inr (sent_segment t (tcb_remote t) seq ack fl w opts (slice_bytes sl t) cp)"
proof -
  have inv: "ring_inv (send_ring t)" using st by (simp add: stores_ok_def)
  note len = length_slice_bytes [OF inv sl]
  show ?thesis
    unfolding push_segment_def len [symmetric]
    by (rule emission_works [OF st room]) (use o len peek_fill_slice [OF inv sl] in auto)
qed

lemma push_bare_works:
  assumes "stores_ok t" and "\<not> tx_is_full (tcb_tx_ring t)" and "options_fit opts 0"
  shows "\<exists>p r. push_bare remote seq ack fl w opts t = (Inr True, t\<lparr>tcb_tx_ring := r\<rparr>)
    \<and> tx_inv r \<and> tx_packets r = tx_packets (tcb_tx_ring t) @ [p]
    \<and> length p = 40 + options_encoded_len opts
    \<and> parse_opts p (\<not> tx_csum_offload t) = Inr (sent_segment t remote seq ack fl w opts [] ECN_NOT_ECT)"
  unfolding push_bare_def
  using emission_works [OF assms(1,2), of opts "[]" "\<lambda>d. (True, d)"] assms(3) by simp

definition sendable :: "u8 \<Rightarrow> tcb \<Rightarrow> bool" where
  "sendable fl t \<longleftrightarrow>
     \<not> tx_is_full (tcb_tx_ring t) \<and> (egress_paused t \<longrightarrow> fl AND (FLAG_SYN OR FLAG_RST) \<noteq> 0)"

lemma emit_segment_works:
  assumes st: "stores_ok t" and s: "sendable fl t"
    and o: "options_fit opts (rs_len sl)" and sl: "slice_ok sl t"
  shows "\<exists>p r. emit_segment fl seq ack opts sl ect t =
      (Inr True, note_segment fl ack (snd (outbound_window (fl AND FLAG_SYN \<noteq> 0) t))
        (count_segs_out ((cwr_taken fl ect t)\<lparr>tcb_tx_ring := r\<rparr>)))
    \<and> tx_inv r \<and> tx_packets r = tx_packets (tcb_tx_ring t) @ [p]
    \<and> length p = 40 + options_encoded_len opts + rs_len sl
    \<and> parse_opts p (\<not> tx_csum_offload t) =
        Inr (sent_segment t (tcb_remote t) seq ack (ecn_flags fl ect t)
          (fst (outbound_window (fl AND FLAG_SYN \<noteq> 0) t)) opts (slice_bytes sl t) (ecn_codepoint fl ect t))"
proof -
  let ?t = "cwr_taken fl ect t"
  have same: "stores_ok ?t" "tcb_tx_ring ?t = tcb_tx_ring t" "slice_ok sl ?t" "slice_bytes sl ?t = slice_bytes sl t"
    "tx_csum_offload ?t = tx_csum_offload t" "tcb_remote ?t = tcb_remote t"
    "sent_segment ?t = sent_segment t"
    using st sl by (simp_all add: cwr_taken_def stores_ok_def slice_ok_def slice_bytes_def sent_segment_def fun_eq_iff)
  obtain w b where W: "outbound_window (fl AND FLAG_SYN \<noteq> 0) t = (w, b)" by (metis surj_pair)
  have g: "\<not> (tx_is_full (tcb_tx_ring t) \<or> egress_paused t \<and> fl AND (FLAG_SYN OR FLAG_RST) = 0)"
    using s by (auto simp: sendable_def)
  obtain p r where "push_segment seq ack (ecn_flags fl ect t) w opts sl (ecn_codepoint fl ect t) ?t
      = (Inr True, ?t\<lparr>tcb_tx_ring := r\<rparr>)"
    "tx_inv r" "tx_packets r = tx_packets (tcb_tx_ring t) @ [p]"
    "length p = 40 + options_encoded_len opts + rs_len sl"
    "parse_opts p (\<not> tx_csum_offload t) =
      Inr (sent_segment t (tcb_remote t) seq ack (ecn_flags fl ect t) w opts (slice_bytes sl t) (ecn_codepoint fl ect t))"
    using push_segment_works [of ?t opts sl seq ack "ecn_flags fl ect t" w "ecn_codepoint fl ect t"] same o s
    by (auto simp: sendable_def)
  then show ?thesis
    unfolding emit_segment_def if_not_P [OF g] W by (auto simp: Let_def bind_rs_def)
qed

text \<open>Blocked output is not an error: nothing is sent and nothing changes.\<close>

lemma emit_segment_blocked: "\<not> sendable fl t \<Longrightarrow> emit_segment fl seq ack opts sl ect t = (Inr False, t)"
  by (auto simp: emit_segment_def sendable_def)

lemma emit_segment_never_fails:
  assumes "stores_ok t" and "options_fit opts (rs_len sl)" and "slice_ok sl t"
  shows "\<exists>b u. emit_segment fl seq ack opts sl ect t = (Inr b, u)"
  using emit_segment_works [OF assms(1) _ assms(2,3), of fl seq ack ect]
    emit_segment_blocked [of fl t seq ack opts sl ect]
  by (cases "sendable fl t") auto

section \<open>Options always fit\<close>

lemma sack_push_len: "sack_ok s \<Longrightarrow> sack_len (sack_push l r s) \<le> sack_len s + 1"
  by (auto simp: sack_push_def sack_len_def sack_ok_def unat_word_ariths)

lemma fold_push_ok:
  "sack_ok s \<Longrightarrow> sack_ok (fold (\<lambda>r. sack_push (f r) (g r)) xs s)
    \<and> sack_len (fold (\<lambda>r. sack_push (f r) (g r)) xs s) \<le> sack_len s + length xs"
proof (induction xs arbitrary: s)
  case (Cons x xs)
  then show ?case
    using Cons.IH [OF sack_push_ok [OF Cons.prems], of "f x" "g x"] sack_push_len [OF Cons.prems, of "f x" "g x"]
    by simp
qed simp

lemma length_map_filter_le: "length (List.map_filter f xs) \<le> length xs"
  by (induction xs) (simp_all add: List.map_filter_simps split: option.split)

lemma fill_sack_ok:
  assumes "sack_ok s"
  shows "sack_ok (ooo_fill_sack_blocks m oo s)" and "sack_len (ooo_fill_sack_blocks m oo s) \<le> sack_len s + m"
proof -
  let ?xs = "List.map_filter id (take (min m 4)
      (fold (bubble (\<lambda>r. oo_next_tag oo - rg_tag r) (min m 4)) (ooo_slice oo) (replicate 4 None)))"
  have "length ?xs \<le> m"
    by (rule order_trans [OF length_map_filter_le]) simp
  moreover have "ooo_fill_sack_blocks m oo s = fold (\<lambda>r. sack_push (rg_start r) (rg_end r)) ?xs s"
    by (simp add: ooo_fill_sack_blocks_def Let_def)
  ultimately show "sack_ok (ooo_fill_sack_blocks m oo s)"
    and "sack_len (ooo_fill_sack_blocks m oo s) \<le> sack_len s + m"
    using fold_push_ok [OF assms, of rg_start rg_end ?xs] by simp_all
qed

lemma sack_report_ok:
  assumes "0 < n"
  shows "sack_ok (sack_report n t)" and "sack_len (sack_report n t) \<le> n"
proof -
  let ?s = "case tcb_dsack t of Some (l, r) \<Rightarrow> sack_push l r sack_empty | None \<Rightarrow> sack_empty"
  have e: "sack_ok sack_empty" "sack_len sack_empty = 0" by (simp_all add: sack_ok_def sack_empty_def sack_len_def)
  have s: "sack_ok ?s" "sack_len ?s \<le> 1"
    using sack_push_ok [OF e(1)] sack_push_len [OF e(1)] e by (auto split: option.split prod.split)
  show "sack_ok (sack_report n t)"
    unfolding sack_report_def Let_def by (rule fill_sack_ok [OF s(1)])
  show "sack_len (sack_report n t) \<le> n"
    using fill_sack_ok(2) [OF s(1), of "n - sack_len ?s" "tcb_ooo t"] s(2) assms
    unfolding sack_report_def Let_def by linarith
qed

definition segment_cap :: "tcb \<Rightarrow> u16" where
  "segment_cap t = min (min (local_mss t) (peer_mss t)) (pmtu_mss t)"

lemma sack_room_bound:
  assumes "0 < sack_room n t"
  shows "sack_room n t \<le> 4"
    and "(if ts_enabled t then 12 else 4) + 8 * sack_room n t \<le> min 40 (unat (segment_cap t) - unat n)"
proof -
  define f :: u32 where "f = (if ts_enabled t then 12 else 4)"
  define b where "b = unat (sat_sub (min (sat_sub (ucast (segment_cap t)) n) 40) f)"
  have f: "unat f = (if ts_enabled t then 12 else 4)" by (simp add: f_def)
  have b: "b = min (unat (segment_cap t) - unat n) 40 - unat f"
    by (simp add: b_def sat_simps unat_u16_up)
  have "sack_enabled t \<and> (tcb_dsack t \<noteq> None \<or> \<not> ooo_is_empty (tcb_ooo t))"
    using assms by (simp add: sack_room_def split: if_splits)
  then have "sack_room n t = unat (min (sat_sub (min (sat_sub (ucast (segment_cap t)) n) 40) f div 8) 4)"
    unfolding sack_room_def segment_cap_def f_def Let_def by (rule if_P)
  then have r: "sack_room n t = min (b div 8) 4" by (simp add: b_def unat_min unat_div)
  show "sack_room n t \<le> 4" using r by simp
  have "8 * sack_room n t \<le> 8 * (b div 8)" using r by simp
  then have "8 * sack_room n t \<le> b" using times_div_less_eq_dividend [of 8 b] by linarith
  then show "(if ts_enabled t then 12 else 4) + 8 * sack_room n t \<le> min 40 (unat (segment_cap t) - unat n)"
    using b assms unfolding f [symmetric] by linarith
qed

lemma encoded_len_ts: "options_encoded_len (ts_options t) = (if ts_enabled t then 12 else 0)"
  by (simp add: options_encoded_len_def options_raw_len_def ts_options_def options_none_def align4_def
      sack_is_empty_def sack_empty_def)

lemma segment_options_len:
  "options_encoded_len (fst (segment_options n t))
     \<le> max (if ts_enabled t then 12 else 0) (min 40 (unat (segment_cap t) - unat n))"
  "sack_ok (op_sack (fst (segment_options n t)))"
proof -
  have a: "align4 (2 + 8 * k) = 4 + 8 * k" "align4 (12 + 8 * k) = 12 + 8 * k" "align4 10 = 12" "align4 0 = 0" for k
    unfolding align4_def by presburger+
  have raw: "options_raw_len ((ts_options t)\<lparr>op_sack := sb\<rparr>) =
      (if sack_is_empty sb then if ts_enabled t then 10 else 0
       else if ts_enabled t then 12 + 8 * sack_len sb else 2 + 8 * sack_len sb)" for sb
    by (simp add: options_raw_len_def ts_options_def options_none_def)
  have enc: "options_encoded_len ((ts_options t)\<lparr>op_sack := sb\<rparr>) \<le> (if ts_enabled t then 12 else 4) + 8 * sack_len sb" for sb
    unfolding options_encoded_len_def raw by (simp add: a del: add_2_eq_Suc add_2_eq_Suc')
  show "options_encoded_len (fst (segment_options n t))
     \<le> max (if ts_enabled t then 12 else 0) (min 40 (unat (segment_cap t) - unat n))"
  proof (cases "0 < sack_room n t")
    case True
    then have "options_encoded_len (fst (segment_options n t)) \<le> min 40 (unat (segment_cap t) - unat n)"
      using enc [of "sack_report (sack_room n t) t"] sack_report_ok(2) [OF True, of t] sack_room_bound(2) [OF True]
      by (simp add: segment_options_def Let_def)
    then show ?thesis by (rule max.coboundedI2)
  next
    case False
    then show ?thesis by (simp add: segment_options_def Let_def encoded_len_ts)
  qed
  show "sack_ok (op_sack (fst (segment_options n t)))"
    using sack_report_ok(1) [of "sack_room n t" t]
    by (simp add: segment_options_def Let_def ts_options_def options_none_def sack_ok_def sack_empty_def)
qed

lemma segment_options_fit:
  assumes "sizes_ok t" and "n \<le> mss_payload t"
  shows "options_fit (fst (segment_options n t)) (unat n)"
    and "40 + options_encoded_len (fst (segment_options n t)) + unat n \<le> unat (tcb_mtu t)"
proof -
  have n: "unat n \<le> unat (mss_payload t)" using assms(2) by (simp add: word_le_nat_alt)
  note mss = mss_payload_fits [OF assms(1)]
  have m: "unat (tcb_mtu t) \<le> MAX_PACKET" "40 \<le> unat (tcb_mtu t)"
    using assms(1) by (auto simp: sizes_ok_def word_le_nat_alt MAX_PACKET_def)
  have cap: "unat (segment_cap t) + 40 \<le> unat (tcb_mtu t)"
    using cap_bounds [OF assms(1)] m
    by (auto simp: segment_cap_def word_le_nat_alt HDR_LEN_def unat_sub)
  show fit: "40 + options_encoded_len (fst (segment_options n t)) + unat n \<le> unat (tcb_mtu t)"
    using segment_options_len(1) [of n t] n mss cap m by (auto simp: le_max_iff_disj split: if_splits)
  have "options_encoded_len (fst (segment_options n t)) \<le> 40"
    using segment_options_len(1) [of n t] by (auto simp: le_max_iff_disj split: if_splits)
  then show "options_fit (fst (segment_options n t)) (unat n)"
    using fit m segment_options_len(2) [of n t] by (simp add: options_fit_def)
qed

lemma pure_ack_never_fails:
  assumes "stores_ok t" and "sizes_ok t"
  shows "fst (send_pure_ack t) = Inr ()"
proof -
  obtain opts u where o: "segment_options 0 t = (opts, u)" by (metis surj_pair)
  have "stores_ok u" using stores.options_kept [OF assms(1), of 0] o by simp
  moreover have "options_fit opts (rs_len NO_PAYLOAD)"
    using segment_options_fit(1) [OF assms(2), of 0] o by (simp add: NO_PAYLOAD_def)
  ultimately obtain b v where "emit_segment FLAG_ACK (snd_nxt u) (rcv_nxt u) opts NO_PAYLOAD False u = (Inr b, v)"
    using emit_segment_never_fails [of u opts NO_PAYLOAD FLAG_ACK "snd_nxt u" "rcv_nxt u" False]
    by (auto simp: slice_ok_def NO_PAYLOAD_def)
  then show ?thesis using o by (simp add: send_pure_ack_def bind_rs_def)
qed

lemma bare_never_fails:
  assumes "stores_ok t" and "options_fit opts 0"
  shows "\<exists>b u. emit_segment fl seq ack opts NO_PAYLOAD ect t = (Inr b, u)"
  using emit_segment_never_fails [OF assms(1), of opts NO_PAYLOAD] assms(2)
  by (simp add: NO_PAYLOAD_def slice_ok_def)

lemma handshake_options_fit:
  "options_fit \<lparr>op_mss = m, op_wscale = w, op_ts = ts, op_sack_permitted = sp, op_sack = sack_empty\<rparr> 0"
  "options_fit options_none 0"
  by (auto simp: options_fit_def options_encoded_len_def options_raw_len_def options_none_def align4_def
      sack_is_empty_def sack_empty_def sack_ok_def MAX_PACKET_def)

lemma connect_result:
  assumes "stores_ok t"
  shows "fst (tcb_connect t) = (if tcb_state t = Closed then Inr () else Inl InvalidState)"
proof -
  let ?u = "start_active (reset_connection_state (not_listener t))"
  have "stores_ok ?u"
    using assms by (intro stores.start_active_kept stores.reset_kept stores.not_listener_kept)
  then obtain b u where "emit_syn ?u = (Inr b, u)"
    using bare_never_fails [OF _ handshake_options_fit(1), of ?u] unfolding emit_syn_def by blast
  then show ?thesis by (simp add: tcb_connect_def bind_rs_def)
qed

lemma abort_result: "stores_ok t \<Longrightarrow> fst (tcb_abort t) = Inr ()"
  using bare_never_fails [OF _ handshake_options_fit(2), of t "FLAG_RST OR FLAG_ACK" "snd_nxt t" "rcv_nxt t" False]
  by (auto simp: tcb_abort_def emit_ctl_def bind_rs_def modify_rs_def)

lemma recv_result:
  assumes "stores_ok t" and "sizes_ok t" and "fst (tcb_recv dst t) = Inl e"
  shows "tcb_error t = Some e \<or> e = ConnectionClosed"
proof (cases "tcb_error t")
  case None
  obtain n d u where u: "read_bytes dst t = (n, d, u)" by (metis surj_pair)
  have "stores_ok (extend_fin_wait2 u)" "sizes_ok (extend_fin_wait2 u)"
    using stores.extend_fin_wait2_kept [OF stores.read_kept [OF assms(1)], of dst]
      sizes.extend_fin_wait2_kept [OF sizes.read_kept [OF assms(2)], of dst] u by simp_all
  then have "fst (maybe_send_window_update (extend_fin_wait2 u)) = Inr ()"
    by (simp add: maybe_send_window_update_def Let_def pure_ack_never_fails)
  then show ?thesis
    using assms(3) None u by (auto simp: tcb_recv_def split: if_splits prod.splits sum.splits)
qed (use assms(3) in \<open>simp add: tcb_recv_def\<close>)

text \<open>C10. The internal errors of the encoder never surface in the control calls: on every reachable
  connection \<^verbatim>\<open>connect\<close> fails only with \<^verbatim>\<open>InvalidState\<close>, exactly when the connection is not
  closed; \<^verbatim>\<open>abort\<close> always succeeds; \<^verbatim>\<open>recv\<close> fails only with the connection's recorded error or
  \<^verbatim>\<open>ConnectionClosed\<close>; and an acknowledgement is always sent or deferred.\<close>

theorem control_calls_fail_only_as_documented:
  assumes "reachable t"
  shows "fst (tcb_connect t) = (if tcb_state t = Closed then Inr () else Inl InvalidState)
    \<and> fst (tcb_abort t) = Inr () \<and> fst (send_pure_ack t) = Inr ()
    \<and> (case fst (tcb_recv dst t) of
         Inl e \<Rightarrow> tcb_error t = Some e \<or> e = ConnectionClosed | Inr _ \<Rightarrow> True)"
  using connect_result abort_result pure_ack_never_fails recv_result [of t dst]
    stores.reachable_kept [OF assms] sizes.reachable_kept [OF assms]
  by (auto split: sum.split)

theorem control_calls_fail_only_as_documented_witness:
  "fst (tcb_abort (fold tcb_call [Connect, SetNow 3000, Tick] example_tcb)) = Inr ()"
  using control_calls_fail_only_as_documented
    [OF reachable_calls [OF example_reachable, of "[Connect, SetNow 3000, Tick]"]] by blast

text \<open>C5. Data on the wire: on a reachable connection whose output is not blocked, emitting a data segment
  over \<^verbatim>\<open>len \<le> mss_payload\<close> bytes at offset \<^verbatim>\<open>i\<close> of the unacknowledged send buffer queues
  exactly one packet behind those already queued. It is no longer than the MTU whatever timestamp
  and SACK options it carries, and a receiver parses it to the sequence number asked for, the
  connection's endpoints, the acknowledgement \<^verbatim>\<open>rcv_nxt\<close> and exactly those bytes of the buffer.\<close>

theorem data_segment_on_the_wire:
  assumes "reachable t" and "sendable fl t" and "len \<le> mss_payload t"
    and "i + unat len \<le> rb_len (send_ring t)"
  shows "\<exists>p u seg. emit_data_segment fl seq \<lparr>rs_off = i, rs_len = unat len\<rparr> ect t = (Inr True, u)
    \<and> tx_packets (tcb_tx_ring u) = tx_packets (tcb_tx_ring t) @ [p]
    \<and> length p \<le> unat (tcb_mtu t)
    \<and> parse_opts p (\<not> tx_csum_offload t) = Inr seg
    \<and> sg_seq seg = seq \<and> sg_ack seg = rcv_nxt t
    \<and> sg_payload seg = take (unat len) (drop i (ring_contents (send_ring t)))
    \<and> sg_src_ip seg = ep_ip (tcb_local t) \<and> sg_src_port seg = ep_port (tcb_local t)
    \<and> sg_dst_ip seg = ep_ip (tcb_remote t) \<and> sg_dst_port seg = ep_port (tcb_remote t)"
proof -
  let ?sl = "\<lparr>rs_off = i, rs_len = unat len\<rparr>"
  obtain opts v where v: "segment_options len t = (opts, v)" by (metis surj_pair)
  have same: "send_ring v = send_ring t" "tcb_tx_ring v = tcb_tx_ring t" "rcv_nxt v = rcv_nxt t"
      "tcb_local v = tcb_local t" "tcb_remote v = tcb_remote t" "tx_csum_offload v = tx_csum_offload t"
      "egress_paused v = egress_paused t"
    using v by (auto simp: segment_options_def Let_def split: if_splits)
  have "stores_ok v" using stores.options_kept [OF stores.reachable_kept [OF assms(1)], of len] v by simp
  moreover have fit: "options_fit opts (unat len)" "40 + options_encoded_len opts + unat len \<le> unat (tcb_mtu t)"
    using segment_options_fit [OF sizes.reachable_kept [OF assms(1)] assms(3)] v by simp_all
  moreover have "sendable fl v" "slice_ok ?sl v"
    using assms(2,4) same by (simp_all add: sendable_def slice_ok_def)
  ultimately obtain p r where
    e: "emit_segment fl seq (rcv_nxt v) opts ?sl ect v =
      (Inr True, note_segment fl (rcv_nxt v) (snd (outbound_window (fl AND FLAG_SYN \<noteq> 0) v))
        (count_segs_out ((cwr_taken fl ect v)\<lparr>tcb_tx_ring := r\<rparr>)))"
    and r: "tx_packets r = tx_packets (tcb_tx_ring v) @ [p]" "length p = 40 + options_encoded_len opts + unat len"
    and p: "parse_opts p (\<not> tx_csum_offload v) =
        Inr (sent_segment v (tcb_remote v) seq (rcv_nxt v) (ecn_flags fl ect v)
          (fst (outbound_window (fl AND FLAG_SYN \<noteq> 0) v)) opts (slice_bytes ?sl v) (ecn_codepoint fl ect v))"
    using emit_segment_works [of v fl opts ?sl seq "rcv_nxt v" ect] by auto
  let ?u = "ack_sent (note_segment fl (rcv_nxt v) (snd (outbound_window (fl AND FLAG_SYN \<noteq> 0) v))
        (count_segs_out ((cwr_taken fl ect v)\<lparr>tcb_tx_ring := r\<rparr>)))"
  have "emit_data_segment fl seq ?sl ect t = (Inr True, ?u)"
    using v e by (simp add: emit_data_segment_def bind_rs_def)
  moreover have "tcb_tx_ring ?u = r"
    by (simp add: ack_sent_def note_segment_def count_segs_out_def Let_def)
  ultimately show ?thesis
    using p r fit(2) same by (auto simp: sent_segment_def slice_bytes_def)
qed
end
