(* ===== verification/Selftest.thy ===== *)
theory Selftest
  imports Tcb_Segments
begin

unbundle bit_operations_syntax

text \<open>
  The built-in self test, \<^verbatim>\<open>selftest.rs\<close>: two connections on one in-memory wire. The loop
  that carries packets from one to the other (\<^verbatim>\<open>ferry\<close>) has no bound in the code and is a
  partial function; \<open>ferry_terminates\<close> shows that it returns. The outer loop has the bound of
  the code.
\<close>

section \<open>Constants\<close>

definition SELFTEST_BUF :: usize where "SELFTEST_BUF = 16 * 1024"
definition SELFTEST_XFER :: u32 where "SELFTEST_XFER = 128 * 1024"
definition SELFTEST_ROUNDS :: nat where "SELFTEST_ROUNDS = 4000000"

definition RES_OK :: int where "RES_OK = 0"
definition RES_INIT_FAILED :: int where "RES_INIT_FAILED = - 1"
definition RES_SETUP_FAILED :: int where "RES_SETUP_FAILED = - 2"
definition RES_DATA_MISMATCH :: int where "RES_DATA_MISMATCH = - 3"
definition RES_NO_CONVERGENCE :: int where "RES_NO_CONVERGENCE = - 4"
definition RES_INTERNAL_ERROR :: int where "RES_INTERNAL_ERROR = - 5"

definition CLI_STREAM :: u32 where "CLI_STREAM = 0x00000001"
definition SRV_STREAM :: u32 where "SRV_STREAM = 0x80000001"

definition selftest_cfg :: "u32 \<Rightarrow> endpoint \<Rightarrow> endpoint \<Rightarrow> tcb_config" where
  "selftest_cfg isn local_ep remote_ep =
     \<lparr>tc_local = local_ep, tc_remote = remote_ep, tc_iss = isn, tc_initial_rto_ms = 1000\<rparr>"

text \<open>The byte expected at an offset of a stream.\<close>

definition pat :: "u32 \<Rightarrow> u32 \<Rightarrow> u8" where
  "pat stream offset = ucast (drop_bit 24 ((stream XOR offset) * 2654435761))"

section \<open>The wire\<close>

definition hand_over :: "u8 list \<Rightarrow> usize \<Rightarrow> tcb \<Rightarrow> tcb" where
  "hand_over pkt n t =
     (case get_range pkt 0 n of Some bytes \<Rightarrow> snd (inject_packet bytes t) | None \<Rightarrow> t)"

text \<open>Everything staged on the first connection goes to the second; \<open>False\<close> when
  \<^verbatim>\<open>extract_packet\<close> fails.\<close>

partial_function (option) ferry ::
  "u8 list \<Rightarrow> tcb \<Rightarrow> tcb \<Rightarrow> (bool \<times> u8 list \<times> tcb \<times> tcb) option" where
  "ferry pkt a b =
     (case extract_packet pkt a of
        (r, pkt, a) \<Rightarrow>
          (case r of
             Inl _ \<Rightarrow> Some (False, pkt, a, b)
           | Inr n \<Rightarrow> if n = 0 then Some (True, pkt, a, b) else ferry pkt a (hand_over pkt n b)))"

section \<open>One round\<close>

record selftest =
  cli :: tcb
  srv :: tcb
  st_now :: u64
  cli_sent :: u32
  cli_recv :: u32
  srv_sent :: u32
  srv_recv :: u32
  st_closing :: bool
  st_pkt :: "u8 list"
  st_chunk :: "u8 list"
  st_rbuf :: "u8 list"

definition tick_both :: "selftest \<Rightarrow> int + selftest" where
  "tick_both s =
     (let now = st_now s + 1 in
      case tcb_tick (set_now now (cli s)) of
        (Inl _, _) \<Rightarrow> Inl RES_INTERNAL_ERROR
      | (Inr _, c) \<Rightarrow>
          (case tcb_tick (set_now now (srv s)) of
             (Inl _, _) \<Rightarrow> Inl RES_INTERNAL_ERROR
           | (Inr _, v) \<Rightarrow> Inr (s\<lparr>st_now := now, cli := c, srv := v\<rparr>)))"

definition offer :: "u32 \<Rightarrow> u32 \<Rightarrow> u8 list \<Rightarrow> tcb \<Rightarrow> u32 \<times> u8 list \<times> tcb" where
  "offer stream sent chunk t =
     (if tcb_state t = Established \<and> sent < SELFTEST_XFER
      then
        let n = unat (min (of_nat (length chunk)) (SELFTEST_XFER - sent));
            chunk = overlay chunk 0 (map (\<lambda>i. pat stream (sent + of_nat i)) [0..<min n (length chunk)])
        in (case get_range chunk 0 n of
              Some src \<Rightarrow>
                (case tcb_send src t of
                   (Inr w, t) \<Rightarrow> (sent + of_nat w, chunk, t)
                 | (Inl _, t) \<Rightarrow> (sent, chunk, t))
            | None \<Rightarrow> (sent, chunk, t))
      else (sent, chunk, t))"

definition offer_both :: "selftest \<Rightarrow> selftest" where
  "offer_both s =
     (let (n, chunk, c) = offer CLI_STREAM (cli_sent s) (st_chunk s) (cli s);
          (m, chunk, v) = offer SRV_STREAM (srv_sent s) chunk (srv s)
      in s\<lparr>cli_sent := n, cli := c, srv_sent := m, srv := v, st_chunk := chunk\<rparr>)"

definition drain :: "u32 \<Rightarrow> u32 \<Rightarrow> u8 list \<Rightarrow> tcb \<Rightarrow> int + (u32 \<times> u8 list \<times> tcb)" where
  "drain stream received rbuf t =
     (case tcb_recv rbuf t of
        (Inr n, rbuf, t) \<Rightarrow>
          if list_all (\<lambda>i. get_at rbuf i = Some (pat stream (received + of_nat i))) [0..<n]
          then Inr (received + of_nat n, rbuf, t) else Inl RES_DATA_MISMATCH
      | (Inl _, rbuf, t) \<Rightarrow> Inr (received, rbuf, t))"

definition drain_both :: "selftest \<Rightarrow> int + selftest" where
  "drain_both s =
     (case drain SRV_STREAM (cli_recv s) (st_rbuf s) (cli s) of
        Inl e \<Rightarrow> Inl e
      | Inr (n, rbuf, c) \<Rightarrow>
          (case drain CLI_STREAM (srv_recv s) rbuf (srv s) of
             Inl e \<Rightarrow> Inl e
           | Inr (m, rbuf, v) \<Rightarrow>
               Inr (s\<lparr>cli_recv := n, cli := c, srv_recv := m, srv := v, st_rbuf := rbuf\<rparr>)))"

definition close_both :: "selftest \<Rightarrow> int + selftest" where
  "close_both s =
     (if \<not> st_closing s \<and> cli_sent s = SELFTEST_XFER \<and> cli_recv s = SELFTEST_XFER
         \<and> srv_sent s = SELFTEST_XFER \<and> srv_recv s = SELFTEST_XFER
      then (case tcb_close (cli s) of
              (Inl _, _) \<Rightarrow> Inl RES_INTERNAL_ERROR
            | (Inr _, c) \<Rightarrow>
                (case tcb_close (srv s) of
                   (Inl _, _) \<Rightarrow> Inl RES_INTERNAL_ERROR
                 | (Inr _, v) \<Rightarrow> Inr (s\<lparr>cli := c, srv := v, st_closing := True\<rparr>)))
      else Inr s)"

definition all_done :: "selftest \<Rightarrow> bool" where
  "all_done s \<longleftrightarrow>
     st_closing s \<and> tcb_state (cli s) \<in> {Closed, TimeWait} \<and> tcb_state (srv s) \<in> {Closed, TimeWait}"

definition after_ferry :: "selftest \<Rightarrow> int + selftest" where
  "after_ferry s =
     (case drain_both (offer_both s) of
        Inl e \<Rightarrow> Inl e
      | Inr s \<Rightarrow>
          (case close_both s of
             Inl e \<Rightarrow> Inl e
           | Inr s \<Rightarrow> if all_done s then Inl RES_OK else Inr s))"

definition ferry_both :: "selftest \<Rightarrow> (int + selftest) option" where
  "ferry_both s =
     (case ferry (st_pkt s) (cli s) (srv s) of
        None \<Rightarrow> None
      | Some (ok, pkt, c, v) \<Rightarrow>
          if \<not> ok then Some (Inl RES_INTERNAL_ERROR)
          else (case ferry pkt v c of
                  None \<Rightarrow> None
                | Some (ok, pkt, v, c) \<Rightarrow>
                    if \<not> ok then Some (Inl RES_INTERNAL_ERROR)
                    else Some (Inr (s\<lparr>st_pkt := pkt, cli := c, srv := v\<rparr>))))"

definition selftest_round :: "selftest \<Rightarrow> (int + selftest) option" where
  "selftest_round s =
     (case tick_both s of
        Inl e \<Rightarrow> Some (Inl e)
      | Inr s \<Rightarrow>
          (case ferry_both s of
             None \<Rightarrow> None
           | Some (Inl e) \<Rightarrow> Some (Inl e)
           | Some (Inr s) \<Rightarrow> Some (after_ferry s)))"

fun selftest_rounds :: "nat \<Rightarrow> selftest \<Rightarrow> int option" where
  "selftest_rounds 0 s = Some RES_NO_CONVERGENCE"
| "selftest_rounds (Suc k) s =
     (case selftest_round s of
        None \<Rightarrow> None
      | Some (Inl e) \<Rightarrow> Some e
      | Some (Inr s) \<Rightarrow> selftest_rounds k s)"

section \<open>The whole test\<close>

definition selftest_run :: "tcb \<Rightarrow> tcb \<Rightarrow> int option" where
  "selftest_run c v =
     (let c = set_now 0 c; v = set_secret (replicate 16 0x5e) (set_now 0 v) in
      case tcb_listen v of
        (Inl _, _) \<Rightarrow> Some RES_SETUP_FAILED
      | (Inr _, v) \<Rightarrow>
          (case tcb_connect c of
             (Inl _, _) \<Rightarrow> Some RES_SETUP_FAILED
           | (Inr _, c) \<Rightarrow>
               selftest_rounds SELFTEST_ROUNDS
                 \<lparr>cli = c, srv = v, st_now = 0, cli_sent = 0, cli_recv = 0, srv_sent = 0, srv_recv = 0,
                  st_closing = False, st_pkt = replicate MAX_PACKET 0, st_chunk = replicate 4096 0,
                  st_rbuf = replicate 4096 0\<rparr>))"

definition self_conformance :: "int option" where
  "self_conformance =
     (let cli_ep = \<lparr>ep_ip = (10, 0, 0, 1), ep_port = 40000\<rparr>;
          srv_ep = \<lparr>ep_ip = (10, 0, 0, 2), ep_port = 80\<rparr>
      in case tcb_init_in_place SELFTEST_BUF RTX_QUEUE_CAP TX_RING_CAP
                (selftest_cfg 0x11111111 cli_ep srv_ep) of
           Inl _ \<Rightarrow> Some RES_INIT_FAILED
         | Inr c \<Rightarrow>
             (case tcb_init_in_place SELFTEST_BUF RTX_QUEUE_CAP TX_RING_CAP
                     (selftest_cfg 0x99999999 srv_ep cli_ep) of
                Inl _ \<Rightarrow> Some RES_INIT_FAILED
              | Inr v \<Rightarrow> selftest_run c v))"

section \<open>The wire always runs dry\<close>

text \<open>The rest of a connection does not see its packets go.\<close>

definition sends_off :: "tcb \<Rightarrow> tcb \<Rightarrow> bool" where
  "sends_off a a' \<longleftrightarrow> (\<exists>r. a' = a\<lparr>tcb_tx_ring := r\<rparr> \<and> tx_inv r)"

lemma sends_off_trans: "sends_off a b \<Longrightarrow> sends_off b c \<Longrightarrow> sends_off a c"
  unfolding sends_off_def by (elim exE conjE, hypsubst, rule exI) simp

lemma sends_off_stores: "sends_off a a' \<Longrightarrow> stores_ok a \<Longrightarrow> stores_ok a'"
  unfolding sends_off_def stores_ok_def by (elim exE conjE) simp

lemma packets_small: "tx_inv t \<Longrightarrow> p \<in> set (tx_packets t) \<Longrightarrow> length p \<le> MAX_PACKET"
  by (auto simp: list_all_iff tx_inv_def tx_packets_def slot_bytes_def slot_ok_def min_le_iff_disj)

lemma extract_none:
  assumes "stores_ok t" and "tx_packets (tcb_tx_ring t) = []"
  shows "fst (extract_packet pkt t) = Inr 0" "fst (snd (extract_packet pkt t)) = pkt"
    "sends_off t (snd (snd (extract_packet pkt t)))"
    "tx_packets (tcb_tx_ring (snd (snd (extract_packet pkt t)))) = []"
  using tx_pop_into_refines [of "tcb_tx_ring t" pkt] assms
  by (simp_all add: extract_packet_def stores_ok_def sends_off_def) (rule exI [of _ "tcb_tx_ring t"], simp)

lemma extract_one:
  assumes "stores_ok t" and "MAX_PACKET \<le> length pkt" and "tx_packets (tcb_tx_ring t) = p # ps"
  shows "fst (extract_packet pkt t) = Inr (length p)" "fst (snd (extract_packet pkt t)) = p @ drop (length p) pkt"
    "sends_off t (snd (snd (extract_packet pkt t)))"
    "tx_packets (tcb_tx_ring (snd (snd (extract_packet pkt t)))) = ps"
    "p \<noteq> []" "length p \<le> MAX_PACKET"
proof -
  have inv: "tx_inv (tcb_tx_ring t)" using assms(1) by (simp add: stores_ok_def)
  show small: "length p \<le> MAX_PACKET" using packets_small [OF inv, of p] assms(3) by simp
  obtain r where r: "tx_pop_into pkt (tcb_tx_ring t) = (Inr (length p), p @ drop (length p) pkt, r)"
      "p \<noteq> []" "tx_inv r" "tx_packets r = ps"
    using tx_pop_into_refines [OF inv, of pkt] assms(2,3) small by auto
  then show "fst (extract_packet pkt t) = Inr (length p)" "fst (snd (extract_packet pkt t)) = p @ drop (length p) pkt"
    "tx_packets (tcb_tx_ring (snd (snd (extract_packet pkt t)))) = ps" "p \<noteq> []"
    by (simp_all add: extract_packet_def)
  show "sends_off t (snd (snd (extract_packet pkt t)))"
    unfolding sends_off_def extract_packet_def r(1) prod.case snd_conv using r(3) by blast
qed

lemma hand_over_slice: "hand_over (p @ rest) (length p) t = snd (inject_packet p t)"
  by (simp add: hand_over_def get_range_def)

lemma ferry_unfold:
  "ferry pkt a b =
     (case fst (extract_packet pkt a) of
        Inl _ \<Rightarrow> Some (False, fst (snd (extract_packet pkt a)), snd (snd (extract_packet pkt a)), b)
      | Inr n \<Rightarrow>
          if n = 0 then Some (True, fst (snd (extract_packet pkt a)), snd (snd (extract_packet pkt a)), b)
          else ferry (fst (snd (extract_packet pkt a))) (snd (snd (extract_packet pkt a)))
                 (hand_over (fst (snd (extract_packet pkt a))) n b))"
  by (subst ferry.simps) (simp add: case_prod_beta)

definition inject_all :: "u8 list list \<Rightarrow> tcb \<Rightarrow> tcb" where
  "inject_all = fold (\<lambda>p t. snd (inject_packet p t))"

lemma ferry_delivers:
  assumes "stores_ok a" and "MAX_PACKET \<le> length pkt" and "tx_packets (tcb_tx_ring a) = ps"
  shows "\<exists>q a'. ferry pkt a b = Some (True, q, a', inject_all ps b)
    \<and> length q = length pkt \<and> tx_packets (tcb_tx_ring a') = [] \<and> sends_off a a'"
  using assms
proof (induction ps arbitrary: pkt a b)
  case Nil
  then show ?case
    unfolding ferry_unfold [of pkt] using extract_none [OF Nil.prems(1,3), of pkt]
    by (simp add: inject_all_def)
next
  case (Cons p ps)
  let ?q = "p @ drop (length p) pkt" and ?a = "snd (snd (extract_packet pkt a))"
  note one = extract_one [OF Cons.prems]
  have "stores_ok ?a" using sends_off_stores [OF one(3) Cons.prems(1)] .
  moreover have "MAX_PACKET \<le> length ?q" using Cons.prems(2) by simp
  ultimately obtain q' a' where "ferry ?q ?a (snd (inject_packet p b)) = Some (True, q', a', inject_all ps (snd (inject_packet p b)))"
      "length q' = length ?q" "tx_packets (tcb_tx_ring a') = []" "sends_off ?a a'"
    using Cons.IH [OF _ _ one(4)] by blast
  moreover have "ferry pkt a b = ferry ?q ?a (snd (inject_packet p b))"
    unfolding ferry_unfold [of pkt] using one(1,2,5) by (simp add: hand_over_slice)
  moreover have "inject_all (p # ps) b = inject_all ps (snd (inject_packet p b))" by (simp add: inject_all_def)
  ultimately show ?case
    using sends_off_trans [OF one(3)] one(6) Cons.prems(2) by auto
qed

section \<open>The test terminates\<close>

definition selftest_ok :: "selftest \<Rightarrow> bool" where
  "selftest_ok s \<longleftrightarrow> stores_ok (cli s) \<and> stores_ok (srv s) \<and> length (st_pkt s) = MAX_PACKET"

lemma inject_all_kept: "stores_ok t \<Longrightarrow> stores_ok (inject_all ps t)"
  unfolding inject_all_def by (induction ps arbitrary: t) (simp_all add: stores.packet_kept)

lemma tick_both_ok: "selftest_ok s \<Longrightarrow> tick_both s = Inr s' \<Longrightarrow> selftest_ok s'"
  using stores.run_timers_kept [OF stores.now_kept, of "cli s" "st_now s + 1"]
    stores.run_timers_kept [OF stores.now_kept, of "srv s" "st_now s + 1"]
  by (auto simp: tick_both_def selftest_ok_def Let_def tcb_tick_def split: prod.splits sum.splits)

lemma offer_ok: "stores_ok t \<Longrightarrow> stores_ok (snd (snd (offer stream sent chunk t)))"
  using stores.send_kept [of t]
  by (auto simp: offer_def Let_def split: prod.split sum.split option.split) (metis snd_conv)+

lemma offer_both_ok: "selftest_ok s \<Longrightarrow> selftest_ok (offer_both s)"
  using offer_ok by (simp add: offer_both_def selftest_ok_def Let_def case_prod_beta)

lemma drain_ok: "stores_ok t \<Longrightarrow> drain stream received rbuf t = Inr (n, b, u) \<Longrightarrow> stores_ok u"
  using stores.recv_kept [of t rbuf] by (auto simp: drain_def split: prod.splits sum.splits if_splits)

lemma drain_both_ok: "selftest_ok s \<Longrightarrow> drain_both s = Inr s' \<Longrightarrow> selftest_ok s'"
  by (auto simp: drain_both_def selftest_ok_def split: sum.splits prod.splits dest: drain_ok)

lemma close_ok: "stores_ok t \<Longrightarrow> stores_ok (snd (tcb_close t))"
  using stores.uncommitted_call_kept [of t Close] by simp

lemma close_both_ok: "selftest_ok s \<Longrightarrow> close_both s = Inr s' \<Longrightarrow> selftest_ok s'"
  using close_ok [of "cli s"] close_ok [of "srv s"]
  by (auto simp: close_both_def selftest_ok_def split: sum.splits prod.splits if_splits)

lemma ferry_both_ok:
  assumes "selftest_ok s"
  shows "\<exists>s'. ferry_both s = Some (Inr s') \<and> selftest_ok s'"
proof -
  have s: "stores_ok (cli s)" "stores_ok (srv s)" "MAX_PACKET \<le> length (st_pkt s)" "length (st_pkt s) = MAX_PACKET"
    using assms by (simp_all add: selftest_ok_def)
  let ?v = "inject_all (tx_packets (tcb_tx_ring (cli s))) (srv s)"
  obtain q c where 1: "ferry (st_pkt s) (cli s) (srv s) = Some (True, q, c, ?v)"
      "length q = length (st_pkt s)" "sends_off (cli s) c"
    using ferry_delivers [OF s(1,3) refl] by blast
  have v: "stores_ok ?v" "MAX_PACKET \<le> length q" using s 1(2) by (simp_all add: inject_all_kept)
  let ?c = "inject_all (tx_packets (tcb_tx_ring ?v)) c"
  obtain q' v' where 2: "ferry q ?v c = Some (True, q', v', ?c)" "length q' = length q" "sends_off ?v v'"
    using ferry_delivers [OF v refl] by blast
  have "stores_ok v'" "stores_ok ?c"
    using sends_off_stores [OF 2(3) v(1)] inject_all_kept [OF sends_off_stores [OF 1(3) s(1)]] by blast+
  then show ?thesis
    unfolding ferry_both_def 1(1) using 2(1,2) 1(2) s(4) by (simp add: selftest_ok_def)
qed

definition selftest_codes :: "int set" where
  "selftest_codes = {RES_OK, RES_DATA_MISMATCH, RES_NO_CONVERGENCE, RES_INTERNAL_ERROR}"

lemma round_codes:
  "tick_both s = Inl e \<Longrightarrow> e \<in> selftest_codes" "drain stream received rbuf t = Inl e \<Longrightarrow> e \<in> selftest_codes"
  "close_both s = Inl e \<Longrightarrow> e \<in> selftest_codes"
  by (auto simp: tick_both_def drain_def close_both_def selftest_codes_def Let_def
      split: prod.splits sum.splits if_splits)

lemma after_ferry_codes: "after_ferry s = Inl e \<Longrightarrow> e \<in> selftest_codes"
  by (auto simp: after_ferry_def drain_both_def split: sum.splits prod.splits if_splits dest: round_codes)
    (simp add: selftest_codes_def)

lemma after_ferry_ok: "selftest_ok s \<Longrightarrow> after_ferry s = Inr s' \<Longrightarrow> selftest_ok s'"
  by (auto simp: after_ferry_def split: sum.splits if_splits
      dest: close_both_ok drain_both_ok [OF offer_both_ok])

lemma round_ok:
  assumes "selftest_ok s"
  shows "\<exists>x. selftest_round s = Some x
    \<and> (case x of Inl e \<Rightarrow> e \<in> selftest_codes | Inr s' \<Rightarrow> selftest_ok s')"
proof (cases "tick_both s")
  case (Inl e)
  then show ?thesis by (simp add: selftest_round_def round_codes)
next
  case (Inr u)
  obtain w where "ferry_both u = Some (Inr w)" "selftest_ok w"
    using ferry_both_ok [OF tick_both_ok [OF assms Inr]] by blast
  with Inr show ?thesis
    by (auto simp: selftest_round_def split: sum.split intro: after_ferry_codes after_ferry_ok)
qed

lemma rounds_ok: "selftest_ok s \<Longrightarrow> \<exists>e \<in> selftest_codes. selftest_rounds k s = Some e"
proof (induction k arbitrary: s)
  case (Suc k)
  obtain x where x: "selftest_round s = Some x" "case x of Inl e \<Rightarrow> e \<in> selftest_codes | Inr s' \<Rightarrow> selftest_ok s'"
    using round_ok [OF Suc.prems] by blast
  then show ?case using Suc.IH by (cases x) auto
qed (simp add: selftest_codes_def)

lemma secret_installed:
  "tcb_state (set_secret key t) = tcb_state t" "secret_set (set_secret key t)"
  by (simp_all add: set_secret_def install_cookie_key_def Let_def)

lemma selftest_listens:
  "tcb_state t = Closed \<Longrightarrow> tcb_listen (set_secret key (set_now now t)) = (Inr (), start_listen (set_secret key (set_now now t)))"
  by (simp add: tcb_listen_def secret_installed) (simp add: set_now_def)

text \<open>C9. The self test always returns: its unbounded packet loops end, because each takes packets off
  one connection and only ever adds them to the other, so within its round budget it reaches a result. It
  never reports \<^verbatim>\<open>INIT_FAILED\<close> or \<^verbatim>\<open>SETUP_FAILED\<close>.\<close>

theorem self_conformance_returns:
  "\<exists>e. self_conformance = Some e
     \<and> e \<in> {RES_OK, RES_DATA_MISMATCH, RES_NO_CONVERGENCE, RES_INTERNAL_ERROR}"
proof -
  have "is_pow2 SELFTEST_BUF" "caps_valid SELFTEST_BUF RTX_QUEUE_CAP TX_RING_CAP"
    by (simp_all add: is_pow2_def SELFTEST_BUF_def caps_valid_def RTX_QUEUE_CAP_def TX_RING_CAP_def)
  then have made: "\<exists>t. tcb_init_in_place SELFTEST_BUF RTX_QUEUE_CAP TX_RING_CAP cfg = Inr t
      \<and> stores_ok t \<and> tcb_state t = Closed" for cfg
    using stores.init_kept by (simp add: tcb_init_in_place_def tcb_setup_def)
  have run: "\<exists>e \<in> selftest_codes. selftest_run c v = Some e"
    if c: "stores_ok c" "tcb_state c = Closed" and v: "stores_ok v" "tcb_state v = Closed" for c v
  proof -
    have "stores_ok (set_now 0 c)" using c by (intro stores.now_kept)
    moreover have "tcb_state (set_now 0 c) = Closed" using c by (simp add: set_now_def)
    ultimately obtain u where u: "tcb_connect (set_now 0 c) = (Inr (), u)" "stores_ok u"
      using connect_result [of "set_now 0 c"] stores.connect_kept [of "set_now 0 c"]
      by (metis prod.collapse)
    have "stores_ok (start_listen (set_secret (replicate 16 0x5e) (set_now 0 v)))"
      using v by (intro stores.start_listen_kept stores.set_secret_kept stores.now_kept)
    with u show ?thesis
      unfolding selftest_run_def Let_def selftest_listens [OF v(2)]
      by (simp only: prod.case sum.case) (rule rounds_ok, simp add: selftest_ok_def)
  qed
  obtain c where c: "tcb_init_in_place SELFTEST_BUF RTX_QUEUE_CAP TX_RING_CAP
      (selftest_cfg 0x11111111 \<lparr>ep_ip = (10, 0, 0, 1), ep_port = 40000\<rparr> \<lparr>ep_ip = (10, 0, 0, 2), ep_port = 80\<rparr>) = Inr c"
    "stores_ok c" "tcb_state c = Closed"
    using made by blast
  obtain v where v: "tcb_init_in_place SELFTEST_BUF RTX_QUEUE_CAP TX_RING_CAP
      (selftest_cfg 0x99999999 \<lparr>ep_ip = (10, 0, 0, 2), ep_port = 80\<rparr> \<lparr>ep_ip = (10, 0, 0, 1), ep_port = 40000\<rparr>) = Inr v"
    "stores_ok v" "tcb_state v = Closed"
    using made by blast
  show ?thesis
    using run [OF c(2,3) v(2,3)] unfolding self_conformance_def Let_def c(1) v(1) selftest_codes_def by auto
qed

end
