(* ===== verification/Handshake.thy ===== *)
theory Handshake
  imports Selftest
begin

unbundle bit_operations_syntax

text \<open>
  Two connections and the wire between them: a client's \<^verbatim>\<open>connect\<close> (SYN), the listener's answer
  (SYN-ACK) and the client's acknowledgement, each as the bytes one end emits and the other parses.
  One lemma per packet gives the whole state the handshake settles; the theorem composes them.
\<close>

section \<open>The two sides of a handshake\<close>

text \<open>What a handshake settles, and a connection that has carried nothing yet.\<close>

definition settled_view where
  "settled_view t = ((iss t, snd_nxt t, irs t, rcv_nxt t), (tcb_local t, tcb_remote t),
     (tcb_mtu t, local_mss t, peer_mss t), (tcb_BUF t, snd_wscale t, rcv_wscale t),
     [ws_ok t, ts_enabled t, sack_enabled t, ecn_enabled t, is_listener t, tx_csum_offload t, egress_paused t])"

definition unused :: "tcb \<Rightarrow> bool" where
  "unused t \<longleftrightarrow> stores_ok t \<and> \<not> fin_sent t \<and> rb_len (send_ring t) = 0 \<and> rb_len (recv_ring t) = 0
     \<and> ooo_is_empty (tcb_ooo t) \<and> ooo_fin t = None \<and> tcb_dsack t = None \<and> rq_len (tcb_rtx t) = 0
     \<and> \<not> ce_observed t"

lemmas flag_defs = FLAG_FIN_def FLAG_SYN_def FLAG_RST_def FLAG_PSH_def FLAG_ACK_def FLAG_ECE_def FLAG_CWR_def

lemma unused_reset: "stores_ok t \<Longrightarrow> unused (reset_connection_state t)"
  using stores.reset_kept [of t]
  by (simp add: unused_def)
    (simp add: reset_connection_state_def ring_clear_def ooo_is_empty_def ooo_clear_def rq_clear_def)

lemma tx_room: "tx_inv r \<Longrightarrow> tx_packets r = [] \<Longrightarrow> \<not> tx_is_full r"
  by (auto simp: tx_inv_def tx_packets_def tx_staged_def tx_is_full_def)

lemma reset_room: "stores_ok t \<Longrightarrow> \<not> tx_is_full (tcb_tx_ring (reset_connection_state t))"
  by (auto simp: stores_ok_def tx_inv_def reset_connection_state_def tx_clear_def tx_is_full_def)

lemma reset_fields:
  "tcb_mtu (reset_connection_state t) = tcb_mtu t" "local_mss (reset_connection_state t) = sat_sub (tcb_mtu t) HDR_LEN"
  "tcb_BUF (reset_connection_state t) = tcb_BUF t" "tcb_local (reset_connection_state t) = tcb_local t"
  "is_listener (reset_connection_state t) = is_listener t" "egress_paused (reset_connection_state t) = egress_paused t"
  "tx_csum_offload (reset_connection_state t) = tx_csum_offload t"
  "tx_packets (tcb_tx_ring (reset_connection_state t)) = []"
  by (simp_all add: reset_connection_state_def tcb_BUF_def ring_capacity_def ring_clear_def tx_packets_def
      tx_staged_def tx_clear_def)

lemma count_segs_in_fields:
  "tcb_mtu (count_segs_in t) = tcb_mtu t" "tcb_BUF (count_segs_in t) = tcb_BUF t"
  "tcb_local (count_segs_in t) = tcb_local t" "is_listener (count_segs_in t) = is_listener t"
  "egress_paused (count_segs_in t) = egress_paused t" "tx_csum_offload (count_segs_in t) = tx_csum_offload t"
  by (simp_all add: count_segs_in_def tcb_BUF_def)

lemma emit_bare_works:
  assumes "stores_ok t" and "sendable fl t" and "options_fit opts 0"
  shows "\<exists>p r. emit_segment fl seq ack opts NO_PAYLOAD False t =
      (Inr True, note_segment fl ack (snd (outbound_window (fl AND FLAG_SYN \<noteq> 0) t))
        (count_segs_out (t\<lparr>tcb_tx_ring := r\<rparr>)))
    \<and> tx_inv r \<and> tx_packets r = tx_packets (tcb_tx_ring t) @ [p]
    \<and> parse_opts p (\<not> tx_csum_offload t) =
        Inr (sent_segment t (tcb_remote t) seq ack (ecn_flags fl False t)
          (fst (outbound_window (fl AND FLAG_SYN \<noteq> 0) t)) opts [] ECN_NOT_ECT)"
proof -
  have "cwr_taken fl False t = t" "ecn_codepoint fl False t = ECN_NOT_ECT" "slice_bytes NO_PAYLOAD t = []"
      "slice_ok NO_PAYLOAD t" "rs_len NO_PAYLOAD = 0"
    by (simp_all add: cwr_taken_def ecn_codepoint_def slice_bytes_def slice_ok_def NO_PAYLOAD_def)
  then show ?thesis
    using emit_segment_works [OF assms(1,2), of opts NO_PAYLOAD seq ack False] assms(3) by (simp only:) blast
qed

section \<open>The client's SYN\<close>

text \<open>The state and the options of a SYN, as the connection that sends it has them.\<close>

lemma client_syn:
  assumes "stores_ok c" and "tcb_state c = Closed"
  shows "\<exists>p c1 w ts. tcb_connect c = (Inr (), c1) \<and> tx_packets (tcb_tx_ring c1) = [p] \<and> unused c1
    \<and> tcb_state c1 = SynSent
    \<and> settled_view c1 = ((cfg_iss c, cfg_iss c + 1, 0, 0), (tcb_local c, tcb_remote c),
        (tcb_mtu c, sat_sub (tcb_mtu c) HDR_LEN, DEFAULT_PEER_MSS), (tcb_BUF c, 0, 0),
        [False, False, False, False, False, tx_csum_offload c, egress_paused c])
    \<and> parse_opts p (\<not> tx_csum_offload c) =
        Inr (sent_segment c (tcb_remote c) (cfg_iss c) 0 (FLAG_SYN OR FLAG_ECE OR FLAG_CWR) w
          \<lparr>op_mss = Some (sat_sub (tcb_mtu c) HDR_LEN), op_wscale = Some (tcb_WS c),
           op_ts = Some (ts, 0), op_sack_permitted = True, op_sack = sack_empty\<rparr> [] ECN_NOT_ECT)"
proof -
  let ?u = "start_active (reset_connection_state (not_listener c))"
  let ?fl = "FLAG_SYN OR FLAG_ECE OR FLAG_CWR"
  have nl: "stores_ok (not_listener c)" by (rule stores.not_listener_kept [OF assms(1)])
  have u: "unused ?u" "stores_ok ?u"
    using unused_reset [OF nl] by (simp_all add: unused_def start_active_def stores_ok_def)
  have "sendable ?fl ?u"
    using reset_room [OF nl] by (simp add: sendable_def start_active_def flag_defs)
  from emit_bare_works [OF u(2) this handshake_options_fit(1)]
  obtain p r where e: "emit_syn ?u = (Inr True, note_segment ?fl 0 (snd (outbound_window (?fl AND FLAG_SYN \<noteq> 0) ?u))
        (count_segs_out (?u\<lparr>tcb_tx_ring := r\<rparr>)))"
      and r: "tx_inv r" "tx_packets r = tx_packets (tcb_tx_ring ?u) @ [p]"
      and p: "parse_opts p (\<not> tx_csum_offload ?u) =
        Inr (sent_segment ?u (tcb_remote ?u) (iss ?u) 0 (ecn_flags ?fl False ?u)
          (fst (outbound_window (?fl AND FLAG_SYN \<noteq> 0) ?u))
          \<lparr>op_mss = Some (local_mss ?u), op_wscale = Some (tcb_WS ?u), op_ts = Some (ts_val ?u, 0),
           op_sack_permitted = True, op_sack = sack_empty\<rparr> [] ECN_NOT_ECT)"
    unfolding emit_syn_def by blast
  let ?c1 = "synack_out (count_segs_out (?u\<lparr>tcb_tx_ring := r\<rparr>))"
  have "note_segment ?fl 0 w t = t" for w t by (simp add: note_segment_def flag_defs)
  then have "tcb_connect c = (Inr (), ?c1)" using e assms(2) by (simp add: tcb_connect_def bind_rs_def)
  moreover have "tx_packets (tcb_tx_ring ?c1) = [p]"
    using r(2) by (simp add: synack_out_def arm_rto_def count_segs_out_def start_active_def
        reset_connection_state_def tx_packets_def tx_staged_def tx_clear_def)
  moreover have "unused ?c1"
    using u r(1) by (simp add: unused_def stores_ok_def synack_out_def arm_rto_def count_segs_out_def)
  moreover have "tcb_state ?c1 = SynSent"
    by (simp add: synack_out_def arm_rto_def count_segs_out_def start_active_def)
  moreover have "settled_view ?c1 = ((cfg_iss c, cfg_iss c + 1, 0, 0), (tcb_local c, tcb_remote c),
        (tcb_mtu c, sat_sub (tcb_mtu c) HDR_LEN, DEFAULT_PEER_MSS), (tcb_BUF c, 0, 0),
        [False, False, False, False, False, tx_csum_offload c, egress_paused c])"
    by (simp add: settled_view_def synack_out_def arm_rto_def count_segs_out_def start_active_def
        reset_connection_state_def not_listener_def tcb_BUF_def ring_capacity_def ring_clear_def)
  moreover have "tcb_WS ?u = tcb_WS c" "local_mss ?u = sat_sub (tcb_mtu c) HDR_LEN" "iss ?u = cfg_iss c"
      "tcb_remote ?u = tcb_remote c" "tx_csum_offload ?u = tx_csum_offload c" "sent_segment ?u = sent_segment c"
      "ecn_flags ?fl False ?u = ?fl"
    by (simp_all add: start_active_def reset_connection_state_def not_listener_def tcb_WS_def tcb_BUF_def
        ring_capacity_def ring_clear_def sent_segment_def fun_eq_iff ecn_flags_def)
  ultimately show ?thesis using p by (simp only:) blast
qed

section \<open>The server's SYN-ACK\<close>

lemma dispatched:
  assumes "sg_dst_ip seg = ep_ip (tcb_local t)" and "sg_dst_port seg = ep_port (tcb_local t)"
    and "tcb_state t = Listen \<or> tcb_remote t = remote_of seg"
  shows "inject_segment seg t = dispatch_segment seg t"
  using assms by (auto simp: inject_segment_def Let_def remote_of_def)

definition syn_seg :: "segment \<Rightarrow> u16 \<Rightarrow> u8 \<Rightarrow> u32 \<Rightarrow> bool" where
  "syn_seg seg m ws ts \<longleftrightarrow>
     sg_flags seg = FLAG_SYN OR FLAG_ECE OR FLAG_CWR
     \<and> sg_options seg = \<lparr>op_mss = Some m, op_wscale = Some ws, op_ts = Some (ts, 0),
          op_sack_permitted = True, op_sack = sack_empty\<rparr>"

lemma server_synack:
  assumes "stores_ok s" and "tcb_state s = Listen" and "syn_seg seg m ws ts"
    and "sg_dst_ip seg = ep_ip (tcb_local s)" and "sg_dst_port seg = ep_port (tcb_local s)"
  shows "\<exists>p s1 w ts' isn. inject_segment seg s = (Inr (), s1) \<and> tx_packets (tcb_tx_ring s1) = [p] \<and> unused s1
    \<and> tcb_state s1 = SynRcvd
    \<and> settled_view s1 = ((isn, isn + 1, sg_seq seg, sg_seq seg + 1), (tcb_local s, remote_of seg),
        (tcb_mtu s, sat_sub (tcb_mtu s) HDR_LEN, max m MIN_PEER_MSS), (tcb_BUF s, min ws 14, tcb_WS s),
        [True, True, True, True, is_listener s, tx_csum_offload s, egress_paused s])
    \<and> parse_opts p (\<not> tx_csum_offload s) =
        Inr (sent_segment s (remote_of seg) isn (sg_seq seg + 1) (FLAG_SYN OR FLAG_ACK OR FLAG_ECE) w
          \<lparr>op_mss = Some (sat_sub (tcb_mtu s) HDR_LEN), op_wscale = Some (tcb_WS s),
           op_ts = Some (ts', ts), op_sack_permitted = True, op_sack = sack_empty\<rparr> [] ECN_NOT_ECT)"
proof -
  let ?s = "count_segs_in s" and ?fl = "FLAG_SYN OR FLAG_ACK OR FLAG_ECE"
  let ?r = "reset_connection_state ?s"
  define x where "x = (half_open (absorb_syn_options seg (start_passive seg ?r)))\<lparr>ecn_enabled := True, syn_xmit_ms := now_ms ?r\<rparr>"
  define isn where "isn = passive_iss (remote_of seg) (sg_seq seg) ?r"
  have has: "seg_has seg FLAG_SYN" "seg_has seg FLAG_ECE" "seg_has seg FLAG_CWR"
      "\<not> seg_has seg FLAG_RST" "\<not> seg_has seg FLAG_ACK" "\<not> seg_has seg FLAG_FIN"
    using assms(3) by (simp_all add: syn_seg_def seg_has_def flag_defs)
  have opts: "op_mss (sg_options seg) = Some m" "op_wscale (sg_options seg) = Some ws"
      "op_ts (sg_options seg) = Some (ts, 0)" "op_sack_permitted (sg_options seg)"
    using assms(3) by (simp_all add: syn_seg_def)
  note defs = half_open_def absorb_syn_options_def absorb_ws_def absorb_ts_def start_passive_def Let_def opts
  have now: "now_ms (half_open (absorb_syn_options seg (start_passive seg ?r))) = now_ms ?r"
      "now_ms (start_passive seg ?r) = now_ms ?r"
    by (simp_all add: defs)
  have ok: "stores_ok ?s" using assms(1) by (simp add: count_segs_in_def stores_ok_def)
  have x: "unused x" "stores_ok x"
    using unused_reset [OF ok] by (simp_all add: unused_def stores_ok_def x_def defs)
  have ecn: "ecn_enabled x = True" "rcv_nxt x = sg_seq seg + 1" "iss x = isn" "tcb_remote x = remote_of seg" "ws_ok x = True" "ts_enabled x = True"
      "sack_enabled x = True" "ts_recent x = ts" "rcv_wscale x = tcb_WS s" "local_mss x = sat_sub (tcb_mtu s) HDR_LEN"
      "tx_csum_offload x = tx_csum_offload s" "sent_segment x = sent_segment s" "ecn_flags ?fl False x = ?fl"
    by (simp_all add: x_def defs isn_def tcb_WS_def reset_fields [unfolded tcb_BUF_def] reset_fields
        count_segs_in_fields [unfolded tcb_BUF_def] tcb_BUF_def count_segs_in_fields
        sent_segment_def fun_eq_iff ecn_flags_def flag_defs)
  have "sendable ?fl x"
    using reset_room [OF ok] by (simp add: sendable_def flag_defs x_def defs)
  from emit_bare_works [OF x(2) this handshake_options_fit(1)]
  obtain p r where e: "emit_synack x = (Inr True, note_segment ?fl (rcv_nxt x) (snd (outbound_window (?fl AND FLAG_SYN \<noteq> 0) x))
        (count_segs_out (x\<lparr>tcb_tx_ring := r\<rparr>)))"
      and r: "tx_inv r" "tx_packets r = tx_packets (tcb_tx_ring x) @ [p]"
      and p: "parse_opts p (\<not> tx_csum_offload x) =
        Inr (sent_segment x (tcb_remote x) (iss x) (rcv_nxt x) (ecn_flags ?fl False x)
          (fst (outbound_window (?fl AND FLAG_SYN \<noteq> 0) x))
          \<lparr>op_mss = Some (local_mss x), op_wscale = Some (rcv_wscale x), op_ts = Some (ts_val x, ts_recent x),
           op_sack_permitted = True, op_sack = sack_empty\<rparr> [] ECN_NOT_ECT)"
    unfolding emit_synack_def ecn if_True by blast
  define s1 where "s1 = synack_out (note_segment ?fl (rcv_nxt x) (snd (outbound_window (?fl AND FLAG_SYN \<noteq> 0) x))
        (count_segs_out (x\<lparr>tcb_tx_ring := r\<rparr>)))"
  have "accept_syn_stateful seg ?s = bind_rs emit_synack (\<lambda>_. modify_rs synack_out) x"
    unfolding accept_syn_stateful_def Let_def x_def using has now by (simp only: simp_thms)
  then have "accept_syn_stateful seg ?s = (Inr (), s1)"
    unfolding bind_rs_def modify_rs_def s1_def using e by (simp only: prod.case sum.case)
  then have "inject_segment seg s = (Inr (), s1)"
    using has assms(2,4,5) by (simp add: dispatched dispatch_segment_def on_listen_def)
  moreover have "tx_packets (tcb_tx_ring s1) = [p]"
    using r(2) by (simp add: s1_def x_def synack_out_def arm_rto_def count_segs_out_def note_segment_def defs
        reset_fields)
  moreover have "unused s1"
    using x r(1) by (simp add: s1_def unused_def stores_ok_def synack_out_def arm_rto_def count_segs_out_def note_segment_def Let_def)
  moreover have "tcb_state s1 = SynRcvd"
    by (simp add: s1_def x_def synack_out_def arm_rto_def count_segs_out_def note_segment_def Let_def half_open_def)
  moreover have "settled_view s1 = ((isn, isn + 1, sg_seq seg, sg_seq seg + 1), (tcb_local s, remote_of seg),
        (tcb_mtu s, sat_sub (tcb_mtu s) HDR_LEN, max m MIN_PEER_MSS), (tcb_BUF s, min ws 14, tcb_WS s),
        [True, True, True, True, is_listener s, tx_csum_offload s, egress_paused s])"
    by (simp add: s1_def x_def settled_view_def synack_out_def arm_rto_def count_segs_out_def note_segment_def defs
        isn_def tcb_WS_def reset_fields reset_fields [unfolded tcb_BUF_def] tcb_BUF_def count_segs_in_fields
        count_segs_in_fields [unfolded tcb_BUF_def])
  ultimately show ?thesis using p unfolding ecn by blast
qed

section \<open>The client's acknowledgement\<close>

definition synack_seg :: "segment \<Rightarrow> u16 \<Rightarrow> u8 \<Rightarrow> u32 \<times> u32 \<Rightarrow> bool" where
  "synack_seg seg m ws ts \<longleftrightarrow>
     sg_flags seg = FLAG_SYN OR FLAG_ACK OR FLAG_ECE
     \<and> sg_options seg = \<lparr>op_mss = Some m, op_wscale = Some ws, op_ts = Some ts,
          op_sack_permitted = True, op_sack = sack_empty\<rparr>"

definition connected :: "segment \<Rightarrow> tcb \<Rightarrow> tcb" where
  "connected seg t = now_established (handshake_rtt_sample seg (syn_acked seg
     ((absorb_syn_options seg t)\<lparr>ecn_enabled := True\<rparr>)))"

lemma establish_keeps:
  "settled_view (handshake_rtt_sample seg t) = settled_view t" "unused (handshake_rtt_sample seg t) = unused t"
  "tcb_tx_ring (handshake_rtt_sample seg t) = tcb_tx_ring t" "ts_recent (handshake_rtt_sample seg t) = ts_recent t"
  "settled_view (syn_acked seg t) = settled_view t" "unused (syn_acked seg t) = unused t"
  "tcb_tx_ring (syn_acked seg t) = tcb_tx_ring t" "ts_recent (syn_acked seg t) = ts_recent t"
  "settled_view (now_established t) = settled_view t" "unused (now_established t) = unused t"
  "tcb_tx_ring (now_established t) = tcb_tx_ring t" "ts_recent (now_established t) = ts_recent t"
  "tcb_state (now_established t) = Established"
  "snd_una (handshake_rtt_sample seg t) = snd_una t" "snd_acked (handshake_rtt_sample seg t) = snd_acked t"
  "snd_una (now_established t) = snd_una t" "snd_acked (now_established t) = snd_acked t"
  by (simp_all add: settled_view_def unused_def stores_ok_def tcb_BUF_def handshake_rtt_sample_def take_rtt_sample_def
      update_rtt_def syn_acked_def now_established_def on_established_def on_peer_alive_def Let_def
      split: option.split)

lemma seq_next: "seq_gt (x + 1) x" "\<not> seq_gt x x" "seq_le x x" "\<not> seq_lt x x"
  by (simp_all add: seq_gt_def seq_le_def seq_lt_def)

lemma pure_ack_works:
  assumes "unused t" and "\<not> egress_paused t" and "tx_packets (tcb_tx_ring t) = []"
  shows "\<exists>p r w. send_pure_ack t = (Inr (), ack_sent (note_segment FLAG_ACK (rcv_nxt t)
        (snd (outbound_window False t)) (count_segs_out (t\<lparr>tcb_tx_ring := r\<rparr>))))
    \<and> tx_inv r \<and> tx_packets r = [p]
    \<and> parse_opts p (\<not> tx_csum_offload t) =
        Inr (sent_segment t (tcb_remote t) (snd_nxt t) (rcv_nxt t) FLAG_ACK w (ts_options t) [] ECN_NOT_ECT)"
proof -
  have ok: "stores_ok t" using assms(1) by (simp add: unused_def)
  then have room: "\<not> tx_is_full (tcb_tx_ring t)" using tx_room assms(3) by (simp add: stores_ok_def)
  have o: "segment_options 0 t = (ts_options t, t)"
    using assms(1) by (simp add: segment_options_def sack_room_def unused_def)
  have fit: "options_fit (ts_options t) 0"
    by (simp add: options_fit_def encoded_len_ts MAX_PACKET_def)
      (simp add: ts_options_def options_none_def sack_ok_def sack_empty_def)
  have "sendable FLAG_ACK t" using room assms(2) by (simp add: sendable_def)
  from emit_bare_works [OF ok this fit, of "snd_nxt t" "rcv_nxt t"]
  obtain p r where e: "emit_segment FLAG_ACK (snd_nxt t) (rcv_nxt t) (ts_options t) NO_PAYLOAD False t =
      (Inr True, note_segment FLAG_ACK (rcv_nxt t) (snd (outbound_window (FLAG_ACK AND FLAG_SYN \<noteq> 0) t))
        (count_segs_out (t\<lparr>tcb_tx_ring := r\<rparr>)))"
    "tx_inv r" "tx_packets r = tx_packets (tcb_tx_ring t) @ [p]"
    "parse_opts p (\<not> tx_csum_offload t) =
        Inr (sent_segment t (tcb_remote t) (snd_nxt t) (rcv_nxt t) (ecn_flags FLAG_ACK False t)
          (fst (outbound_window (FLAG_ACK AND FLAG_SYN \<noteq> 0) t)) (ts_options t) [] ECN_NOT_ECT)"
    by blast
  have f: "ecn_flags FLAG_ACK False t = FLAG_ACK" "FLAG_ACK AND FLAG_SYN = 0"
    using assms(1) by (simp_all add: ecn_flags_def unused_def flag_defs)
  have "send_pure_ack t = (Inr (), ack_sent (note_segment FLAG_ACK (rcv_nxt t)
        (snd (outbound_window False t)) (count_segs_out (t\<lparr>tcb_tx_ring := r\<rparr>))))"
    using assms(2) room o e(1) f(2) by (simp add: send_pure_ack_def egress_full_def bind_rs_def)
  with e(2) e(3,4) [unfolded f(1) assms(3) append_Nil] show ?thesis by blast
qed

lemma client_ack:
  assumes "unused c" and "tcb_state c = SynSent" and "snd_nxt c = iss c + 1" and "\<not> egress_paused c"
    and "tx_packets (tcb_tx_ring c) = []"
    and "synack_seg seg m ws ts" and "sg_ack seg = iss c + 1" and "remote_of seg = tcb_remote c"
    and "sg_dst_ip seg = ep_ip (tcb_local c)" and "sg_dst_port seg = ep_port (tcb_local c)"
  shows "\<exists>p c1 w ts'. inject_segment seg c = (Inr (), c1) \<and> tx_packets (tcb_tx_ring c1) = [p] \<and> unused c1
    \<and> tcb_state c1 = Established
    \<and> settled_view c1 = ((iss c, iss c + 1, sg_seq seg, sg_seq seg + 1), (tcb_local c, tcb_remote c),
        (tcb_mtu c, local_mss c, max m MIN_PEER_MSS), (tcb_BUF c, min ws 14, tcb_WS c),
        [True, True, True, True, is_listener c, tx_csum_offload c, False])
    \<and> parse_opts p (\<not> tx_csum_offload c) =
        Inr (sent_segment c (tcb_remote c) (iss c + 1) (sg_seq seg + 1) FLAG_ACK w
          (options_none\<lparr>op_ts := Some (ts', fst ts)\<rparr>) [] ECN_NOT_ECT)"
proof -
  let ?c = "count_segs_in c"
  define y where "y = connected seg ?c"
  have has: "seg_has seg FLAG_SYN" "seg_has seg FLAG_ECE" "\<not> seg_has seg FLAG_CWR"
      "\<not> seg_has seg FLAG_RST" "seg_has seg FLAG_ACK"
    using assms(6) by (simp_all add: synack_seg_def seg_has_def flag_defs)
  have opts: "op_mss (sg_options seg) = Some m" "op_wscale (sg_options seg) = Some ws"
      "op_ts (sg_options seg) = Some ts" "op_sack_permitted (sg_options seg)"
    using assms(6) by (simp_all add: synack_seg_def)
  have iss: "iss ?c = iss c" "snd_nxt ?c = iss c + 1" using assms(3) by (simp_all add: count_segs_in_def)
  have ack_ok: "seq_gt (sg_ack seg) (iss ?c) \<and> seq_le (sg_ack seg) (snd_nxt ?c)"
    unfolding iss assms(7) by (simp add: seq_next)
  define z where "z = (absorb_syn_options seg ?c)\<lparr>ecn_enabled := True\<rparr>"
  have y: "settled_view y = settled_view z" "unused y = unused z" "tcb_tx_ring y = tcb_tx_ring z"
      "ts_recent y = ts_recent z" "tcb_state y = Established"
    by (simp_all add: y_def connected_def z_def establish_keeps)
  have z: "settled_view z = ((iss c, iss c + 1, sg_seq seg, sg_seq seg + 1), (tcb_local c, tcb_remote c),
        (tcb_mtu c, local_mss c, max m MIN_PEER_MSS), (tcb_BUF c, min ws 14, tcb_WS c),
        [True, True, True, True, is_listener c, tx_csum_offload c, False])"
      "unused z" "tcb_tx_ring z = tcb_tx_ring c" "ts_recent z = fst ts"
    using assms(1,3,4)
    by (simp_all add: z_def settled_view_def unused_def stores_ok_def absorb_syn_options_def absorb_ws_def
        absorb_ts_def count_segs_in_def Let_def opts case_prod_beta tcb_BUF_def tcb_WS_def)
  have v: "settled_view y = ((iss c, iss c + 1, sg_seq seg, sg_seq seg + 1), (tcb_local c, tcb_remote c),
        (tcb_mtu c, local_mss c, max m MIN_PEER_MSS), (tcb_BUF c, min ws 14, tcb_WS c),
        [True, True, True, True, is_listener c, tx_csum_offload c, False])"
    using y(1) z(1) by (rule trans)
  have idle: "unused y" "\<not> egress_paused y" "tx_packets (tcb_tx_ring y) = []"
    using y(2,3) z(2,3) v assms(5) by (simp_all add: settled_view_def)
  have f: "snd_nxt y = iss c + 1" "rcv_nxt y = sg_seq seg + 1" "tcb_remote y = tcb_remote c"
      "tx_csum_offload y = tx_csum_offload c" "sent_segment y = sent_segment c"
      "ts_options y = options_none\<lparr>op_ts := Some (ts_val y, fst ts)\<rparr>"
    using v y(4) z(4) by (simp_all add: settled_view_def ts_options_def sent_segment_def fun_eq_iff)
  obtain p r w where e: "send_pure_ack y = (Inr (), ack_sent (note_segment FLAG_ACK (rcv_nxt y)
        (snd (outbound_window False y)) (count_segs_out (y\<lparr>tcb_tx_ring := r\<rparr>))))"
    and r: "tx_inv r" "tx_packets r = [p]"
    and p: "parse_opts p (\<not> tx_csum_offload y) =
        Inr (sent_segment y (tcb_remote y) (snd_nxt y) (rcv_nxt y) FLAG_ACK w (ts_options y) [] ECN_NOT_ECT)"
    using pure_ack_works [OF idle] by blast
  define c1 where "c1 = ack_sent (note_segment FLAG_ACK (rcv_nxt y)
        (snd (outbound_window False y)) (count_segs_out (y\<lparr>tcb_tx_ring := r\<rparr>)))"
  have "complete_active_open seg ?c = send_pure_ack y"
    unfolding complete_active_open_def Let_def y_def connected_def using has by (simp only: simp_thms)
  then have "inject_segment seg c = (Inr (), c1)"
    using e has ack_ok assms(2,8,9,10) by (simp add: c1_def dispatched dispatch_segment_def on_syn_sent_def)
  moreover have "tx_packets (tcb_tx_ring c1) = [p]"
    using r(2) by (simp add: c1_def ack_sent_def note_segment_def count_segs_out_def Let_def)
  moreover have "unused c1"
    using idle(1) r(1) by (simp add: c1_def unused_def stores_ok_def ack_sent_def note_segment_def count_segs_out_def Let_def)
  moreover have "tcb_state c1 = Established"
    using y(5) by (simp add: c1_def ack_sent_def note_segment_def count_segs_out_def Let_def)
  moreover have "settled_view c1 = ((iss c, iss c + 1, sg_seq seg, sg_seq seg + 1), (tcb_local c, tcb_remote c),
        (tcb_mtu c, local_mss c, max m MIN_PEER_MSS), (tcb_BUF c, min ws 14, tcb_WS c),
        [True, True, True, True, is_listener c, tx_csum_offload c, False])"
    using v by (simp add: c1_def settled_view_def ack_sent_def note_segment_def count_segs_out_def Let_def tcb_BUF_def)
  ultimately show ?thesis using p unfolding f by blast
qed

section \<open>The server establishes\<close>

text \<open>An established connection with nothing to send: acknowledgement processing keeps it so, whatever
  the acknowledgement says.\<close>

definition idle where
  "idle v t \<longleftrightarrow> settled_view t = v \<and> tcb_state t = Established \<and> \<not> fin_sent t \<and> ooo_fin t = None
     \<and> rb_len (send_ring t) = 0 \<and> rq_len (tcb_rtx t) = 0"

lemma empty_queue_kept:
  assumes "rq_len q = 0"
  shows "rq_len (snd (snd (rq_sack l r q))) = 0" "rq_len (snd (snd (rq_ack_to a q))) = 0"
    and "rq_len (rq_mark_lost i q) = 0" "rq_len (rq_unmark_lost q) = 0"
    and "rq_len (snd (detect_loss k now w q)) = 0" "rq_next_lost q = (None, q\<lparr>rq_lost_hint := 0\<rparr>)"
proof -
  have g: "rq_get q i = None" for i using assms by (simp add: rq_get_def)
  show "rq_len (snd (snd (rq_sack l r q))) = 0" using assms by (simp add: rq_sack_def rq_is_empty_def)
  show "rq_len (snd (snd (rq_ack_to a q))) = 0"
    using assms by (simp add: rq_ack_to_def ack_to_loop.simps [of a 0 "[]" q] g)
  show "rq_len (rq_mark_lost i q) = 0" "rq_len (rq_unmark_lost q) = 0"
    using assms by (simp_all add: rq_mark_lost_def g rq_unmark_lost_def)
  show "rq_len (snd (detect_loss k now w q)) = 0"
    using assms by (simp add: detect_loss_def Let_def detect_scan.simps [of k now _ 0 False 0 q] g)
  show "rq_next_lost q = (None, q\<lparr>rq_lost_hint := 0\<rparr>)"
    using assms by (simp add: rq_next_lost_def next_lost_from.simps [of q] g)
qed

interpretation idle: ack_kept "idle v" for v
  by unfold_locales
    (auto simp: idle_def settled_view_def tcb_BUF_def ack_step_defs arm_rto_def maybe_arm_tlp_def
       ack_fin_stage_def empty_queue_kept ring_consume_def Let_def case_prod_beta split: step_splits)

lemma idle_sends_nothing:
  assumes "idle v t"
  shows "fst (maybe_send_data t) = Inr ()" "idle v (snd (maybe_send_data t))"
proof -
  have u: "unsent_bytes t = 0" using assms by (simp add: unsent_bytes_def idle_def sat_sub_def Let_def)
  let ?t = "t\<lparr>tcb_rtx := (tcb_rtx t)\<lparr>rq_lost_hint := 0\<rparr>\<rparr>"
  have "send_one t = (Inr False, ?t)"
    using assms u
    by (simp add: send_one_def idle_def empty_queue_kept(6) send_new_def Let_def fin_owed_def unsent_bytes_def
        data_una_def syn_outstanding_def)
  then have loop: "send_loop k t = (Inr (), t) \<or> send_loop k t = (Inr (), ?t)" for k
    by (cases k) (simp_all add: bind_rs_def ret_rs_def)
  have "idle v ?t" using assms by (simp add: idle_def settled_view_def tcb_BUF_def)
  moreover have "idle v u \<Longrightarrow> idle v (update_persist u)" for u
    by (simp add: update_persist_def idle_def settled_view_def tcb_BUF_def Let_def)
  ultimately show "fst (maybe_send_data t) = Inr ()" "idle v (snd (maybe_send_data t))"
    using assms loop [of "unat (of_nat (tcb_TXQ t) + 2 :: u32)"]
    by (auto simp: maybe_send_data_def bind_rs_def)
qed

definition bare_ack :: "segment \<Rightarrow> bool" where
  "bare_ack seg \<longleftrightarrow> sg_flags seg = FLAG_ACK \<and> sg_payload seg = []"

lemma bare_ack_flags:
  assumes "bare_ack seg"
  shows "seg_has seg FLAG_ACK" "\<not> seg_has seg FLAG_SYN" "\<not> seg_has seg FLAG_RST" "\<not> seg_has seg FLAG_FIN"
    "sg_payload seg = []"
  using assms by (simp_all add: bare_ack_def seg_has_def flag_defs)

lemma idle_takes_bare_ack:
  assumes "idle v t" and "bare_ack seg" and "acceptable (sg_seq seg) 0 t" and "ack_acceptable (sg_ack seg) t"
  shows "\<exists>u. on_synchronized seg t = (Inr (), u) \<and> idle v u"
proof -
  note has = bare_ack_flags [OF assms(2)]
  let ?t = "process_ack seg (on_peer_alive (update_ce seg 0 (update_ts_recent seg t)))"
  have "idle v (on_peer_alive (update_ce seg 0 (update_ts_recent seg t)))"
    using assms(1) by (auto simp: idle_def settled_view_def tcb_BUF_def on_peer_alive_def update_ce_def
        update_ts_recent_def Let_def split: option.split)
  then have i: "idle v ?t" using ack_in_flight [OF assms(4)] by (intro idle.process_ack_kept)
  have "on_synchronized seg t = on_acceptable_ack seg 0 False False t"
    using has assms(3,4) by (simp add: on_synchronized_def paws_reject_def Let_def u32_of_bool_def)
  also have "\<dots> = maybe_send_data ?t"
    using i by (simp add: on_acceptable_ack_def Let_def idle_def accept_text_def receive_text_and_fin_def
        maybe_consume_ooo_fin_def can_recv_def then_rs_def bind_rs_def ret_rs_def)
  finally show ?thesis using idle_sends_nothing [OF i] by (metis prod.collapse)
qed

lemma empty_ring_window:
  assumes "ring_inv r" and "rb_len r = 0"
  shows "of_nat (ring_free r) + 1 \<noteq> (0 :: u32)"
proof -
  obtain k where k: "ring_capacity r = 2 ^ k" using assms(1) is_pow2D by (auto simp: ring_inv_def)
  have "\<not> (4294967296 :: nat) dvd 2 ^ k + 1"
  proof (cases k)
    case (Suc j)
    have "odd (2 ^ k + 1 :: nat)" using Suc by simp
    moreover have "(2 :: nat) dvd 4294967296" by simp
    ultimately show ?thesis using dvd_trans by blast
  qed (auto dest: dvd_imp_le)
  then have "of_nat (2 ^ k + 1) \<noteq> (0 :: u32)" by (subst word_of_nat_eq_0_iff) simp
  then show ?thesis using k assms(2) by (simp add: ring_free_def add.commute)
qed

lemma server_establishes:
  assumes "unused s" and "tcb_state s = SynRcvd" and "snd_nxt s = iss s + 1"
    and "bare_ack seg" and "sg_seq seg = rcv_nxt s" and "sg_ack seg = iss s + 1" and "remote_of seg = tcb_remote s"
    and "sg_dst_ip seg = ep_ip (tcb_local s)" and "sg_dst_port seg = ep_port (tcb_local s)"
  shows "\<exists>s1. inject_segment seg s = (Inr (), s1) \<and> tcb_state s1 = Established \<and> settled_view s1 = settled_view s"
proof -
  note has = bare_ack_flags [OF assms(4)]
  let ?s = "count_segs_in s"
  define x where "x = now_established ((handshake_rtt_sample seg (third_ack_window seg (syn_acked seg ?s)))\<lparr>syn_rcvd_retries := 0\<rparr>)"
  have "unused ?s" "settled_view ?s = settled_view s"
    using assms(1) by (simp_all add: unused_def stores_ok_def settled_view_def tcb_BUF_def count_segs_in_def)
  then have v: "settled_view (third_ack_window seg (syn_acked seg ?s)) = settled_view s"
      "unused (third_ack_window seg (syn_acked seg ?s))"
    by (simp_all add: third_ack_window_def settled_view_def unused_def stores_ok_def tcb_BUF_def syn_acked_def Let_def)
  have same: "settled_view (t\<lparr>syn_rcvd_retries := 0\<rparr>) = settled_view t" "unused (t\<lparr>syn_rcvd_retries := 0\<rparr>) = unused t" for t
    by (simp_all add: settled_view_def unused_def stores_ok_def tcb_BUF_def)
  have x: "settled_view x = settled_view s" "unused x" "tcb_state x = Established"
    using v by (simp_all add: x_def establish_keeps same)
  then have i: "idle (settled_view s) x" by (simp add: idle_def unused_def)
  have acc: "acceptable (sg_seq seg) 0 t" if "unused t" "rcv_nxt t = sg_seq seg" for t
    using that empty_ring_window [of "recv_ring t"]
    by (auto simp: acceptable_def unused_def stores_ok_def seq_in_range_def Let_def word_neq_0_conv add.assoc)
  have "acceptable (sg_seq seg) 0 ?s"
    using \<open>unused ?s\<close> assms(5) by (intro acc) (simp_all add: count_segs_in_def)
  moreover have "acceptable (sg_seq seg) 0 x"
    using x assms(5) by (intro acc) (simp_all add: settled_view_def)
  moreover have "ack_acceptable (sg_ack seg) x"
  proof -
    have a: "snd_una x = iss s + 1" "snd_acked x = 1"
      using assms(6) by (simp_all add: x_def establish_keeps third_ack_window_def syn_acked_def count_segs_in_def Let_def)
    have n: "snd_nxt x = iss s + 1" using x(1) assms(3) by (simp add: settled_view_def)
    have "\<not> seq_lt y (y - min 1 w)" for y w :: u32
      by (cases "w = 0") (auto simp: seq_lt_def min_def word_le_nat_alt simp flip: unat_pos_iff)
    with a n show ?thesis
      unfolding assms(6) by (simp add: ack_acceptable_def u32_try_from_def Let_def seq_next)
  qed
  ultimately obtain u where "on_synchronized seg x = (Inr (), u)" "idle (settled_view s) u"
    using idle_takes_bare_ack [OF i assms(4)] by blast
  moreover have "inject_segment seg s = on_synchronized seg x"
    using has assms(2,6-9) \<open>acceptable (sg_seq seg) 0 ?s\<close>
    by (simp add: dispatched dispatch_segment_def on_syn_rcvd_def complete_passive_open_def x_def Let_def u32_of_bool_def)
      (simp add: count_segs_in_def)
  ultimately show ?thesis by (auto simp: idle_def)
qed

section \<open>The three packets\<close>

lemma ws_shift_bound: "shift \<le> 14 \<Longrightarrow> ws_shift_from buf shift \<le> 14"
  by (induction buf shift rule: ws_shift_from.induct) (subst ws_shift_from.simps, simp)

lemma WS_bound: "tcb_WS t \<le> 14"
  using ws_shift_bound [of 0 "tcb_BUF t"]
  by (simp add: tcb_WS_def local_ws_shift_def word_le_nat_alt unat_of_nat_small)

lemma sends_off_view: "sends_off a b \<Longrightarrow> settled_view b = settled_view a \<and> tcb_state b = tcb_state a"
  by (auto simp: sends_off_def settled_view_def tcb_BUF_def)

lemma sends_off_unused: "sends_off a b \<Longrightarrow> unused a \<Longrightarrow> unused b"
  by (auto simp: sends_off_def unused_def stores_ok_def)

lemma ferry_one:
  assumes "unused a \<or> stores_ok a" and "length pkt = MAX_PACKET" and "tx_packets (tcb_tx_ring a) = [p]"
    and "\<not> tx_csum_offload a" and "parse_opts p (\<not> tx_csum_offload a) = Inr seg" and "inject_segment seg b = (r, u)"
  shows "\<exists>q a'. ferry pkt a b = Some (True, q, a', u) \<and> length q = MAX_PACKET
    \<and> tx_packets (tcb_tx_ring a') = [] \<and> sends_off a a'"
proof -
  have "stores_ok a" "MAX_PACKET \<le> length pkt" using assms(1,2) by (auto simp: unused_def)
  moreover have "inject_all [p] b = u"
    using assms(4-6) by (simp add: inject_all_def inject_packet_def parse_def)
  ultimately show ?thesis using ferry_delivers [of a pkt "[p]" b] assms(2,3) by auto
qed

text \<open>What the two ends look like while the SYN-ACK is in flight; the argument is the ISN of the server.\<close>

definition mss_of :: "tcb \<Rightarrow> u16" where
  "mss_of t = sat_sub (tcb_mtu t) HDR_LEN"

definition syn_sent_end where
  "syn_sent_end c t \<longleftrightarrow> unused t \<and> tcb_state t = SynSent
     \<and> settled_view t = ((cfg_iss c, cfg_iss c + 1, 0, 0), (tcb_local c, tcb_remote c),
        (tcb_mtu c, mss_of c, DEFAULT_PEER_MSS), (tcb_BUF c, 0, 0),
        [False, False, False, False, False, False, False])"

definition agree :: "tcb \<Rightarrow> tcb \<Rightarrow> bool" where
  "agree c s \<longleftrightarrow>
     snd_nxt c = rcv_nxt s \<and> snd_nxt s = rcv_nxt c \<and> iss c = irs s \<and> iss s = irs c
     \<and> tcb_remote c = tcb_local s \<and> tcb_remote s = tcb_local c
     \<and> snd_wscale c = rcv_wscale s \<and> snd_wscale s = rcv_wscale c
     \<and> peer_mss c = local_mss s \<and> peer_mss s = local_mss c
     \<and> ts_enabled c \<and> ts_enabled s \<and> sack_enabled c \<and> sack_enabled s \<and> ecn_enabled c \<and> ecn_enabled s"

lemma peer_mss_of: "sizes_ok t \<Longrightarrow> max (mss_of t) MIN_PEER_MSS = mss_of t"
  by (auto simp: mss_of_def sizes_ok_def MIN_PEER_MSS_def HDR_LEN_def sat_sub_def word_le_nat_alt unat_sub max_def)

lemma scale_of: "min (min (tcb_WS t) 14) 14 = tcb_WS t" "min (tcb_WS t) 14 = tcb_WS t"
  using WS_bound [of t] by (simp_all add: min_def)

lemma handshake_norm:
  "options_norm \<lparr>op_mss = m, op_wscale = Some (tcb_WS t), op_ts = ts, op_sack_permitted = sp, op_sack = sack_empty\<rparr>
    = \<lparr>op_mss = m, op_wscale = Some (tcb_WS t), op_ts = ts, op_sack_permitted = sp, op_sack = sack_empty\<rparr>"
  by (simp add: options_norm_def sack_norm_empty sack_is_empty_def sack_empty_def scale_of)

text \<open>The SYN goes over and is answered.\<close>

lemma syn_exchange:
  assumes ok: "stores_ok c" "stores_ok s" and st: "tcb_state c = Closed" "tcb_state s = Listen"
    and rem: "tcb_remote c = tcb_local s" and par: "\<not> egress_paused c" "\<not> tx_csum_offload c" "\<not> tx_csum_offload s"
    and pkt: "length pkt = MAX_PACKET" and size: "sizes_ok c"
  shows "\<exists>q c1 s1 isn p w ts. ferry pkt (snd (tcb_connect c)) s = Some (True, q, c1, s1) \<and> length q = MAX_PACKET
    \<and> syn_sent_end c c1 \<and> tx_packets (tcb_tx_ring c1) = []
    \<and> unused s1 \<and> tcb_state s1 = SynRcvd
    \<and> settled_view s1 = ((isn, isn + 1, cfg_iss c, cfg_iss c + 1), (tcb_local s, tcb_local c),
        (tcb_mtu s, mss_of s, mss_of c), (tcb_BUF s, tcb_WS c, tcb_WS s),
        [True, True, True, True, is_listener s, False, egress_paused s])
    \<and> tx_packets (tcb_tx_ring s1) = [p]
    \<and> parse_opts p True = Inr (sent_segment s (tcb_local c) isn (cfg_iss c + 1) (FLAG_SYN OR FLAG_ACK OR FLAG_ECE) w
          \<lparr>op_mss = Some (mss_of s), op_wscale = Some (tcb_WS s), op_ts = Some ts,
           op_sack_permitted = True, op_sack = sack_empty\<rparr> [] ECN_NOT_ECT)"
proof -
  obtain p c0 w ts where c0: "tcb_connect c = (Inr (), c0)" "tx_packets (tcb_tx_ring c0) = [p]" "unused c0"
      "tcb_state c0 = SynSent"
    and vc: "settled_view c0 = ((cfg_iss c, cfg_iss c + 1, 0, 0), (tcb_local c, tcb_remote c),
        (tcb_mtu c, mss_of c, DEFAULT_PEER_MSS), (tcb_BUF c, 0, 0),
        [False, False, False, False, False, tx_csum_offload c, egress_paused c])"
    and p: "parse_opts p (\<not> tx_csum_offload c) =
        Inr (sent_segment c (tcb_remote c) (cfg_iss c) 0 (FLAG_SYN OR FLAG_ECE OR FLAG_CWR) w
          \<lparr>op_mss = Some (mss_of c), op_wscale = Some (tcb_WS c),
           op_ts = Some (ts, 0), op_sack_permitted = True, op_sack = sack_empty\<rparr> [] ECN_NOT_ECT)"
    using client_syn [OF ok(1) st(1)] unfolding mss_of_def by blast
  define seg where "seg = sent_segment c (tcb_remote c) (cfg_iss c) 0 (FLAG_SYN OR FLAG_ECE OR FLAG_CWR) w
          \<lparr>op_mss = Some (mss_of c), op_wscale = Some (tcb_WS c),
           op_ts = Some (ts, 0), op_sack_permitted = True, op_sack = sack_empty\<rparr> [] ECN_NOT_ECT"
  have sg: "syn_seg seg (mss_of c) (tcb_WS c) ts" "sg_dst_ip seg = ep_ip (tcb_local s)"
      "sg_dst_port seg = ep_port (tcb_local s)" "sg_seq seg = cfg_iss c" "remote_of seg = tcb_local c"
    using rem by (simp_all add: seg_def syn_seg_def sent_segment_def handshake_norm remote_of_def)
  obtain p2 s1 w2 ts2 isn where s1: "inject_segment seg s = (Inr (), s1)" "tx_packets (tcb_tx_ring s1) = [p2]"
      "unused s1" "tcb_state s1 = SynRcvd"
    and vs: "settled_view s1 = ((isn, isn + 1, cfg_iss c, cfg_iss c + 1), (tcb_local s, tcb_local c),
        (tcb_mtu s, mss_of s, mss_of c), (tcb_BUF s, tcb_WS c, tcb_WS s),
        [True, True, True, True, is_listener s, tx_csum_offload s, egress_paused s])"
    and p2: "parse_opts p2 (\<not> tx_csum_offload s) =
        Inr (sent_segment s (tcb_local c) isn (cfg_iss c + 1) (FLAG_SYN OR FLAG_ACK OR FLAG_ECE) w2
          \<lparr>op_mss = Some (mss_of s), op_wscale = Some (tcb_WS s),
           op_ts = Some (ts2, ts), op_sack_permitted = True, op_sack = sack_empty\<rparr> [] ECN_NOT_ECT)"
    using server_synack [OF ok(2) st(2) sg(1-3)] unfolding sg(4,5) scale_of peer_mss_of [OF size] mss_of_def [symmetric]
    by blast
  have off: "tx_csum_offload c0 = tx_csum_offload c" using vc by (simp add: settled_view_def)
  obtain q c1 where c1: "ferry pkt c0 s = Some (True, q, c1, s1)" "length q = MAX_PACKET"
      "tx_packets (tcb_tx_ring c1) = []" "sends_off c0 c1"
    using ferry_one [of c0 pkt p seg s "Inr ()" s1] c0 pkt par(2) p s1(1) off unfolding seg_def by auto
  have "syn_sent_end c c1"
    using sends_off_unused [OF c1(4) c0(3)] sends_off_view [OF c1(4)] vc c0(4) par by (simp add: syn_sent_end_def)
  then show ?thesis using c1 s1 vs p2 par c0(1) by (simp add: c0(1)) blast
qed

text \<open>The SYN-ACK goes back and is acknowledged.\<close>

lemma synack_exchange:
  assumes c1: "syn_sent_end c c1" "tx_packets (tcb_tx_ring c1) = []" and s1: "unused s1"
    and par: "\<not> tx_csum_offload s1" and pkt: "length q = MAX_PACKET" and size: "sizes_ok s"
    and rem: "tcb_remote c = tcb_local s"
    and p: "tx_packets (tcb_tx_ring s1) = [p]"
      "parse_opts p True = Inr (sent_segment s (tcb_local c) isn (cfg_iss c + 1) (FLAG_SYN OR FLAG_ACK OR FLAG_ECE) w
          \<lparr>op_mss = Some (mss_of s), op_wscale = Some (tcb_WS s), op_ts = Some ts,
           op_sack_permitted = True, op_sack = sack_empty\<rparr> [] ECN_NOT_ECT)"
  shows "\<exists>q' s2 c2 p' w' ts'. ferry q s1 c1 = Some (True, q', s2, c2) \<and> length q' = MAX_PACKET \<and> sends_off s1 s2
    \<and> unused c2 \<and> tcb_state c2 = Established
    \<and> settled_view c2 = ((cfg_iss c, cfg_iss c + 1, isn, isn + 1), (tcb_local c, tcb_local s),
        (tcb_mtu c, mss_of c, mss_of s), (tcb_BUF c, tcb_WS s, tcb_WS c),
        [True, True, True, True, False, False, False])
    \<and> tx_packets (tcb_tx_ring c2) = [p']
    \<and> parse_opts p' True = Inr (sent_segment c (tcb_local s) (cfg_iss c + 1) (isn + 1) FLAG_ACK w'
          (options_none\<lparr>op_ts := Some (ts', fst ts)\<rparr>) [] ECN_NOT_ECT)"
proof -
  define seg where "seg = sent_segment s (tcb_local c) isn (cfg_iss c + 1) (FLAG_SYN OR FLAG_ACK OR FLAG_ECE) w
          \<lparr>op_mss = Some (mss_of s), op_wscale = Some (tcb_WS s), op_ts = Some ts,
           op_sack_permitted = True, op_sack = sack_empty\<rparr> [] ECN_NOT_ECT"
  have v: "iss c1 = cfg_iss c" "snd_nxt c1 = iss c1 + 1" "\<not> egress_paused c1" "unused c1" "tcb_state c1 = SynSent"
      "tcb_local c1 = tcb_local c" "tcb_remote c1 = tcb_local s" "local_mss c1 = mss_of c" "tcb_mtu c1 = tcb_mtu c"
      "tcb_BUF c1 = tcb_BUF c" "is_listener c1 = False" "tx_csum_offload c1 = False" "tcb_WS c1 = tcb_WS c"
      "sent_segment c1 = sent_segment c"
    using c1(1) rem by (simp_all add: syn_sent_end_def settled_view_def tcb_WS_def sent_segment_def fun_eq_iff)
  have sg: "synack_seg seg (mss_of s) (tcb_WS s) ts" "sg_ack seg = iss c1 + 1" "remote_of seg = tcb_remote c1"
      "sg_dst_ip seg = ep_ip (tcb_local c1)" "sg_dst_port seg = ep_port (tcb_local c1)" "sg_seq seg = isn"
    using v by (simp_all add: seg_def synack_seg_def sent_segment_def handshake_norm remote_of_def)
  obtain p' c2 w' ts' where c2: "inject_segment seg c1 = (Inr (), c2)" "tx_packets (tcb_tx_ring c2) = [p']" "unused c2"
      "tcb_state c2 = Established"
      "settled_view c2 = ((cfg_iss c, cfg_iss c + 1, isn, isn + 1), (tcb_local c, tcb_local s),
        (tcb_mtu c, mss_of c, mss_of s), (tcb_BUF c, tcb_WS s, tcb_WS c),
        [True, True, True, True, False, False, False])"
      "parse_opts p' (\<not> False) = Inr (sent_segment c (tcb_local s) (cfg_iss c + 1) (isn + 1) FLAG_ACK w'
          (options_none\<lparr>op_ts := Some (ts', fst ts)\<rparr>) [] ECN_NOT_ECT)"
    using client_ack [OF v(4,5,2,3) c1(2) sg(1-5)]
    unfolding v sg(6) scale_of peer_mss_of [OF size] by blast
  obtain q' s2 where "ferry q s1 c1 = Some (True, q', s2, c2)" "length q' = MAX_PACKET" "sends_off s1 s2"
    using ferry_one [of s1 q p seg c1 "Inr ()" c2] s1 pkt par p c2(1) unfolding seg_def by auto
  then show ?thesis using c2 by (simp only: simp_thms) blast
qed

lemma handshake:
  assumes "reachable c" and "reachable s" and "tcb_state c = Closed" and "tcb_state s = Listen"
    and "tcb_remote c = tcb_local s" and "\<not> egress_paused c"
    and "\<not> tx_csum_offload c" and "\<not> tx_csum_offload s" and "length pkt = MAX_PACKET"
  shows "\<exists>q1 c1 s1 q2 c2 s2 q3 c3 s3.
      ferry pkt (snd (tcb_connect c)) s = Some (True, q1, c1, s1)
    \<and> ferry q1 s1 c1 = Some (True, q2, s2, c2)
    \<and> ferry q2 c2 s2 = Some (True, q3, c3, s3)
    \<and> tcb_state c3 = Established \<and> tcb_state s3 = Established \<and> agree c3 s3
    \<and> unused c3 \<and> tx_packets (tcb_tx_ring c3) = [] \<and> \<not> egress_paused c3 \<and> tcb_BUF c3 = tcb_BUF c \<and> \<not> tx_csum_offload c3"
proof -
  have ok: "stores_ok c" "stores_ok s" "sizes_ok c" "sizes_ok s"
    using assms(1,2) by (simp_all add: stores.reachable_kept sizes.reachable_kept)
  obtain q1 c1 s1 isn p w ts where 1: "ferry pkt (snd (tcb_connect c)) s = Some (True, q1, c1, s1)" "length q1 = MAX_PACKET"
      "syn_sent_end c c1" "tx_packets (tcb_tx_ring c1) = []" "unused s1" "tcb_state s1 = SynRcvd"
      "settled_view s1 = ((isn, isn + 1, cfg_iss c, cfg_iss c + 1), (tcb_local s, tcb_local c),
        (tcb_mtu s, mss_of s, mss_of c), (tcb_BUF s, tcb_WS c, tcb_WS s),
        [True, True, True, True, is_listener s, False, egress_paused s])"
      "tx_packets (tcb_tx_ring s1) = [p]"
      "parse_opts p True = Inr (sent_segment s (tcb_local c) isn (cfg_iss c + 1) (FLAG_SYN OR FLAG_ACK OR FLAG_ECE) w
          \<lparr>op_mss = Some (mss_of s), op_wscale = Some (tcb_WS s), op_ts = Some ts,
           op_sack_permitted = True, op_sack = sack_empty\<rparr> [] ECN_NOT_ECT)"
    using syn_exchange [OF ok(1,2) assms(3-9) ok(3)] by blast
  have off: "\<not> tx_csum_offload s1" using 1(7) by (simp add: settled_view_def)
  obtain q2 s2 c2 p' w' ts' where 2: "ferry q1 s1 c1 = Some (True, q2, s2, c2)" "length q2 = MAX_PACKET" "sends_off s1 s2"
      "unused c2" "tcb_state c2 = Established"
      "settled_view c2 = ((cfg_iss c, cfg_iss c + 1, isn, isn + 1), (tcb_local c, tcb_local s),
        (tcb_mtu c, mss_of c, mss_of s), (tcb_BUF c, tcb_WS s, tcb_WS c),
        [True, True, True, True, False, False, False])"
      "tx_packets (tcb_tx_ring c2) = [p']"
      "parse_opts p' True = Inr (sent_segment c (tcb_local s) (cfg_iss c + 1) (isn + 1) FLAG_ACK w'
          (options_none\<lparr>op_ts := Some (ts', fst ts)\<rparr>) [] ECN_NOT_ECT)"
    using synack_exchange [OF 1(3,4,5) off 1(2) ok(4) assms(5) 1(8,9)] by blast
  define seg where "seg = sent_segment c (tcb_local s) (cfg_iss c + 1) (isn + 1) FLAG_ACK w'
          (options_none\<lparr>op_ts := Some (ts', fst ts)\<rparr>) [] ECN_NOT_ECT"
  have v: "unused s2" "tcb_state s2 = SynRcvd" "settled_view s2 = settled_view s1"
    using sends_off_unused [OF 2(3) 1(5)] sends_off_view [OF 2(3)] 1(6) by simp_all
  have f: "iss s2 = isn" "snd_nxt s2 = iss s2 + 1" "rcv_nxt s2 = cfg_iss c + 1" "tcb_remote s2 = tcb_local c"
      "tcb_local s2 = tcb_local s"
    using v(3) 1(7) by (simp_all add: settled_view_def)
  have sg: "bare_ack seg" "sg_seq seg = rcv_nxt s2" "sg_ack seg = iss s2 + 1" "remote_of seg = tcb_remote s2"
      "sg_dst_ip seg = ep_ip (tcb_local s2)" "sg_dst_port seg = ep_port (tcb_local s2)"
    using f by (simp_all add: seg_def bare_ack_def sent_segment_def remote_of_def)
  obtain s3 where 3: "inject_segment seg s2 = (Inr (), s3)" "tcb_state s3 = Established" "settled_view s3 = settled_view s2"
    using server_establishes [OF v(1,2) f(2) sg] by blast
  have "\<not> tx_csum_offload c2" using 2(6) by (simp add: settled_view_def)
  then obtain q3 c3 where 4: "ferry q2 c2 s2 = Some (True, q3, c3, s3)" "sends_off c2 c3" "tx_packets (tcb_tx_ring c3) = []"
    using ferry_one [of c2 q2 p' seg s2 "Inr ()" s3] 2 3(1) unfolding seg_def by auto
  have "agree c3 s3" "tcb_state c3 = Established" "\<not> egress_paused c3" "tcb_BUF c3 = tcb_BUF c" "\<not> tx_csum_offload c3"
    using sends_off_view [OF 4(2)] 2(5,6) 3(3) v(3) 1(7) by (simp_all add: agree_def settled_view_def)
  then show ?thesis using 1(1) 2(1) 3(2) 4(1,3) sends_off_unused [OF 4(2) 2(4)] by blast
qed

text \<open>C2. The three-way handshake. A client that connects to a listening connection and whose packets
  are carried back and forth three times leaves both ends established and in agreement: each expects the
  sequence number the other will send next, each has the other as its peer, the window scales and
  segment sizes match crosswise, and both have timestamps, SACK and ECN switched on.\<close>

theorem three_way_handshake:
  assumes "reachable c" and "reachable s" and "tcb_state c = Closed" and "tcb_state s = Listen"
    and "tcb_remote c = tcb_local s" and "\<not> egress_paused c"
    and "\<not> tx_csum_offload c" and "\<not> tx_csum_offload s" and "length pkt = MAX_PACKET"
  shows "\<exists>q1 c1 s1 q2 c2 s2 q3 c3 s3.
      ferry pkt (snd (tcb_connect c)) s = Some (True, q1, c1, s1)
    \<and> ferry q1 s1 c1 = Some (True, q2, s2, c2)
    \<and> ferry q2 c2 s2 = Some (True, q3, c3, s3)
    \<and> tcb_state c3 = Established \<and> tcb_state s3 = Established \<and> agree c3 s3"
  using handshake [OF assms] by blast

section \<open>A connection with data\<close>

lemma reachable_steps:
  "reachable t \<Longrightarrow> reachable (snd (tcb_connect t))" "reachable t \<Longrightarrow> reachable (snd (inject_packet p t))"
  "reachable t \<Longrightarrow> reachable (snd (snd (extract_packet b t)))" "reachable t \<Longrightarrow> reachable (snd (tcb_send d t))"
  using reachable.called [of t Connect] reachable.called [of t "InjectPacket p"]
    reachable.called [of t "ExtractPacket b"] reachable.called [of t "Send d"] by simp_all

lemma ferry_keeps:
  assumes "\<And>t p. I t \<Longrightarrow> I (snd (inject_packet p t))" and "\<And>t b. I t \<Longrightarrow> I (snd (snd (extract_packet b t)))"
    and "ferry pkt a b = Some (ok, q, a', b')" and "I a" and "I b"
  shows "I a'" and "I b'"
proof -
  have "I a \<longrightarrow> I b \<longrightarrow> I (fst (snd (snd (ok, q, a', b')))) \<and> I (snd (snd (snd (ok, q, a', b'))))"
  proof (rule ferry.raw_induct [OF _ assms(3)], intro impI)
    fix f pkt a b y
    assume IH: "\<And>pkt a b y. f pkt a b = Some y \<Longrightarrow> I a \<longrightarrow> I b \<longrightarrow> I (fst (snd (snd y))) \<and> I (snd (snd (snd y)))"
      and y: "(case extract_packet pkt a of (r, pkt, a) \<Rightarrow>
          (case r of Inl _ \<Rightarrow> Some (False, pkt, a, b)
           | Inr n \<Rightarrow> if n = 0 then Some (True, pkt, a, b) else f pkt a (hand_over pkt n b))) = Some y"
      and ab: "I a" "I b"
    obtain n q u where e: "extract_packet pkt a = (n, q, u)" by (metis surj_pair)
    have "I u" using assms(2) [OF ab(1), of pkt] e by simp
    moreover have "I (hand_over q m b)" for m
      using assms(1) [OF ab(2)] ab(2) by (simp add: hand_over_def split: option.split)
    ultimately show "I (fst (snd (snd y))) \<and> I (snd (snd (snd y)))"
      using IH y ab(2) e by (auto split: sum.splits if_splits)
  qed
  with assms(4,5) show "I a'" "I b'" by simp_all
qed

text \<open>No packet lends send space.\<close>

interpretation unlent: input_kept "\<lambda>t. send_lent t = 0"
  by unfold_locales (simp_all add: step_defs Let_def case_prod_beta split: step_splits)

lemma unlent_steps:
  "send_lent t = 0 \<Longrightarrow> send_lent (snd (inject_packet p t)) = 0"
  "send_lent t = 0 \<Longrightarrow> send_lent (snd (snd (extract_packet b t))) = 0"
  "send_lent t = 0 \<Longrightarrow> send_lent (snd (tcb_connect t)) = 0"
proof -
  show "send_lent t = 0 \<Longrightarrow> send_lent (snd (inject_packet p t)) = 0"
    by (simp add: inject_packet_def unlent.inject_kept split: sum.split)
  show "send_lent t = 0 \<Longrightarrow> send_lent (snd (snd (extract_packet b t))) = 0"
    by (simp add: extract_packet_def case_prod_beta)
  have "send_lent u = 0 \<Longrightarrow> send_lent (snd (bind_rs emit_syn (\<lambda>sent t. (Inr (), if sent then synack_out t else t)) u)) = 0" for u
    by (intro bind_rs_keeps [of "\<lambda>t. send_lent t = 0"] unlent.syn_kept) (simp_all add: synack_out_def arm_rto_def)
  then show "send_lent t = 0 \<Longrightarrow> send_lent (snd (tcb_connect t)) = 0"
    by (simp add: tcb_connect_def start_active_def reset_connection_state_def not_listener_def)
qed

definition example_srv :: tcb where
  "example_srv = fold tcb_call [SetSecret (replicate 16 7), ListenCall]
     (tcb_setup (example_cfg\<lparr>tc_local := tc_remote example_cfg, tc_remote := tc_local example_cfg\<rparr>) (tcb_zero 16 64 4))"

lemma example_srv:
  "reachable example_srv" "tcb_state example_srv = Listen" "\<not> tx_csum_offload example_srv" "send_lent example_srv = 0"
  "tcb_local example_srv = tcb_remote example_tcb"
proof -
  let ?cfg = "example_cfg\<lparr>tc_local := tc_remote example_cfg, tc_remote := tc_local example_cfg\<rparr>"
  let ?t = "tcb_setup ?cfg (tcb_zero 16 64 4)"
  have "reachable ?t"
    by (rule reachable.built [of 16 64 4 ?cfg])
      (simp_all add: caps_valid_def tcb_init_in_place_def is_pow2_def)
  then show "reachable example_srv" unfolding example_srv_def by (rule reachable_calls)
  let ?s = "set_secret (replicate 16 7) ?t"
  have st: "tcb_state ?t = Closed" "tx_csum_offload ?t = False" "tcb_local ?t = tc_remote example_cfg" "send_lent ?t = 0"
    by (simp_all add: tcb_setup_def reset_connection_state_def)
  have s: "tcb_state ?s = Closed" "secret_set ?s" "tx_csum_offload ?s = False" "tcb_local ?s = tc_remote example_cfg" "send_lent ?s = 0"
    using st by (simp_all add: set_secret_def install_cookie_key_def Let_def)
  have e: "example_srv = start_listen ?s"
    using s by (simp add: example_srv_def tcb_listen_def)
  have l: "tcb_state (start_listen u) = Listen" "tx_csum_offload (start_listen u) = tx_csum_offload u"
      "tcb_local (start_listen u) = tcb_local u" "send_lent (start_listen u) = send_lent u" for u
    by (simp_all add: start_listen_def reset_connection_state_def)
  have "tcb_remote example_tcb = tc_remote example_cfg"
    by (simp add: example_tcb_def tcb_setup_def reset_connection_state_def)
  then show "tcb_state example_srv = Listen" "\<not> tx_csum_offload example_srv" "send_lent example_srv = 0"
    "tcb_local example_srv = tcb_remote example_tcb"
    unfolding e l s by simp_all
qed

lemma example_cli:
  "tcb_state example_tcb = Closed" "\<not> egress_paused example_tcb" "\<not> tx_csum_offload example_tcb" "tcb_BUF example_tcb = 16"
  "send_lent example_tcb = 0"
  by (simp_all add: example_tcb_def tcb_setup_def reset_connection_state_def tcb_zero_def tcb_BUF_def ring_capacity_def ring_clear_def)

theorem three_way_handshake_witness:
  "\<exists>q1 c1 s1 q2 c2 s2 q3 c3 s3.
      ferry (replicate MAX_PACKET 0) (snd (tcb_connect example_tcb)) example_srv = Some (True, q1, c1, s1)
    \<and> ferry q1 s1 c1 = Some (True, q2, s2, c2)
    \<and> ferry q2 c2 s2 = Some (True, q3, c3, s3)
    \<and> tcb_state c3 = Established \<and> tcb_state s3 = Established \<and> agree c3 s3"
  by (rule three_way_handshake)
    (simp_all add: example_reachable example_srv example_cli)

text \<open>After the handshake the client queues three bytes.\<close>

lemma example_data:
  "\<exists>t. reachable t \<and> tcb_state t = Established \<and> sendable FLAG_ACK t \<and> \<not> tx_csum_offload t
     \<and> rb_len (send_ring t) = 3 \<and> ring_contents (send_ring t) = [1, 2, 3]"
proof -
  obtain q1 c1 s1 q2 c2 s2 q3 c s where h:
      "ferry (replicate MAX_PACKET 0) (snd (tcb_connect example_tcb)) example_srv = Some (True, q1, c1, s1)"
      "ferry q1 s1 c1 = Some (True, q2, s2, c2)" "ferry q2 c2 s2 = Some (True, q3, c, s)"
      "tcb_state c = Established" "unused c" "tx_packets (tcb_tx_ring c) = []" "\<not> egress_paused c" "tcb_BUF c = tcb_BUF example_tcb" "\<not> tx_csum_offload c"
    using handshake [of example_tcb example_srv "replicate MAX_PACKET 0"] example_reachable example_srv example_cli
    by auto
  define I where "I = (\<lambda>t. reachable t \<and> send_lent t = 0)"
  have k: "\<And>t p. I t \<Longrightarrow> I (snd (inject_packet p t))" "\<And>t b. I t \<Longrightarrow> I (snd (snd (extract_packet b t)))"
      "I (snd (tcb_connect example_tcb))" "I example_srv"
    using example_reachable example_srv(1,4) example_cli(5) by (simp_all add: I_def reachable_steps unlent_steps)
  have "I c"
    using ferry_keeps [OF k(1,2) h(1) k(3,4)] ferry_keeps [OF k(1,2) h(2)] ferry_keeps [OF k(1,2) h(3)] by blast
  then have c: "reachable (snd (tcb_send [1, 2, 3] c))" "send_lent c = 0" by (simp_all add: I_def reachable_steps)
  obtain n r where w: "ring_write (send_ring c) [1, 2, 3] = (n, r)" by (metis surj_pair)
  have s: "ring_inv (send_ring c)" "rb_len (send_ring c) = 0" "ring_capacity (send_ring c) = 16" "tx_inv (tcb_tx_ring c)"
    using h(5,8) example_cli(4) by (simp_all add: unused_def stores_ok_def tcb_BUF_def)
  have "ring_contents (send_ring c) = []" using length_ring_contents [OF s(1)] s(2) by simp
  then have r: "ring_contents r = [1, 2, 3]" "ring_inv r"
    using ring_write_refines [OF s(1) w] s(2,3) by (simp_all add: ring_free_def)
  have u: "snd (tcb_send [1, 2, 3] c) = c\<lparr>send_ring := r\<rparr>"
    using c(2) h(4) w by (simp add: tcb_send_def can_send_def queue_bytes_def)
  show ?thesis
    using c(1) h(4,6,7,9) r length_ring_contents [OF r(2)] tx_room [OF s(4) h(6)] unfolding u
    by (intro exI [of _ "c\<lparr>send_ring := r\<rparr>"]) (simp add: sendable_def)
qed

theorem data_segment_on_the_wire_witness:
  "\<exists>t p u seg. reachable t \<and> emit_data_segment FLAG_ACK 7 \<lparr>rs_off = 1, rs_len = unat (2 :: u32)\<rparr> True t = (Inr True, u)
     \<and> parse_opts p True = Inr seg \<and> sg_seq seg = 7 \<and> sg_payload seg = [2, 3]"
proof -
  obtain t where t: "reachable t" "sendable FLAG_ACK t" "\<not> tx_csum_offload t"
      "rb_len (send_ring t) = 3" "ring_contents (send_ring t) = [1, 2, 3]"
    using example_data by blast
  have "2 \<le> mss_payload t"
    using mss_payload_fits [OF sizes.reachable_kept [OF t(1)]] by (simp add: word_le_nat_alt)
  with data_segment_on_the_wire [of t FLAG_ACK 2 1 7 True] t show ?thesis by auto
qed

end
