(* ===== verification/Reassembly.thy ===== *)
theory Reassembly
  imports Ring Ooo
begin

text \<open>
  The receive ring and the out-of-order list together, against the byte stream \<open>S\<close> the peer is sending:
  every byte recorded as held lies in the free space of the ring and is the byte of the stream at its
  offset. In-order text, parked text and the advance over parked text keep this.
\<close>

definition parked_ok :: "(nat \<Rightarrow> u8) \<Rightarrow> nat \<Rightarrow> u32 \<Rightarrow> ring \<Rightarrow> ooo_list \<Rightarrow> bool" where
  "parked_ok S p rn r oo \<longleftrightarrow>
     ooo_inv rn oo \<and>
     (\<forall>x \<in> ooo_held rn oo. unat x < ring_free r \<and> ring_parked r ! unat x = S (p + unat x))"

lemma parked_ok_empty: "oo_len oo = 0 \<Longrightarrow> parked_ok S p rn r oo"
  by (simp add: parked_ok_def ooo_inv_gaps ooo_held_def ooo_slice_take)

lemma parked_ok_cong: "ring_parked r' = ring_parked r \<Longrightarrow> parked_ok S p rn r' oo = parked_ok S p rn r oo"
  by (simp add: parked_ok_def length_ring_parked [symmetric] del: length_ring_parked)

text \<open>Reading moves the boundary of the free space but not the parked bytes.\<close>

lemma parked_ok_read:
  assumes inv: "ring_inv r" and p: "parked_ok S p rn r oo" and r: "ring_read r dst = (n, d, r')"
  shows "parked_ok S p rn r' oo"
proof -
  note rd = ring_read_refines [OF inv r]
  have len: "ring_free r' = ring_free r + n"
    using length_ring_parked [of r'] length_ring_contents [OF inv] rd(1) by (simp add: rd(6))
  have "unat x < ring_free r' \<and> ring_parked r' ! unat x = ring_parked r ! unat x" if "unat x < ring_free r" for x
    using that len by (simp add: rd(6) nth_append)
  then show ?thesis using p by (auto simp: parked_ok_def)
qed

text \<open>Text ahead of a gap.\<close>

lemma parked_ok_park:
  assumes inv: "ring_inv r" and p: "parked_ok S p rn r oo" and small: "ring_capacity r \<le> 2 ^ 30"
    and fit: "0 < unat (seq - rn)" "unat (seq - rn) + length bytes \<le> ring_free r" "bytes \<noteq> []"
    and bs: "bytes = map S [p + unat (seq - rn) ..< p + unat (seq - rn) + length bytes]"
    and i: "ooo_insert seq (seq + of_nat (length bytes)) rn oo = (res, oo')"
  shows "parked_ok S p rn (if res = Full then r else snd (ring_write_at r (unat (seq - rn)) bytes)) oo'"
proof -
  define k where "k = unat (seq - rn)"
  have cap: "ring_free r \<le> 2 ^ 30" using small by (simp add: ring_free_def)
  have s: "unat (off seq rn) = k" by (simp add: k_def off_def)
  have e: "unat (off (seq + of_nat (length bytes)) rn) = k + length bytes"
  proof -
    have "off (seq + of_nat (length bytes)) rn = off seq rn + of_nat (length bytes)" by (simp add: off_def)
    then show ?thesis using fit(2) cap s by (simp add: unat_word_ariths unat_of_nat k_def)
  qed
  have ws: "0 < off seq rn" "off seq rn < off (seq + of_nat (length bytes)) rn"
    "off (seq + of_nat (length bytes)) rn \<le> 0x7FFFFFFF"
    using s e fit cap by (simp_all add: word_less_nat_alt word_le_nat_alt k_def)
  have oinv: "ooo_inv rn oo" using p by (simp add: parked_ok_def)
  note sp = ooo_insert_spec [OF oinv ws i]
  show ?thesis
  proof (cases "res = Full")
    case True
    then show ?thesis using p sp by (simp add: parked_ok_def)
  next
    case False
    obtain c r' where w: "ring_write_at r k bytes = (c, r')" by (metis surj_pair)
    note wr = ring_write_at_refines [OF inv w]
    have c: "c = length bytes" using wr(1) fit(2) by (simp add: k_def)
    have free: "ring_free r' = ring_free r" using wr(5,6) by (simp add: ring_free_def)
    have "unat x < ring_free r \<and> ring_parked r' ! unat x = S (p + unat x)" if "x \<in> ooo_held rn oo'" for x
    proof (cases "k \<le> unat x \<and> unat x < k + length bytes")
      case True
      then have "ring_parked r' ! unat x = bytes ! (unat x - k)"
        using fit(2) by (simp add: wr(4) c nth_overlay k_def)
      also have "\<dots> = S (p + unat x)" using True fit(2) by (subst bs) (simp add: k_def less_diff_conv2)
      finally show ?thesis using True fit(2) by (simp add: k_def)
    next
      case out: False
      have "x \<in> ooo_held rn oo" using that sp(2) False out s e
        by (auto simp: word_less_nat_alt word_le_nat_alt)
      then have h: "unat x < ring_free r" "ring_parked r ! unat x = S (p + unat x)" using p by (auto simp: parked_ok_def)
      have "ring_parked r' ! unat x = ring_parked r ! unat x"
        using out h(1) fit(2) by (auto simp: wr(4) c nth_overlay k_def)
      then show ?thesis using h by simp
    qed
    then show ?thesis using False w sp(1) free by (simp add: parked_ok_def k_def)
  qed
qed

text \<open>In-order text, and the parked text it joins up to \<open>f\<close>.\<close>

lemma parked_ok_in_order:
  assumes inv: "ring_inv r" and p: "parked_ok S p rn r oo" and small: "ring_capacity r \<le> 2 ^ 30"
    and fit: "length bytes \<le> ring_free r" and bs: "bytes = map S [p ..< p + length bytes]"
    and w: "ring_write r bytes = (k, r1)" and a: "ooo_advance (rn + of_nat k) oo = (nw, oo1)"
    and f: "off f (rn + of_nat k) \<le> off nw (rn + of_nat k)"
    and cm: "ring_commit r1 (unat (f - (rn + of_nat k))) = (c, r2)"
  shows "k = length bytes" and "c = unat (f - (rn + of_nat k))" and "ring_inv r2"
    and "ring_capacity r2 = ring_capacity r"
    and "ring_contents r2 = ring_contents r @ map S [p ..< p + k + c]"
    and "parked_ok S (p + k + c) f r2 oo1"
proof -
  define K :: u32 where "K = of_nat k"
  define c' where "c' = unat (f - (rn + K))"
  note wr = ring_write_refines [OF inv w]
  show k: "k = length bytes" using wr(1) fit by simp
  have cap: "ring_free r \<le> 2 ^ 30" using small by (simp add: ring_free_def)
  have K: "unat K = k" using k fit cap by (simp add: K_def unat_of_nat)
  have nx: "off (rn + K) rn = K" by (simp add: off_def)
  then have nx31: "off (rn + K) rn \<le> 0x7FFFFFFF" using K k fit cap by (simp add: word_le_nat_alt)
  have oinv: "ooo_inv rn oo" using p by (simp add: parked_ok_def)
  note adv = ooo_advance_spec [OF oinv nx31 a [folded K_def], unfolded nx]
  have nw: "unat (off nw (rn + K)) = unat (off nw rn) - k"
    using adv(1) K off_shift [OF adv(1)] by (simp add: unat_sub)
  have c'le: "k + c' \<le> unat (off nw rn)"
    using f nw adv(1) K by (simp add: c'_def off_def word_le_nat_alt K_def)
  have frn: "off f rn = K + off f (rn + K)" by (simp add: off_def)
  have nwb: "unat (off nw rn) < 2 ^ 31" using adv(2) by (simp add: word_le_nat_alt)
  have fu: "unat (off f rn) = k + c'"
  proof -
    have "unat (off f (rn + K)) = c'" by (simp add: off_def c'_def)
    then show ?thesis using c'le nwb K by (simp add: frn unat_word_ariths)
  qed
  have held: "k + j < ring_free r \<and> ring_parked r ! (k + j) = S (p + (k + j))" if "j < c'" for j
  proof -
    have u: "unat (of_nat (k + j) :: u32) = k + j" using that c'le nwb by (simp add: unat_of_nat del: of_nat_add)
    then have "of_nat (k + j) \<in> ooo_held rn oo"
      using that c'le K by (intro adv(3)) (simp_all only: word_le_nat_alt word_less_nat_alt)
    then show ?thesis using p u by (fastforce simp: parked_ok_def)
  qed
  have room: "k + c' \<le> ring_free r" using held [of "c' - 1"] fit k by (cases c') simp_all
  have free1: "ring_free r1 = ring_free r - k" using wr(4) length_ring_parked [of r1] by simp
  note cr = ring_commit_refines [OF wr(2) cm]
  show c: "c = unat (f - (rn + of_nat k))" using cr(1) room free1 by (simp add: c'_def K_def)
  then have cc: "c = c'" by (simp add: c'_def K_def)
  show "ring_inv r2" "ring_capacity r2 = ring_capacity r" using cr(2,5) wr(5) by simp_all
  have "take c (ring_parked r1) = map S [p + k ..< p + k + c]"
    using held room cc by (intro nth_equalityI) (simp_all add: wr(4) add.assoc)
  moreover have "take k bytes = map S [p ..< p + k]" using bs k by simp
  moreover have "[p ..< p + k + c] = [p ..< p + k] @ [p + k ..< p + k + c]" by (rule upt_add_eq_append) simp
  ultimately show "ring_contents r2 = ring_contents r @ map S [p ..< p + k + c]" by (simp add: cr(3) wr(3))
  have g: "gaps_ok rn (off f rn) (ooo_slice oo1)"
    using adv(5) by (rule gaps_ok_weaken) (use c'le fu in \<open>simp add: word_le_nat_alt\<close>)
  have "unat x < ring_free r2 \<and> ring_parked r2 ! unat x = S (p + k + c + unat x)" if x: "x \<in> ooo_held f oo1" for x
  proof -
    note sh = ooo_held_shift [OF g x]
    have "x + off f rn \<in> ooo_held rn oo"
      using sh(1) adv(6) set_drop_subset by (fastforce simp: ooo_held_def)
    then have "unat (x + off f rn) < ring_free r \<and>
        ring_parked r ! unat (x + off f rn) = S (p + unat (x + off f rn))"
      using p by (simp add: parked_ok_def)
    moreover have "unat (x + off f rn) = k + c + unat x" using sh(2) fu cc by simp
    moreover have "ring_parked r2 = drop (k + c) (ring_parked r)" by (simp add: cr(4) wr(4) add.commute)
    moreover from this have "ring_free r2 = ring_free r - (k + c)" using length_ring_parked [of r2] by simp
    ultimately show ?thesis by (auto simp: add.assoc)
  qed
  moreover have "ooo_inv f oo1" using adv(4) g by (rule ooo_inv_shift)
  ultimately show "parked_ok S (p + k + c) f r2 oo1" by (simp add: parked_ok_def)
qed

end
