(* ===== verification/Tcb_Stream.thy ===== *)
theory Tcb_Stream
  imports Tcb_Segments Reassembly
begin

text \<open>
  The receive side of a connection against the byte stream \<open>S\<close> its peer sends. \<open>stream_ok S n t\<close> says that,
  with \<open>n\<close> bytes already returned by \<^verbatim>\<open>recv\<close>, the receive ring holds the next bytes of the stream and
  \<^verbatim>\<open>RCV.NXT\<close> the position after them, with the out-of-order text parked where it belongs.
\<close>

definition embryonic :: "state \<Rightarrow> bool" where
  "embryonic st \<longleftrightarrow> st = Listen \<or> st = SynSent \<or> st = SynRcvd"

definition receiving :: "state \<Rightarrow> bool" where
  "receiving st \<longleftrightarrow> can_recv st \<or> st = SynRcvd"

definition queued_ok :: "(nat \<Rightarrow> u8) \<Rightarrow> nat \<Rightarrow> ring \<Rightarrow> bool" where
  "queued_ok S n r \<longleftrightarrow>
     ring_inv r \<and> ring_capacity r \<le> 2 ^ 30 \<and> ring_contents r = map S [n ..< n + rb_len r]"

definition next_ok :: "(nat \<Rightarrow> u8) \<Rightarrow> nat \<Rightarrow> ring \<Rightarrow> u32 \<Rightarrow> u32 \<Rightarrow> ooo_list \<Rightarrow> bool" where
  "next_ok S n r nxt isn oo \<longleftrightarrow>
     nxt = isn + 1 + of_nat (n + rb_len r) \<and> parked_ok S (n + rb_len r) nxt r oo"

definition stream_ok :: "(nat \<Rightarrow> u8) \<Rightarrow> nat \<Rightarrow> tcb \<Rightarrow> bool" where
  "stream_ok S n t \<longleftrightarrow>
     queued_ok S n (recv_ring t)
     \<and> (embryonic (tcb_state t) \<longrightarrow> n = 0 \<and> rb_len (recv_ring t) = 0 \<and> oo_len (tcb_ooo t) = 0)
     \<and> (receiving (tcb_state t) \<longrightarrow> next_ok S n (recv_ring t) (rcv_nxt t) (irs t) (tcb_ooo t))"

lemma queued_clear [simp]: "queued_ok S n r \<Longrightarrow> queued_ok S n (ring_clear r)"
  by (simp add: queued_ok_def ring_clear_refines)

lemma clear_len [simp]: "rb_len (ring_clear r) = 0" "oo_len (ooo_clear oo) = 0"
  by (simp_all add: ring_clear_def ooo_clear_def)

lemma phase_simps [simp]:
  "\<not> embryonic Closed" "embryonic Listen" "embryonic SynSent" "embryonic SynRcvd" "\<not> embryonic Established"
  "\<not> embryonic FinWait1" "\<not> embryonic FinWait2" "\<not> embryonic CloseWait" "\<not> embryonic Closing"
  "\<not> embryonic LastAck" "\<not> embryonic TimeWait"
  "\<not> receiving Closed" "\<not> receiving Listen" "\<not> receiving SynSent" "receiving SynRcvd"
  "receiving Established" "receiving FinWait1" "receiving FinWait2" "\<not> receiving CloseWait"
  "\<not> receiving Closing" "\<not> receiving LastAck" "\<not> receiving TimeWait"
  by (simp_all add: embryonic_def receiving_def can_recv_def)

interpretation stream: quiet_kept "stream_ok S n" for S n
  by unfold_locales
    (simp_all add: stream_ok_def step_defs Let_def case_prod_beta split: step_splits, auto)

section \<open>Text\<close>

text \<open>A segment that carries the stream's bytes from position \<open>a\<close>, within half the sequence space of
  the receiver's position.\<close>

definition carries :: "(nat \<Rightarrow> u8) \<Rightarrow> nat \<Rightarrow> segment \<Rightarrow> tcb \<Rightarrow> bool" where
  "carries S n seg t \<longleftrightarrow>
     (let p = n + rb_len (recv_ring t); len = length (sg_payload seg)
      in \<exists>a. sg_seq seg = irs t + 1 + of_nat a \<and> sg_payload seg = map S [a ..< a + len]
            \<and> a < p + 2 ^ 31 \<and> p \<le> a + 2 ^ 31)"

definition rx_view :: "tcb \<Rightarrow> state \<times> ring \<times> u32 \<times> u32 \<times> ooo_list" where
  "rx_view t = (tcb_state t, recv_ring t, rcv_nxt t, irs t, tcb_ooo t)"

lemma stream_ok_cong: "rx_view u = rx_view t \<Longrightarrow> stream_ok S n u = stream_ok S n t"
  by (simp add: rx_view_def stream_ok_def)

lemma seq_lt_position:
  assumes "a < p + 2 ^ 31" and "p \<le> a + 2 ^ 31"
  shows "seq_lt (i + of_nat a) (i + of_nat p) \<longleftrightarrow> a < p"
    and "a < p \<Longrightarrow> unat (i + of_nat p - (i + of_nat a) :: u32) = p - a"
    and "p \<le> a \<Longrightarrow> unat (i + of_nat a - (i + of_nat p) :: u32) = a - p"
proof -
  have lo: "unat (of_nat (p - a) :: u32) = p - a" if "a < p"
    using that assms by (subst unat_of_nat) simp
  have hi: "unat (of_nat (a - p) :: u32) = a - p" if "p \<le> a"
    using that assms by (subst unat_of_nat) simp
  show l: "unat (i + of_nat p - (i + of_nat a) :: u32) = p - a" if "a < p"
    using lo that by (simp add: of_nat_diff)
  show h: "unat (i + of_nat a - (i + of_nat p) :: u32) = a - p" if "p \<le> a"
    using hi that by (simp add: of_nat_diff)
  show "seq_lt (i + of_nat a) (i + of_nat p) \<longleftrightarrow> a < p"
  proof (cases "a < p")
    case True
    have "i + of_nat a - (i + of_nat p) = - (of_nat (p - a) :: u32)" using True by (simp add: of_nat_diff)
    moreover have "unat (- (of_nat (p - a) :: u32)) = 2 ^ 32 - (p - a)"
      using lo [OF True] True unat_sub_if_size [of 0 "of_nat (p - a) :: u32"] by (simp add: word_size)
    ultimately show ?thesis using True assms by (simp add: seq_lt_def sint32)
  next
    case False
    then show ?thesis using h assms by (simp add: seq_lt_def sint32)
  qed
qed

lemma note_dsack_view [simp]: "rx_view (note_dsack l r t) = rx_view t" "rx_view (count_dup_bytes k t) = rx_view t"
  by (simp_all add: rx_view_def note_dsack_def count_dup_bytes_def Let_def)

lemma trim_carries:
  assumes ok: "next_ok S n (recv_ring t) (rcv_nxt t) (irs t) (tcb_ooo t)" and c: "carries S n seg t"
    and tr: "trim_duplicate seg t = (x, u)"
  shows "rx_view u = rx_view t"
    and "x = Some (seq, bytes, b) \<Longrightarrow> bytes = map S [n + rb_len (recv_ring t) + unat (seq - rcv_nxt t) ..<
            n + rb_len (recv_ring t) + unat (seq - rcv_nxt t) + length bytes]"
    and "x = Some (seq, bytes, b) \<Longrightarrow> sg_payload seg \<noteq> [] \<Longrightarrow> bytes \<noteq> []"
proof -
  define p where "p = n + rb_len (recv_ring t)"
  define len where "len = length (sg_payload seg)"
  obtain a where a: "sg_seq seg = irs t + 1 + of_nat a" "sg_payload seg = map S [a ..< a + len]"
    "a < p + 2 ^ 31" "p \<le> a + 2 ^ 31" using c by (auto simp: carries_def Let_def p_def len_def)
  have nx: "rcv_nxt t = irs t + 1 + of_nat p" using ok by (simp add: next_ok_def p_def)
  note pos = seq_lt_position [OF a(3,4), of "irs t + 1", folded a(1) nx]
  show "rx_view u = rx_view t"
    using tr by (auto simp: trim_duplicate_def Let_def split: if_splits option.splits)
  show "bytes \<noteq> []" if "x = Some (seq, bytes, b)" "sg_payload seg \<noteq> []"
    using tr that by (auto simp: trim_duplicate_def Let_def split: if_splits option.splits)
  show "bytes = map S [n + rb_len (recv_ring t) + unat (seq - rcv_nxt t) ..<
            n + rb_len (recv_ring t) + unat (seq - rcv_nxt t) + length bytes]" if x: "x = Some (seq, bytes, b)"
  proof (cases "a < p")
    case True
    then have "bytes = drop (p - a) (sg_payload seg)" "seq = rcv_nxt t" "bytes \<noteq> []"
      using tr x pos(1,2)
      by (auto simp: trim_duplicate_def Let_def get_range_def split: if_splits option.splits)
    then show ?thesis using a(2) True by (auto simp: drop_map drop_upt p_def)
  next
    case False
    then have eq: "bytes = sg_payload seg" "seq = sg_seq seg"
      using tr x pos(1) by (auto simp: trim_duplicate_def Let_def split: if_splits option.splits)
    have k: "p + unat (sg_seq seg - rcv_nxt t) = a" using False pos(3) by simp
    show ?thesis unfolding eq p_def [symmetric] k len_def [symmetric] by (rule a(2))
  qed
qed

lemma stop_at_fin_le:
  assumes "off new nxt \<le> 0x7FFFFFFF"
  shows "off (stop_at_fin nxt fopt new) nxt \<le> off new nxt"
proof (cases fopt)
  case (Some f)
  show ?thesis
  proof (cases "seq_ge f nxt \<and> seq_gt new f")
    case True
    have "unat (off f nxt) < 2 ^ 31"
      using True uint_lt2p [of "f - nxt"] by (auto simp: seq_ge_def sint32 off_def split: if_splits)
    then have "off f nxt \<le> 0x7FFFFFFF" by (simp add: word_le_nat_alt)
    then show ?thesis using True sint_diff_le [OF assms, of f] by (simp add: Some stop_at_fin_def seq_gt_def)
  qed (auto simp: Some stop_at_fin_def)
qed (simp add: stop_at_fin_def)

lemma in_order_stream:
  assumes q: "queued_ok S n (recv_ring t)"
    and ok: "next_ok S n (recv_ring t) (rcv_nxt t) (irs t) (tcb_ooo t)"
    and fit: "length bytes \<le> ring_free (recv_ring t)"
    and bs: "bytes = map S [n + rb_len (recv_ring t) ..< n + rb_len (recv_ring t) + length bytes]"
    and u: "receive_in_order bytes fopt t = (b, u)"
  shows "queued_ok S n (recv_ring u) \<and> next_ok S n (recv_ring u) (rcv_nxt u) (irs u) (tcb_ooo u)
    \<and> tcb_state u = tcb_state t"
proof -
  define p where "p = n + rb_len (recv_ring t)"
  obtain k r1 where w: "ring_write (recv_ring t) bytes = (k, r1)" by (metis surj_pair)
  define nx where "nx = rcv_nxt t + of_nat k"
  obtain nw oo1 where a: "ooo_advance nx (tcb_ooo t) = (nw, oo1)" by (metis surj_pair)
  define h where "h = ooo_fin (drop_covered_fin (take_in_order bytes t))"
  define f where "f = stop_at_fin nx (map_option hf_seq h) (stop_at_fin nx fopt nw)"
  obtain c r2 where cm: "ring_commit r1 (unat (f - nx)) = (c, r2)" by (metis surj_pair)
  have inv: "ring_inv (recv_ring t)" and cap: "ring_capacity (recv_ring t) \<le> 2 ^ 30"
    and cont: "ring_contents (recv_ring t) = map S [n ..< p]" using q by (simp_all add: queued_ok_def p_def)
  have po: "parked_ok S p (rcv_nxt t) (recv_ring t) (tcb_ooo t)"
    and nxt: "rcv_nxt t = irs t + 1 + of_nat p" using ok unfolding next_ok_def p_def by blast+
  have k: "k = length bytes" using ring_write_refines(1) [OF inv w] fit by simp
  have small: "k \<le> 2 ^ 30" using k fit cap by (simp add: ring_free_def)
  have "off nx (rcv_nxt t) \<le> 0x7FFFFFFF" using small by (simp add: off_def nx_def word_le_nat_alt unat_of_nat)
  moreover have "ooo_inv (rcv_nxt t) (tcb_ooo t)" using po by (simp add: parked_ok_def)
  ultimately have "off nw nx \<le> 0x7FFFFFFF" using ooo_advance_small a by blast
  then have fle: "off f nx \<le> off nw nx"
    unfolding f_def by (meson order_trans stop_at_fin_le)
  note io = parked_ok_in_order [OF inv po cap fit bs [folded p_def] w, folded nx_def, OF a fle cm]
  have len: "rb_len r2 = rb_len (recv_ring t) + k + c"
    using io(5) length_ring_contents [OF io(3)] length_ring_contents [OF inv] by simp
  have fields: "irs u = irs t" "tcb_state u = tcb_state t" "tcb_ooo u = oo1" "rcv_nxt u = f"
    "recv_ring u = (if f = nx then r1 else r2)"
    using u w a cm io(2)
    by (auto simp: receive_in_order_def take_in_order_def absorb_ooo_def drop_covered_fin_def
        count_received_def nx_def f_def h_def Let_def case_prod_beta split: option.splits if_splits)
  have same: "ring_parked r2 = ring_parked r1" "ring_contents r2 = ring_contents r1" "ring_capacity r2 = ring_capacity r1"
    if "f = nx" using ring_commit_refines [OF ring_write_refines(2) [OF inv w] cm] that by simp_all
  have r: "ring_inv (recv_ring u)" "ring_parked (recv_ring u) = ring_parked r2"
    "ring_contents (recv_ring u) = ring_contents r2" "ring_capacity (recv_ring u) = ring_capacity r2"
    using same io(3) ring_write_refines(2) [OF inv w] by (auto simp: fields)
  have len: "rb_len (recv_ring u) = rb_len (recv_ring t) + k + c"
    using r(3) io(5) length_ring_contents [OF r(1)] length_ring_contents [OF inv] by simp
  have "[n ..< p + k + c] = [n ..< p] @ [p ..< p + k + c]"
    using upt_add_eq_append [of n p "k + c"] by (simp add: p_def add.assoc)
  then have "queued_ok S n (recv_ring u)"
    using r io(4,5) cap cont len by (simp add: queued_ok_def p_def add.assoc)
  moreover have "parked_ok S (p + k + c) f (recv_ring u) oo1"
    using io(6) parked_ok_cong [OF r(2)] by simp
  moreover have "f = irs t + 1 + of_nat (p + k + c)"
  proof -
    have "f = nx + of_nat c" using io(2) by simp
    then show ?thesis by (simp add: nx_def nxt)
  qed
  ultimately show ?thesis using fields len by (simp add: next_ok_def p_def add.assoc)
qed

definition rx_ok :: "(nat \<Rightarrow> u8) \<Rightarrow> nat \<Rightarrow> tcb \<Rightarrow> bool" where
  "rx_ok S n t \<longleftrightarrow> queued_ok S n (recv_ring t) \<and> next_ok S n (recv_ring t) (rcv_nxt t) (irs t) (tcb_ooo t)"

lemma stream_rx_ok: "can_recv (tcb_state t) \<Longrightarrow> stream_ok S n t \<longleftrightarrow> rx_ok S n t"
  by (auto simp: stream_ok_def rx_ok_def can_recv_def)

lemma park_stream:
  assumes ok: "rx_ok S n t" and k: "0 < unat (seq - rcv_nxt t)"
    and fit: "unat (seq - rcv_nxt t) + length bytes \<le> ring_free (recv_ring t)" "bytes \<noteq> []"
    and bs: "bytes = map S [n + rb_len (recv_ring t) + unat (seq - rcv_nxt t) ..<
            n + rb_len (recv_ring t) + unat (seq - rcv_nxt t) + length bytes]"
  shows "rx_ok S n (park_out_of_order seq bytes t) \<and> tcb_state (park_out_of_order seq bytes t) = tcb_state t"
proof -
  define u where "u = park_out_of_order seq bytes t"
  obtain res oo' where i: "ooo_insert seq (seq + of_nat (length bytes)) (rcv_nxt t) (tcb_ooo t) = (res, oo')"
    by (metis surj_pair)
  obtain c r' where w: "ring_write_at (recv_ring t) (unat (seq - rcv_nxt t)) bytes = (c, r')" by (metis surj_pair)
  have inv: "ring_inv (recv_ring t)" and cap: "ring_capacity (recv_ring t) \<le> 2 ^ 30"
    using ok by (simp_all add: rx_ok_def queued_ok_def)
  have po: "parked_ok S (n + rb_len (recv_ring t)) (rcv_nxt t) (recv_ring t) (tcb_ooo t)"
    using ok unfolding rx_ok_def next_ok_def by blast
  have fields: "irs u = irs t" "rcv_nxt u = rcv_nxt t" "tcb_state u = tcb_state t" "tcb_ooo u = oo'"
    "recv_ring u = (if res = Full then recv_ring t else r')"
    using i w by (auto simp: u_def park_out_of_order_def note_dsack_def count_dup_bytes_def Let_def
        split: ooo_insert_result.split option.split)
  have "rb_len (recv_ring u) = rb_len (recv_ring t)" "queued_ok S n (recv_ring u)"
    using ok ring_write_at_refines [OF inv w] by (simp_all add: fields rx_ok_def queued_ok_def)
  moreover have "parked_ok S (n + rb_len (recv_ring t)) (rcv_nxt t) (recv_ring u) oo'"
    using parked_ok_park [OF inv po cap k fit bs i] w by (auto simp: fields split: if_splits)
  ultimately show ?thesis using ok fields by (simp add: rx_ok_def next_ok_def u_def [symmetric])
qed

lemma payload_stream:
  assumes ok: "rx_ok S n t" and c: "carries S n seg t" and ne: "sg_payload seg \<noteq> []"
  shows "rx_ok S n (snd (receive_payload seg fopt t)) \<and> tcb_state (snd (receive_payload seg fopt t)) = tcb_state t"
proof -
  obtain x u where tr: "trim_duplicate seg t = (x, u)" by (metis surj_pair)
  have nok: "next_ok S n (recv_ring t) (rcv_nxt t) (irs t) (tcb_ooo t)" using ok by (simp add: rx_ok_def)
  note tc = trim_carries [OF nok c tr]
  have view: "recv_ring u = recv_ring t" "rcv_nxt u = rcv_nxt t" "irs u = irs t" "tcb_ooo u = tcb_ooo t"
    "tcb_state u = tcb_state t" using tc(1) by (simp_all add: rx_view_def)
  have oku: "rx_ok S n u" using ok by (simp add: rx_ok_def view)
  show ?thesis
  proof (cases x)
    case None
    then show ?thesis using tr oku view by (simp add: receive_payload_def)
  next
    case (Some y)
    obtain seq bytes b where y: "y = (seq, bytes, b)" by (metis surj_pair)
    define k where "k = unat (seq - rcv_nxt t)"
    define free where "free = ring_free (recv_ring t)"
    define bs where "bs = take (min (length bytes) (free - k)) bytes"
    have bytes: "bytes = map S [n + rb_len (recv_ring t) + k ..< n + rb_len (recv_ring t) + k + length bytes]"
      "bytes \<noteq> []" using tc(2,3) ne Some y unfolding k_def by blast+
    have "length bs \<le> length bytes" by (simp add: bs_def)
    then have bs': "bs = map S [n + rb_len (recv_ring t) + k ..< n + rb_len (recv_ring t) + k + length bs]"
      unfolding bs_def by (subst bytes(1)) (simp add: take_map take_upt)
    have fit: "\<not> free \<le> k \<Longrightarrow> k + length bs \<le> free" "\<not> free \<le> k \<Longrightarrow> bs \<noteq> []" using bytes(2) by (auto simp: bs_def)
    consider "free \<le> k" | "k < free" "k = 0" | "k < free" "0 < k" by linarith
    then show ?thesis
    proof cases
      case 1
      then show ?thesis using tr oku view Some y by (simp add: receive_payload_def Let_def k_def free_def)
    next
      case 2
      obtain a v where v: "receive_in_order bs fopt u = (a, v)" by (metis surj_pair)
      have "rx_ok S n v \<and> tcb_state v = tcb_state u"
        using in_order_stream [OF _ _ _ _ v, of S n] oku 2 fit bs' by (simp add: rx_ok_def view free_def)
      moreover have "snd (receive_payload seg fopt t) = v"
        using 2 tr Some y v by (simp add: receive_payload_def Let_def k_def free_def bs_def view)
      ultimately show ?thesis by (simp add: view)
    next
      case 3
      have "snd (receive_payload seg fopt t) = park_out_of_order seq bs u"
        using 3 tr Some y by (simp add: receive_payload_def Let_def k_def free_def bs_def view)
      moreover have "rx_ok S n (park_out_of_order seq bs u) \<and> tcb_state (park_out_of_order seq bs u) = tcb_state u"
        using oku 3 fit bs' by (intro park_stream) (simp_all add: view k_def free_def)
      ultimately show ?thesis by (simp add: view)
    qed
  qed
qed

lemma consume_fin_stream:
  assumes "stream_ok S n t" and "can_recv (tcb_state t)"
  shows "stream_ok S n (consume_fin t)"
  using assms by (auto simp: stream_ok_def consume_fin_def advance_state_on_remote_fin_def enter_time_wait_def
      can_recv_def)

lemma receive_fin_stream:
  assumes "stream_ok S n t" and "can_recv (tcb_state t)"
  shows "stream_ok S n (snd (receive_fin l f t))"
  using assms consume_fin_stream [OF assms] by (simp add: receive_fin_def) (simp add: stream_ok_def split: option.split)

lemma text_and_fin_stream:
  assumes ok: "stream_ok S n t"
    and c: "can_recv (tcb_state t) \<Longrightarrow> sg_payload seg \<noteq> [] \<Longrightarrow> carries S n seg t"
  shows "stream_ok S n (snd (receive_text_and_fin seg (of_nat (length (sg_payload seg))) fin t))"
proof (cases "can_recv (tcb_state t)")
  case True
  define len :: u32 where "len = of_nat (length (sg_payload seg))"
  define fopt where "fopt = (if fin \<and> \<not> parked_ahead_of (sg_seq seg) (sg_seq seg + len) t then Some (sg_seq seg + len) else None)"
  define t1 where "t1 = snd (if 0 < len then receive_payload seg fopt t else (False, t))"
  define t2 where "t2 = snd (case fopt of Some f \<Rightarrow> receive_fin (sg_seq seg) f t1 | None \<Rightarrow> (fin, t1))"
  have "rx_ok S n t1 \<and> tcb_state t1 = tcb_state t"
    using payload_stream [of S n t seg fopt] c [OF True] ok True
    by (cases "sg_payload seg = []") (auto simp: t1_def stream_rx_ok len_def)
  then have 1: "stream_ok S n t1" "can_recv (tcb_state t1)" using True by (simp_all add: stream_rx_ok)
  then have 2: "stream_ok S n t2" by (simp add: t2_def receive_fin_stream split: option.split)
  then have "stream_ok S n (snd (maybe_consume_ooo_fin t2))"
    by (simp add: maybe_consume_ooo_fin_def consume_fin_stream)
  moreover have "snd (receive_text_and_fin seg len fin t) = snd (maybe_consume_ooo_fin t2)"
    using True by (simp add: receive_text_and_fin_def Let_def case_prod_beta t2_def t1_def fopt_def)
  ultimately show ?thesis by (simp add: len_def)
qed (use ok in \<open>simp add: receive_text_and_fin_def\<close>)

lemma accept_text_stream:
  assumes ok: "stream_ok S n t"
    and c: "can_recv (tcb_state t) \<Longrightarrow> sg_payload seg \<noteq> [] \<Longrightarrow> carries S n seg t"
  shows "stream_ok S n (snd (accept_text seg (of_nat (length (sg_payload seg))) fin t))"
proof -
  obtain a u where u: "receive_text_and_fin seg (of_nat (length (sg_payload seg))) fin t = (a, u)" by (metis surj_pair)
  then have "stream_ok S n u" using text_and_fin_stream [OF ok c, of fin] by simp
  with u show ?thesis
    by (auto simp: accept_text_def stream.pure_ack_kept stream.oow_ack_kept stream.delayed_ack_kept
        intro!: stream.seq_kept stream.send_data_kept)
qed

text \<open>What a segment's acknowledgement leaves alone.\<close>

definition rx_frame :: "tcb \<Rightarrow> u32 \<times> u32 \<times> ring" where
  "rx_frame t = (irs t, rcv_nxt t, recv_ring t)"

interpretation rxf: ack_kept "\<lambda>t. rx_frame t = v" for v
  by unfold_locales
    (simp_all add: rx_frame_def output_step_defs ack_step_defs Let_def case_prod_beta split: step_splits)

interpretation deaf: ack_kept "\<lambda>t. \<not> can_recv (tcb_state t)"
  by unfold_locales
    (simp_all add: can_recv_def output_step_defs ack_step_defs Let_def case_prod_beta split: step_splits)

lemma acceptable_ack_stream:
  assumes ok: "stream_ok S n t" and ack: "ack_acceptable (sg_ack seg) t"
    and c: "can_recv (tcb_state t) \<Longrightarrow> sg_payload seg \<noteq> [] \<Longrightarrow> carries S n seg t"
  shows "stream_ok S n (snd (on_acceptable_ack seg (of_nat (length (sg_payload seg))) fin zwp t))"
proof -
  define t0 where "t0 = on_peer_alive (update_ce seg (of_nat (length (sg_payload seg))) (update_ts_recent seg t))"
  define t1 where "t1 = process_ack seg t0"
  have 0: "rx_frame t0 = rx_frame t" "tcb_state t0 = tcb_state t"
    by (simp_all add: t0_def rx_frame_def on_peer_alive_def update_ce_def update_ts_recent_def Let_def split: option.split)
  have fl: "\<not> seq_gt (sg_ack seg) (snd_nxt t0)" unfolding t0_def by (rule ack_in_flight [OF ack])
  have "rx_frame t1 = rx_frame t" using rxf.process_ack_kept [OF 0(1) fl] by (simp add: t1_def)
  then have "carries S n seg t1 = carries S n seg t" by (simp add: carries_def rx_frame_def)
  moreover have "can_recv (tcb_state t1) \<Longrightarrow> can_recv (tcb_state t)"
    using deaf.process_ack_kept [OF _ fl] 0(2) by (auto simp: t1_def)
  moreover have "stream_ok S n t1"
    unfolding t1_def t0_def by (rule stream.acked_kept [OF ok ack])
  ultimately have "stream_ok S n (snd (accept_text seg (of_nat (length (sg_payload seg))) fin t1))" "stream_ok S n t1"
    using c by (auto intro!: accept_text_stream)
  then show ?thesis
    by (auto simp: on_acceptable_ack_def Let_def t1_def t0_def stream.pure_ack_kept
        intro!: stream.seq_kept stream.send_data_kept)
qed

lemma synchronized_stream:
  assumes ok: "stream_ok S n t"
    and c: "can_recv (tcb_state t) \<Longrightarrow> \<not> seg_has seg FLAG_SYN \<Longrightarrow> sg_payload seg \<noteq> [] \<Longrightarrow> carries S n seg t"
  shows "stream_ok S n (snd (on_synchronized seg t))"
proof -
  define len :: u32 where "len = of_nat (length (sg_payload seg))"
  have k: "\<not> seg_has seg FLAG_SYN \<Longrightarrow> ack_acceptable (sg_ack seg) t \<Longrightarrow> l = len \<Longrightarrow>
      stream_ok S n (snd (on_acceptable_ack seg l fin zwp t))" for l fin zwp
    using acceptable_ack_stream [OF ok _ c] by (simp add: len_def)
  show ?thesis
    unfolding on_synchronized_def Let_def len_def [symmetric]
    using ok by (auto simp: stream.unacceptable_kept stream.pure_ack_kept stream.oow_ack_kept
        stream.reset_received_kept k)
qed

section \<open>Handshake\<close>

text \<open>A connection about to receive the first byte.\<close>

lemma fresh_stream:
  assumes "queued_ok S n (recv_ring u)" and "n = 0" and "rb_len (recv_ring u) = 0" and "oo_len (tcb_ooo u) = 0"
    and "receiving (tcb_state u) \<Longrightarrow> rcv_nxt u = irs u + 1"
  shows "stream_ok S n u"
  using assms by (auto simp: stream_ok_def next_ok_def parked_ok_empty)

lemma handshake_frames:
  "rx_view (syn_acked seg t) = rx_view t" "rx_view (third_ack_window seg t) = rx_view t"
  "rx_view (handshake_rtt_sample seg t) = rx_view t" "rx_view (on_established t) = rx_view t"
  "rx_view (promote_opts seg copts t) = rx_view t" "rx_view (count_segs_in t) = rx_view t"
  "rx_view (t\<lparr>rto_deadline := dl\<rparr>) = rx_view t" "rx_view (t\<lparr>syn_rcvd_retries := retries\<rparr>) = rx_view t"
  "rx_view (t\<lparr>ecn_enabled := b\<rparr>) = rx_view t" "rx_view (t\<lparr>syn_retransmitted := b\<rparr>) = rx_view t"
  "rx_view (t\<lparr>syn_xmit_ms := ms\<rparr>) = rx_view t"
  by (simp_all add: rx_view_def syn_acked_def third_ack_window_def handshake_rtt_sample_def take_rtt_sample_def
      update_rtt_def on_established_def on_peer_alive_def promote_opts_def absorb_ts_def count_segs_in_def Let_def
      split: option.split)

lemma absorb_view:
  "tcb_state (absorb_syn_options seg t) = tcb_state t" "recv_ring (absorb_syn_options seg t) = recv_ring t"
  "rcv_nxt (absorb_syn_options seg t) = sg_seq seg + 1" "irs (absorb_syn_options seg t) = sg_seq seg"
  "tcb_ooo (absorb_syn_options seg t) = tcb_ooo t"
  by (simp_all add: absorb_syn_options_def absorb_ts_def absorb_ws_def Let_def split: option.split)

lemma embryonic_facts:
  assumes "stream_ok S n t" and "embryonic (tcb_state t)"
  shows "n = 0" "queued_ok S n (recv_ring t)" "rb_len (recv_ring t) = 0" "oo_len (tcb_ooo t) = 0"
  using assms by (auto simp: stream_ok_def)

text \<open>The connection a SYN or a SYN-ACK leaves, in any state.\<close>

lemma synchronised_stream:
  assumes "stream_ok S n t" and "embryonic (tcb_state t)" and "recv_ring u = recv_ring t" and "tcb_ooo u = tcb_ooo t"
    and "rcv_nxt u = irs u + 1"
  shows "stream_ok S n u"
  using embryonic_facts [OF assms(1,2)] assms(3-5) by (intro fresh_stream) simp_all

lemma view_fields:
  assumes "rx_view u = rx_view t"
  shows "tcb_state u = tcb_state t" "recv_ring u = recv_ring t" "rcv_nxt u = rcv_nxt t" "irs u = irs t"
    "tcb_ooo u = tcb_ooo t"
  using assms by (simp_all add: rx_view_def)

lemmas frame_fields = handshake_frames [THEN view_fields(1)] handshake_frames [THEN view_fields(2)]
  handshake_frames [THEN view_fields(3)] handshake_frames [THEN view_fields(4)]
  handshake_frames [THEN view_fields(5)]

lemma active_open_stream:
  "stream_ok S n t \<Longrightarrow> embryonic (tcb_state t) \<Longrightarrow> stream_ok S n (snd (complete_active_open seg t))"
  unfolding complete_active_open_def Let_def now_established_def
  by (rule stream.pure_ack_kept, rule synchronised_stream [of S n t]) (simp_all add: frame_fields absorb_view)

lemma simultaneous_stream:
  assumes "stream_ok S n t" and "embryonic (tcb_state t)"
  shows "stream_ok S n (snd (simultaneous_open seg t))"
proof -
  have "stream_ok S n ((half_open (absorb_syn_options seg t))\<lparr>ecn_enabled := False, syn_retransmitted := True\<rparr>)"
    using assms by (rule synchronised_stream) (simp_all add: half_open_def absorb_view)
  then show ?thesis
    unfolding simultaneous_open_def Let_def
    by (intro stream.seq_kept stream.synack_kept) (simp_all add: stream.arm_rto_kept)
qed

lemma oow_rst_stream: "stream_ok S n t \<Longrightarrow> stream_ok S n (snd (oow_rst seg t))"
  using stream.oow_allowed_kept [of S n t] by (simp add: oow_rst_def stream.rst_to_kept case_prod_beta)

lemma syn_sent_stream:
  "stream_ok S n t \<Longrightarrow> tcb_state t = SynSent \<Longrightarrow> stream_ok S n (snd (on_syn_sent seg t))"
  by (simp add: on_syn_sent_def Let_def oow_rst_stream stream.abort_local_kept active_open_stream simultaneous_stream)

lemma passive_open_stream:
  assumes ok: "stream_ok S n t" and st: "tcb_state t = SynRcvd"
    and c: "\<not> seg_has seg FLAG_SYN \<Longrightarrow> sg_payload seg \<noteq> [] \<Longrightarrow> carries S n seg t"
  shows "stream_ok S n (snd (complete_passive_open seg t))"
proof -
  define u where "u = now_established ((handshake_rtt_sample seg (third_ack_window seg (syn_acked seg t)))\<lparr>syn_rcvd_retries := 0\<rparr>)"
  have fields: "tcb_state u = Established" "recv_ring u = recv_ring t" "rcv_nxt u = rcv_nxt t" "irs u = irs t"
    "tcb_ooo u = tcb_ooo t"
    by (simp_all add: u_def now_established_def frame_fields)
  have "stream_ok S n u" using ok st by (auto simp: stream_ok_def fields)
  moreover have "carries S n seg u = carries S n seg t" by (simp add: carries_def fields)
  moreover have "complete_passive_open seg t = (if seg_has seg FLAG_SYN then send_pure_ack u else on_synchronized seg u)"
    by (simp add: complete_passive_open_def Let_def u_def)
  ultimately show ?thesis using c by (simp add: stream.pure_ack_kept synchronized_stream)
qed

lemma syn_rcvd_stream:
  assumes ok: "stream_ok S n t" and st: "tcb_state t = SynRcvd"
    and c: "\<not> seg_has seg FLAG_SYN \<Longrightarrow> sg_payload seg \<noteq> [] \<Longrightarrow> carries S n seg t"
  shows "stream_ok S n (snd (on_syn_rcvd seg t))"
proof -
  have again: "stream_ok S n (snd (case oow_allowed t of (ok, t) \<Rightarrow> if ok then then_rs emit_synack (ret_rs ()) t else (Inr (), t)))"
    using stream.oow_allowed_kept [OF ok] by (auto simp: case_prod_beta intro!: stream.seq_kept stream.synack_kept)
  show ?thesis
    using ok st passive_open_stream [OF ok st c] again
    by (simp add: on_syn_rcvd_def Let_def stream.oow_ack_kept oow_rst_stream stream.reset_listen_kept stream.abort_local_kept)
qed

section \<open>Listener\<close>

lemma reset_view:
  "recv_ring (reset_connection_state t) = ring_clear (recv_ring t)" "oo_len (tcb_ooo (reset_connection_state t)) = 0"
  by (simp_all add: reset_connection_state_def)

lemma synack_out_stream: "stream_ok S n t \<Longrightarrow> stream_ok S n (synack_out t)"
  by (simp add: stream_ok_def synack_out_def arm_rto_def)

lemma stateful_stream:
  assumes "stream_ok S n t" and "embryonic (tcb_state t)"
  shows "stream_ok S n (snd (accept_syn_stateful seg t))"
proof -
  define u where "u = start_passive seg (reset_connection_state t)"
  have data: "recv_ring u = ring_clear (recv_ring t)" "oo_len (tcb_ooo u) = 0"
    by (simp_all add: u_def start_passive_def Let_def reset_view)
  have "stream_ok S n ((half_open (absorb_syn_options seg u))\<lparr>ecn_enabled := b, syn_xmit_ms := ms\<rparr>)" for b ms
    using embryonic_facts [OF assms] by (intro fresh_stream) (simp_all add: half_open_def absorb_view data)
  then show ?thesis
    unfolding accept_syn_stateful_def Let_def u_def [symmetric]
    by (intro stream.seq_kept stream.synack_kept) (simp_all add: synack_out_stream)
qed

text \<open>A segment whose text is the beginning of the stream.\<close>

definition first_text :: "(nat \<Rightarrow> u8) \<Rightarrow> segment \<Rightarrow> bool" where
  "first_text S seg \<longleftrightarrow> sg_payload seg = map S [0 ..< length (sg_payload seg)]"

lemma first_text_Nil: "sg_payload seg = [] \<Longrightarrow> first_text S seg"
  by (simp add: first_text_def)

lemma cookie_promote_stream:
  assumes "stream_ok S n t" and "embryonic (tcb_state t)"
    and c: "\<not> seg_has seg FLAG_SYN \<Longrightarrow> first_text S seg"
  shows "stream_ok S n (snd (promote_via_cookie seg copts t))"
proof -
  define v where "v = reset_connection_state t"
  define u where "u = on_established (promote_window seg (promote_opts seg copts (promote_seqs seg copts v)))"
  have data: "recv_ring v = ring_clear (recv_ring t)" "oo_len (tcb_ooo v) = 0" by (simp_all add: v_def reset_view)
  have fields: "recv_ring u = recv_ring v" "tcb_ooo u = tcb_ooo v" "irs u = sg_seq seg - 1" "rcv_nxt u = sg_seq seg"
    by (simp_all add: u_def frame_fields promote_window_def promote_seqs_def Let_def)
  note e = embryonic_facts [OF assms(1,2)]
  have "stream_ok S n u" using e by (intro fresh_stream) (simp_all add: fields data)
  moreover have "carries S n seg u" if "\<not> seg_has seg FLAG_SYN"
    unfolding carries_def Let_def
    using c [OF that] e(1) by (intro exI [of _ 0]) (auto simp: fields data first_text_def)
  ultimately have "stream_ok S n (snd (on_synchronized seg u))" by (intro synchronized_stream) simp_all
  then show ?thesis by (simp add: promote_via_cookie_def u_def v_def)
qed

definition from_peer :: "segment \<Rightarrow> tcb \<Rightarrow> bool" where
  "from_peer seg t \<longleftrightarrow> sg_src_ip seg = ep_ip (tcb_remote t) \<and> sg_src_port seg = ep_port (tcb_remote t)"

text \<open>What is asked of a packet that arrives: text from the peer carries the stream; so does, from its
  first byte, the text of a segment that a SYN cookie admits as a new connection. Nothing is asked of a
  packet with no text, of a SYN, or of any other packet.\<close>

definition genuine :: "(nat \<Rightarrow> u8) \<Rightarrow> nat \<Rightarrow> segment \<Rightarrow> tcb \<Rightarrow> bool" where
  "genuine S n seg t \<longleftrightarrow>
     (sg_payload seg \<noteq> [] \<and> \<not> seg_has seg FLAG_SYN \<longrightarrow>
        (if tcb_state t \<noteq> Listen \<and> from_peer seg t
         then receiving (tcb_state t) \<longrightarrow> carries S n seg t
         else tcb_state t \<in> {Listen, SynRcvd} \<and> validate_cookie seg t \<noteq> None \<longrightarrow>
                first_text S seg))"

lemma listen_stream:
  assumes ok: "stream_ok S n t" and st: "tcb_state t = Listen"
    and c: "\<not> seg_has seg FLAG_SYN \<Longrightarrow> validate_cookie seg t \<noteq> None \<Longrightarrow>
             first_text S seg"
  shows "stream_ok S n (snd (on_listen seg t))"
proof -
  have "stream_ok S n (snd (try_promote_via_cookie seg t))" if "\<not> seg_has seg FLAG_SYN"
    using ok st cookie_promote_stream [OF ok, of seg] c [OF that]
    by (auto simp: try_promote_via_cookie_def intro!: stream.seq_kept split: option.split)
  then have "stream_ok S n (snd (then_rs (try_promote_via_cookie seg) (ret_rs ()) t))" if "\<not> seg_has seg FLAG_SYN"
    using that by (intro stream.seq_kept) simp_all
  then show ?thesis using ok st by (simp add: on_listen_def oow_rst_stream stateful_stream)
qed

lemma busy_listener_stream:
  assumes ok: "stream_ok S n t"
    and c: "tcb_state t = SynRcvd \<Longrightarrow> \<not> seg_has seg FLAG_SYN \<Longrightarrow> validate_cookie seg t \<noteq> None \<Longrightarrow>
             first_text S seg"
  shows "stream_ok S n (snd (on_busy_listener seg t))"
proof -
  have "stream_ok S n (snd (promote_via_cookie seg copts (reset_to_listen_or_closed t)))"
    if "tcb_state t = SynRcvd" "is_listener t" "\<not> seg_has seg FLAG_SYN" "validate_cookie seg t \<noteq> None" for copts
    using c [OF that(1,3,4)] that(2) stream.reset_listen_kept [OF ok that(1)]
    by (intro cookie_promote_stream) (simp_all add: reset_to_listen_or_closed_def Let_def)
  then show ?thesis
    using ok by (simp add: on_busy_listener_def Let_def stream.cookie_synack_kept split: option.split)
qed

lemma dispatch_stream:
  assumes ok: "stream_ok S n t"
    and c: "receiving (tcb_state t) \<Longrightarrow> \<not> seg_has seg FLAG_SYN \<Longrightarrow> sg_payload seg \<noteq> [] \<Longrightarrow> carries S n seg t"
    and l: "tcb_state t = Listen \<Longrightarrow> \<not> seg_has seg FLAG_SYN \<Longrightarrow> validate_cookie seg t \<noteq> None \<Longrightarrow>
             first_text S seg"
  shows "stream_ok S n (snd (dispatch_segment seg t))"
proof -
  define u where "u = count_segs_in t"
  have view: "rx_view u = rx_view t" by (simp add: u_def handshake_frames)
  then have oku: "stream_ok S n u" and st: "tcb_state u = tcb_state t" and cu: "carries S n seg u = carries S n seg t"
    using ok stream_ok_cong [OF view] by (simp_all add: carries_def view_fields [OF view])
  have vu: "validate_cookie seg u = validate_cookie seg t"
    by (simp add: u_def count_segs_in_def validate_cookie_def issued_with_def Let_def)
  have "stream_ok S n (snd (on_synchronized seg u))" if "embryonic (tcb_state t) = False"
    using c oku st cu by (intro synchronized_stream) (auto simp: receiving_def)
  moreover have "stream_ok S n (snd (on_syn_rcvd seg u))" if "tcb_state t = SynRcvd"
    using c that oku st cu by (intro syn_rcvd_stream) auto
  moreover have "stream_ok S n (snd (on_listen seg u))" if "tcb_state t = Listen"
    using l that oku st vu by (intro listen_stream) auto
  moreover have "stream_ok S n (snd (on_syn_sent seg u))" if "tcb_state t = SynSent"
    using that oku st by (intro syn_sent_stream) auto
  ultimately show ?thesis using oku
    by (cases "tcb_state t") (simp_all add: dispatch_segment_def u_def [symmetric])
qed

lemma inject_stream:
  assumes ok: "stream_ok S n t" and g: "genuine S n seg t"
  shows "stream_ok S n (snd (inject_segment seg t))"
proof -
  have d: "stream_ok S n (snd (dispatch_segment seg t))" if "tcb_state t = Listen \<or> from_peer seg t"
  proof (rule dispatch_stream [OF ok])
    show "carries S n seg t" if "receiving (tcb_state t)" "\<not> seg_has seg FLAG_SYN" "sg_payload seg \<noteq> []"
      using that g \<open>tcb_state t = Listen \<or> from_peer seg t\<close> by (auto simp: genuine_def split: if_splits)
    show "first_text S seg"
      if "tcb_state t = Listen" "\<not> seg_has seg FLAG_SYN" "validate_cookie seg t \<noteq> None"
      using that g first_text_Nil by (auto simp: genuine_def)
  qed
  have r: "stream_ok S n (snd (dispatch_segment seg (reset_to_listen_or_closed t)))" if m: "may_replace_half_open seg t"
    using m stream.reset_listen_kept [OF ok] by (intro dispatch_stream) (simp_all add: may_replace_half_open_def)
  have b: "stream_ok S n (snd (on_busy_listener seg t))" if "\<not> from_peer seg t"
    using that g by (intro busy_listener_stream [OF ok]) (use first_text_Nil in \<open>auto simp: genuine_def\<close>)
  show ?thesis
    using ok d r b by (simp add: inject_segment_def Let_def from_peer_def [symmetric])
qed

section \<open>Reading\<close>

lemma read_stream:
  assumes ok: "stream_ok S n t" and r: "read_bytes dst t = (k, d, u)"
  shows "take k d = map S [n ..< n + k]" and "stream_ok S (n + k) u"
proof -
  obtain r' where rd: "ring_read (recv_ring t) dst = (k, d, r')" and u: "u = t\<lparr>recv_ring := r'\<rparr>"
    using r by (auto simp: read_bytes_def split: prod.splits)
  have inv: "ring_inv (recv_ring t)" and cont: "ring_contents (recv_ring t) = map S [n ..< n + rb_len (recv_ring t)]"
    using ok by (simp_all add: stream_ok_def queued_ok_def)
  note rr = ring_read_refines [OF inv rd]
  have k: "k \<le> rb_len (recv_ring t)" using rr(1) by simp
  show "take k d = map S [n ..< n + k]" using rr(1,2) k inv by (simp add: cont take_map)
  have len: "n + k + rb_len r' = n + rb_len (recv_ring t)"
    using length_ring_contents [OF rr(3)] k by (simp add: rr(4) cont)
  have "ring_contents r' = map S [n + k ..< n + k + rb_len r']" unfolding len by (simp add: rr(4) cont drop_map)
  then have "queued_ok S (n + k) r'" using ok rr(3,5) by (simp add: stream_ok_def queued_ok_def)
  moreover have "next_ok S (n + k) r' nxt isn oo" if "next_ok S n (recv_ring t) nxt isn oo" for nxt isn oo
    using that parked_ok_read [OF inv _ rd] unfolding next_ok_def len by blast
  moreover have "n = 0 \<and> rb_len (recv_ring t) = 0 \<and> oo_len (tcb_ooo t) = 0 \<Longrightarrow>
      n + k = 0 \<and> rb_len r' = 0 \<and> oo_len (tcb_ooo t) = 0" using len k by simp
  ultimately show "stream_ok S (n + k) u" using ok by (simp add: u stream_ok_def)
qed

lemma recv_returns:
  assumes "stores_ok t" and "sizes_ok t" and "tcb_error t = None" and v: "read_bytes dst t = (k, d, v)" and "0 < k"
  shows "tcb_recv dst t = (Inr k, d, snd (maybe_send_window_update (extend_fin_wait2 v)))"
proof -
  have "stores_ok (extend_fin_wait2 v)" "sizes_ok (extend_fin_wait2 v)"
    using stores.extend_fin_wait2_kept [OF stores.read_kept [OF assms(1)], of dst]
      sizes.extend_fin_wait2_kept [OF sizes.read_kept [OF assms(2)], of dst] v by simp_all
  then have "fst (maybe_send_window_update (extend_fin_wait2 v)) = Inr ()"
    by (simp add: maybe_send_window_update_def Let_def pure_ack_never_fails)
  then obtain u where "maybe_send_window_update (extend_fin_wait2 v) = (Inr (), u)" by (metis prod.collapse)
  then show ?thesis using assms(3,5) v by (simp add: tcb_recv_def)
qed

lemma recv_stream:
  assumes ok: "stream_ok S n t" and s: "stores_ok t" "sizes_ok t" and r: "tcb_recv dst t = (res, d, u)"
  shows "case res of Inr k \<Rightarrow> take k d = map S [n ..< n + k] \<and> stream_ok S (n + k) u
                   | Inl e \<Rightarrow> stream_ok S n u"
proof (cases "tcb_error t")
  case None
  obtain k d1 v where v: "read_bytes dst t = (k, d1, v)" by (metis surj_pair)
  note rd = read_stream [OF ok v]
  have "stream_ok S (n + k) (snd (maybe_send_window_update (extend_fin_wait2 v)))"
    using rd(2) by (intro stream.window_update_kept stream.extend_fin_wait2_kept)
  then show ?thesis
    using r None v rd recv_returns [OF s None v] by (cases "0 < k") (auto simp: tcb_recv_def split: if_splits)
qed (use ok r in \<open>auto simp: tcb_recv_def\<close>)

section \<open>Whole connections\<close>

text \<open>What a call returns to the reader, and what a sequence of calls returns.\<close>

fun received :: "api_call \<Rightarrow> tcb \<Rightarrow> u8 list" where
  "received (Recv dst) t = (case tcb_recv dst t of (Inr k, d, _) \<Rightarrow> take k d | (Inl e, _, _) \<Rightarrow> [])"
| "received _ t = []"

fun delivered :: "api_call list \<Rightarrow> tcb \<Rightarrow> u8 list" where
  "delivered [] t = []"
| "delivered (c # cs) t = received c t @ delivered cs (tcb_call c t)"

text \<open>A run on one connection: no further \<^verbatim>\<open>connect\<close> or \<^verbatim>\<open>listen\<close>, and every packet that arrives is
  genuine.\<close>

fun call_genuine :: "(nat \<Rightarrow> u8) \<Rightarrow> nat \<Rightarrow> api_call \<Rightarrow> tcb \<Rightarrow> bool" where
  "call_genuine S n Connect t = False"
| "call_genuine S n ListenCall t = False"
| "call_genuine S n (InjectPacket p) t = (case parse p of Inr seg \<Rightarrow> genuine S n seg t | Inl e \<Rightarrow> True)"
| "call_genuine S n (InjectTrusted p) t = (case parse_opts p False of Inr seg \<Rightarrow> genuine S n seg t | Inl e \<Rightarrow> True)"
| "call_genuine S n _ t = True"

fun run_genuine :: "(nat \<Rightarrow> u8) \<Rightarrow> nat \<Rightarrow> api_call list \<Rightarrow> tcb \<Rightarrow> bool" where
  "run_genuine S n [] t = True"
| "run_genuine S n (c # cs) t \<longleftrightarrow>
     call_genuine S n c t \<and> run_genuine S (n + length (received c t)) cs (tcb_call c t)"

lemma call_stream:
  assumes ok: "stream_ok S n t" and r: "reachable t" and g: "call_genuine S n c t"
  shows "received c t = map S [n ..< n + length (received c t)] \<and>
    stream_ok S (n + length (received c t)) (tcb_call c t)"
proof (cases "\<exists>dst. c = Recv dst")
  case True
  then obtain dst where c: "c = Recv dst" by blast
  obtain res d u where u: "tcb_recv dst t = (res, d, u)" by (metis surj_pair)
  note rs = recv_stream [OF ok stores.reachable_kept [OF r] sizes.reachable_kept [OF r] u]
  show ?thesis
  proof (cases res)
    case (Inr k)
    then have "received c t = map S [n ..< n + k]" using rs c u by simp
    then show ?thesis using rs c u Inr by simp
  qed (use rs c u in simp)
next
  case False
  then have n: "received c t = []" by (cases c) simp_all
  have "stream_ok S n (tcb_call c t)"
  proof (cases c)
    case (SendCommit k)
    then show ?thesis using ok by (simp add: send_commit_def Let_def case_prod_beta stream_ok_def)
  next
    case (Send bytes)
    then show ?thesis using ok by (simp add: tcb_send_def queue_bytes_def case_prod_beta stream_ok_def)
  qed (use ok g False stream.quiet_call_kept [OF ok, of c] inject_stream [OF ok] in
      \<open>auto simp: inject_packet_def inject_packet_l4_csum_trusted_def split: sum.splits\<close>)
  then show ?thesis by (simp add: n)
qed

lemma run_stream:
  assumes "stream_ok S n t" and "reachable t" and "run_genuine S n cs t"
  shows "delivered cs t = map S [n ..< n + length (delivered cs t)] \<and>
    stream_ok S (n + length (delivered cs t)) (fold tcb_call cs t)"
  using assms
proof (induction cs arbitrary: n t)
  case (Cons c cs)
  define m where "m = length (received c t)"
  have g: "call_genuine S n c t" "run_genuine S (n + m) cs (tcb_call c t)" using Cons.prems(3) by (simp_all add: m_def)
  note c = call_stream [OF Cons.prems(1,2) g(1), folded m_def]
  have ih: "delivered cs (tcb_call c t) = map S [n + m ..< n + m + length (delivered cs (tcb_call c t))] \<and>
      stream_ok S (n + m + length (delivered cs (tcb_call c t))) (fold tcb_call cs (tcb_call c t))"
    using c reachable.called [OF Cons.prems(2)] g(2) by (intro Cons.IH) simp_all
  have len: "length (delivered (c # cs) t) = m + length (delivered cs (tcb_call c t))" by (simp add: m_def)
  have app: "[n ..< n + (m + k)] = [n ..< n + m] @ [n + m ..< n + m + k]" for k
    using upt_add_eq_append [of n "n + m" k] by (simp add: add.assoc)
  have "delivered (c # cs) t = map S [n ..< n + (m + length (delivered cs (tcb_call c t)))]"
    unfolding app map_append using c ih by simp
  then show ?case using ih unfolding len by (simp add: add.assoc)
qed simp

lemma opened_stream:
  assumes r: "reachable t0" and cap: "ring_capacity (recv_ring t0) \<le> 2 ^ 30"
    and op: "tcb_connect t0 = (Inr (), t) \<or> tcb_listen t0 = (Inr (), t)"
  shows "stream_ok S 0 t" and "reachable t"
proof -
  have inv: "ring_inv (recv_ring t0)" using stores.reachable_kept [OF r] by (simp add: stores_ok_def)
  have q: "queued_ok S 0 (ring_clear (recv_ring t0))"
    using inv cap by (simp add: queued_ok_def ring_clear_refines)
  show "reachable t" using reachable.called [OF r, of Connect] reachable.called [OF r, of ListenCall] op by auto
  have fresh: "stream_ok S 0 u" if "recv_ring u = ring_clear (recv_ring t0)" "oo_len (tcb_ooo u) = 0"
    "\<not> receiving (tcb_state u)" for u
    using that q by (intro fresh_stream) simp_all
  have "stream_ok S 0 (start_active (reset_connection_state (not_listener t0)))"
    by (intro fresh) (simp_all add: start_active_def not_listener_def reset_view)
  then have "stream_ok S 0 (snd (tcb_connect t0))" if "tcb_state t0 = Closed"
    using that by (auto simp: tcb_connect_def synack_out_stream intro!: stream.seq_kept stream.syn_kept)
  moreover have "stream_ok S 0 (start_listen t0)"
    by (intro fresh) (simp_all add: start_listen_def reset_view)
  ultimately show "stream_ok S 0 t"
    using op by (auto simp: tcb_listen_def tcb_connect_def split: if_splits)
qed

text \<open>C1. What a reader gets is what the peer sent. Take any connection opened by a successful
  \<^verbatim>\<open>connect\<close> or \<^verbatim>\<open>listen\<close> with a receive buffer of at most \<open>2\<^sup>30\<close> bytes, any byte stream \<open>S\<close>, and any
  sequence of calls: reads into buffers of any size, writes, clock settings, ticks, and packets, lost,
  repeated, overlapping and out of order in any way, as long as the text of the packets taken for this
  connection is text of \<open>S\<close> at the position its sequence number says. Then the bytes that \<^verbatim>\<open>recv\<close> has
  returned, followed by those still queued, are the first \<open>k\<close> bytes of \<open>S\<close>: none is lost, repeated,
  reordered or altered. While the connection can still receive, \<^verbatim>\<open>RCV.NXT\<close> is the position after
  them.\<close>

theorem received_bytes_are_the_stream:
  assumes "reachable t0" and "ring_capacity (recv_ring t0) \<le> 2 ^ 30"
    and "tcb_connect t0 = (Inr (), t) \<or> tcb_listen t0 = (Inr (), t)"
    and "run_genuine S 0 cs t" and "u = fold tcb_call cs t" and "k = length (delivered cs t) + rb_len (recv_ring u)"
  shows "delivered cs t @ ring_contents (recv_ring u) = map S [0 ..< k]
    \<and> (can_recv (tcb_state u) \<longrightarrow> rcv_nxt u = irs u + 1 + of_nat k)"
proof -
  define m where "m = length (delivered cs t)"
  have r: "delivered cs t = map S [0 ..< m]" "stream_ok S m u"
    using run_stream [OF opened_stream [OF assms(1-3)] assms(4)] by (simp_all add: m_def assms(5))
  have k: "k = m + rb_len (recv_ring u)" by (simp add: assms(6) m_def)
  have "[0 ..< k] = [0 ..< m] @ [m ..< k]" unfolding k by (rule upt_add_eq_append) simp
  then show ?thesis
    using r by (auto simp: stream_ok_def queued_ok_def next_ok_def receiving_def k)
qed

section \<open>Text is taken as it comes\<close>

interpretation rxo: output_kept "\<lambda>t. recv_ring t = r" for r
  by unfold_locales (simp_all add: output_step_defs Let_def case_prod_beta split: step_splits)

interpretation hears: ack_kept "\<lambda>t. can_recv (tcb_state t)"
  by unfold_locales
    (simp_all add: can_recv_def output_step_defs ack_step_defs Let_def case_prod_beta split: step_splits, auto)

lemma absorb_ring:
  "\<exists>n. recv_ring (snd (absorb_ooo fopt t)) \<in> {recv_ring t, snd (ring_commit (recv_ring t) n)}"
  by (auto simp: absorb_ooo_def count_received_def Let_def case_prod_beta)

lemma in_order_text:
  assumes "ring_inv (recv_ring t)" and "sg_seq seg = rcv_nxt t"
    and "sg_payload seg \<noteq> []" "length (sg_payload seg) \<le> ring_free (recv_ring t)"
  shows "\<exists>more. ring_contents (recv_ring (snd (receive_payload seg fopt t))) =
    ring_contents (recv_ring t) @ sg_payload seg @ more"
proof -
  let ?b = "sg_payload seg"
  obtain k r1 where w: "ring_write (recv_ring t) ?b = (k, r1)" by (metis surj_pair)
  note wr = ring_write_refines [OF assms(1) w]
  have "ring_contents r1 = ring_contents (recv_ring t) @ ?b" using wr(1,3) assms(4) by simp
  moreover have "recv_ring (drop_covered_fin (take_in_order ?b t)) = r1"
    using w by (simp add: drop_covered_fin_def take_in_order_def count_received_def split: option.split)
  then obtain n where n: "recv_ring (snd (receive_in_order ?b fopt t)) \<in> {r1, snd (ring_commit r1 n)}"
    using absorb_ring [of fopt "drop_covered_fin (take_in_order ?b t)"] by (auto simp: receive_in_order_def)
  moreover have "\<exists>more. ring_contents (snd (ring_commit r1 n)) = ring_contents r1 @ more"
    using ring_commit_refines(3) [OF wr(2)] by (metis prod.collapse)
  moreover have "snd (receive_payload seg fopt t) = snd (receive_in_order ?b fopt t)"
  proof -
    have "trim_duplicate seg t = (Some (rcv_nxt t, ?b, False), t)"
      using assms(2) by (simp add: trim_duplicate_def seq_lt_def)
    then show ?thesis using assms(3,4) by (auto simp: receive_payload_def Let_def case_prod_beta)
  qed
  ultimately show ?thesis by auto
qed

lemma fin_ring:
  "recv_ring (snd (receive_fin l f t)) = recv_ring t" "recv_ring (snd (maybe_consume_ooo_fin t)) = recv_ring t"
  by (simp_all add: receive_fin_def maybe_consume_ooo_fin_def consume_fin_def advance_state_on_remote_fin_def
      enter_time_wait_def split: option.split state.split)

lemma delayed_ack_ring: "recv_ring (schedule_delayed_ack k t) = recv_ring t"
  using rxo.pure_ack_kept [of "count_delayed k t" "recv_ring t"]
  by (simp add: schedule_delayed_ack_def Let_def arm_delayed_ack_def count_delayed_def)

lemma accept_text_ring:
  "recv_ring (snd (accept_text seg k fin t)) = recv_ring (snd (receive_text_and_fin seg k fin t))"
proof -
  obtain a u where u: "receive_text_and_fin seg k fin t = (a, u)" by (metis surj_pair)
  show ?thesis
    unfolding accept_text_def u prod.case snd_conv
    by (rule rxo.seq_kept) (auto simp: rxo.pure_ack_kept rxo.oow_ack_kept delayed_ack_ring rxo.send_data_kept)
qed

lemma text_and_fin_ring:
  assumes "can_recv (tcb_state t)" and "k \<noteq> 0"
  shows "\<exists>fopt. recv_ring (snd (receive_text_and_fin seg k fin t)) = recv_ring (snd (receive_payload seg fopt t))"
  using assms by (auto simp: receive_text_and_fin_def Let_def case_prod_beta fin_ring word_gt_0 split: option.split)

lemma acceptable_at_edge:
  assumes "0 < ring_free (recv_ring t)" and "ring_capacity (recv_ring t) \<le> 2 ^ 30" and "l \<noteq> 0"
  shows "acceptable (rcv_nxt t) l t"
proof -
  have "unat (of_nat (ring_free (recv_ring t)) :: u32) = ring_free (recv_ring t)"
    using assms(2) by (simp add: unat_of_nat ring_free_def)
  then have "0 < (of_nat (ring_free (recv_ring t)) :: u32)" using assms(1) by (simp add: word_less_nat_alt)
  then show ?thesis using assms(3) by (auto simp: acceptable_def seq_in_range_def Let_def)
qed

lemma acceptable_ack_ring:
  assumes inv: "ring_inv (recv_ring t)" and st: "can_recv (tcb_state t)" and seq: "sg_seq seg = rcv_nxt t"
    and ne: "sg_payload seg \<noteq> []" and fit: "length (sg_payload seg) \<le> ring_free (recv_ring t)" and k: "k \<noteq> 0"
    and ack: "ack_acceptable (sg_ack seg) t"
  shows "\<exists>more. ring_contents (recv_ring (snd (on_acceptable_ack seg k fin False t))) =
    ring_contents (recv_ring t) @ sg_payload seg @ more"
proof -
  define t0 where "t0 = on_peer_alive (update_ce seg k (update_ts_recent seg t))"
  define t1 where "t1 = process_ack seg t0"
  have 0: "rx_frame t0 = rx_frame t" "tcb_state t0 = tcb_state t"
    by (simp_all add: t0_def rx_frame_def on_peer_alive_def update_ce_def update_ts_recent_def Let_def split: option.split)
  have fl: "\<not> seq_gt (sg_ack seg) (snd_nxt t0)" unfolding t0_def by (rule ack_in_flight [OF ack])
  have f: "recv_ring t1 = recv_ring t" "rcv_nxt t1 = rcv_nxt t"
    using rxf.process_ack_kept [OF 0(1) fl] by (simp_all add: t1_def rx_frame_def)
  have c: "can_recv (tcb_state t1)" using hears.process_ack_kept [OF _ fl] st 0(2) by (simp add: t1_def)
  have "snd (on_acceptable_ack seg k fin False t) = snd (accept_text seg k fin t1)"
    using c by (auto simp: on_acceptable_ack_def Let_def t1_def t0_def can_recv_def)
  moreover obtain fopt where "recv_ring (snd (receive_text_and_fin seg k fin t1)) = recv_ring (snd (receive_payload seg fopt t1))"
    using text_and_fin_ring [OF c k] by blast
  ultimately show ?thesis
    using in_order_text [of t1 seg fopt] inv seq ne fit by (simp add: accept_text_ring f)
qed

lemma counted_checks:
  "ack_acceptable ack (count_segs_in t) = ack_acceptable ack t" "paws_reject seg (count_segs_in t) = paws_reject seg t"
  by (simp_all add: count_segs_in_def ack_acceptable_def paws_reject_def max_window_def Let_def split: option.split)

text \<open>What is asked of a segment for its text to be taken at once.\<close>

definition in_order_segment :: "segment \<Rightarrow> tcb \<Rightarrow> bool" where
  "in_order_segment seg t \<longleftrightarrow>
     sg_dst_ip seg = ep_ip (tcb_local t) \<and> sg_dst_port seg = ep_port (tcb_local t) \<and> from_peer seg t
     \<and> seg_has seg FLAG_ACK \<and> \<not> seg_has seg FLAG_SYN \<and> \<not> seg_has seg FLAG_RST
     \<and> ack_acceptable (sg_ack seg) t \<and> \<not> paws_reject seg t \<and> sg_seq seg = rcv_nxt t
     \<and> sg_payload seg \<noteq> [] \<and> length (sg_payload seg) \<le> ring_free (recv_ring t)"

lemma in_order_dispatch:
  assumes "in_order_segment seg t" and "ring_capacity (recv_ring t) \<le> 2 ^ 30" and "can_recv (tcb_state t)"
  shows "inject_segment seg t =
      on_acceptable_ack seg (of_nat (length (sg_payload seg))) (seg_has seg FLAG_FIN) False (count_segs_in t)"
    and "(of_nat (length (sg_payload seg)) :: u32) \<noteq> 0"
proof -
  define u where "u = count_segs_in t"
  define k :: u32 where "k = of_nat (length (sg_payload seg))"
  define fin where "fin = seg_has seg FLAG_FIN"
  note a = assms(1) [unfolded in_order_segment_def]
  have view: "rx_view u = rx_view t" by (simp add: u_def handshake_frames)
  note f = view_fields [OF view]
  have len: "length (sg_payload seg) \<le> 2 ^ 30" using assms(2) a by (auto simp: ring_free_def)
  then have uk: "unat k = length (sg_payload seg)" by (simp add: k_def unat_of_nat)
  then have small: "unat k \<le> 2 ^ 30" using len by simp
  show "(of_nat (length (sg_payload seg)) :: u32) \<noteq> 0" using uk a by (auto simp: k_def)
  have "unat (k + u32_of_bool fin) \<noteq> 0"
    using uk small a by (cases fin) (simp_all add: u32_of_bool_def unat_word_ariths)
  then have l: "k + u32_of_bool fin + u32_of_bool False \<noteq> 0" by (auto simp: u32_of_bool_def)
  have room: "0 < ring_free (recv_ring t)" using a by (cases "sg_payload seg") auto
  have ac: "acceptable (rcv_nxt u) (k + u32_of_bool fin + u32_of_bool False) u"
    using assms(2) room by (intro acceptable_at_edge [OF _ _ l]) (simp_all add: f)
  have "on_synchronized seg u = on_acceptable_ack seg k fin False u"
    using a ac by (simp add: on_synchronized_def Let_def f k_def fin_def counted_checks [of _ t, folded u_def])
  moreover have "inject_segment seg t = on_synchronized seg u"
    using a assms(3) by (auto simp: inject_segment_def from_peer_def dispatch_segment_def can_recv_def u_def Let_def)
  ultimately show "inject_segment seg t =
      on_acceptable_ack seg (of_nat (length (sg_payload seg))) (seg_has seg FLAG_FIN) False (count_segs_in t)"
    by (simp add: u_def k_def fin_def)
qed

lemma in_order_taken:
  assumes "ring_inv (recv_ring t)" and "ring_capacity (recv_ring t) \<le> 2 ^ 30" and "can_recv (tcb_state t)"
    and "in_order_segment seg t"
  shows "\<exists>more. ring_contents (recv_ring (snd (inject_segment seg t))) =
    ring_contents (recv_ring t) @ sg_payload seg @ more"
  using acceptable_ack_ring [of "count_segs_in t" seg] in_order_dispatch [OF assms(4,2,3)] assms(1,3,4)
  by (simp add: frame_fields in_order_segment_def counted_checks)

text \<open>C6. Text that comes in order is taken at once: on a reachable connection that can receive, a segment
  of the peer at \<^verbatim>\<open>RCV.NXT\<close> with an acceptable acknowledgement, not rejected by the timestamp check, and
  text that fits the free space, has its whole text appended to the receive queue, followed by whatever
  parked text it joins.\<close>

theorem in_order_text_is_taken:
  assumes "reachable t" and "ring_capacity (recv_ring t) \<le> 2 ^ 30" and "can_recv (tcb_state t)"
    and "in_order_segment seg t"
  shows "\<exists>more. ring_contents (recv_ring (snd (inject_segment seg t))) =
    ring_contents (recv_ring t) @ sg_payload seg @ more"
  using in_order_taken [OF _ assms(2-4)] stores.reachable_kept [OF assms(1)] by (simp add: stores_ok_def)

end
