(* ===== verification/Delivery.thy ===== *)
theory Delivery
  imports Handshake Tcb_Stream
begin

text \<open>
  A connection followed from \<^verbatim>\<open>connect\<close> to the delivery of its first bytes: the witnesses of the theorems
  on the receive side.
\<close>

section \<open>The recorded error\<close>

text \<open>Only a reset or a timeout records an error.\<close>

interpretation eout: output_kept "\<lambda>t. tcb_error t = v" for v
  by unfold_locales (simp_all add: output_step_defs Let_def case_prod_beta split: step_splits)

interpretation una: output_kept "\<lambda>t. snd_una t = v" for v
  by unfold_locales (auto simp: output_step_defs Let_def case_prod_beta split: step_splits)

interpretation acked: output_kept "\<lambda>t. snd_acked t = v" for v
  by unfold_locales (simp_all add: output_step_defs Let_def case_prod_beta split: step_splits)

interpretation eack: ack_kept "\<lambda>t. tcb_error t = v" for v
  by unfold_locales (simp_all add: output_step_defs ack_step_defs Let_def case_prod_beta split: step_splits)

lemma dsack_error: "tcb_error (note_dsack l r t) = tcb_error t" "tcb_error (count_dup_bytes k t) = tcb_error t"
  by (simp_all add: note_dsack_def count_dup_bytes_def Let_def)

lemma in_order_error: "tcb_error (snd (receive_in_order bytes fopt t)) = tcb_error t"
proof -
  have "tcb_error (snd (absorb_ooo fopt u)) = tcb_error u" for u
    by (simp add: absorb_ooo_def count_received_def Let_def case_prod_beta)
  moreover have "tcb_error (drop_covered_fin u) = tcb_error u" for u
    by (simp add: drop_covered_fin_def split: option.split)
  ultimately show ?thesis
    by (simp add: receive_in_order_def take_in_order_def count_received_def case_prod_beta)
qed

lemma park_error: "tcb_error (park_out_of_order seq bytes t) = tcb_error t"
proof -
  obtain res oo' where "ooo_insert seq (seq + of_nat (length bytes)) (rcv_nxt t) (tcb_ooo t) = (res, oo')"
    by (metis surj_pair)
  then show ?thesis
    by (simp add: park_out_of_order_def Let_def dsack_error split: ooo_insert_result.split option.split)
qed

lemma payload_error: "tcb_error (snd (receive_payload seg fopt t)) = tcb_error t"
proof -
  obtain x u where u: "trim_duplicate seg t = (x, u)" by (metis surj_pair)
  have "tcb_error u = tcb_error t"
    using u by (auto simp: trim_duplicate_def Let_def dsack_error split: if_splits option.splits)
  then show ?thesis
    by (simp add: receive_payload_def u Let_def case_prod_beta in_order_error park_error split: option.split)
qed

lemma fin_error:
  "tcb_error (snd (receive_fin l f t)) = tcb_error t" "tcb_error (snd (maybe_consume_ooo_fin t)) = tcb_error t"
  by (simp_all add: receive_fin_def maybe_consume_ooo_fin_def consume_fin_def advance_state_on_remote_fin_def
      enter_time_wait_def split: option.split state.split)

lemma text_error: "tcb_error (snd (receive_text_and_fin seg k fin t)) = tcb_error t"
  by (simp add: receive_text_and_fin_def Let_def case_prod_beta fin_error payload_error split: option.split)

lemma delayed_ack_error: "tcb_error (schedule_delayed_ack k t) = tcb_error t"
  using eout.pure_ack_kept [OF refl, of "count_delayed k t"]
  by (simp add: schedule_delayed_ack_def Let_def arm_delayed_ack_def count_delayed_def)

lemma acceptable_ack_error:
  assumes "ack_acceptable (sg_ack seg) t"
  shows "tcb_error (snd (on_acceptable_ack seg k fin zwp t)) = tcb_error t"
proof -
  define t1 where "t1 = process_ack seg (on_peer_alive (update_ce seg k (update_ts_recent seg t)))"
  have e: "tcb_error t1 = tcb_error t"
    unfolding t1_def
    by (rule eack.process_ack_kept [OF _ ack_in_flight(2) [OF assms]])
      (simp add: on_peer_alive_def update_ce_def update_ts_recent_def Let_def split: option.split)
  obtain a u where u: "receive_text_and_fin seg k fin t1 = (a, u)" by (metis surj_pair)
  have "tcb_error u = tcb_error t" using text_error [of seg k fin t1] u e by simp
  then have "tcb_error (snd (accept_text seg k fin t1)) = tcb_error t"
    unfolding accept_text_def u prod.case
    by (intro eout.seq_kept) (auto simp: eout.pure_ack_kept eout.oow_ack_kept delayed_ack_error eout.send_data_kept)
  then show ?thesis
    using e by (auto simp: on_acceptable_ack_def Let_def t1_def [symmetric] intro!: eout.seq_kept
        eout.pure_ack_kept eout.send_data_kept)
qed

section \<open>From connect to the first bytes\<close>

lemma establish_error:
  "tcb_error (now_established t) = tcb_error t" "tcb_error (handshake_rtt_sample seg t) = tcb_error t"
  "tcb_error (syn_acked seg t) = tcb_error t" "tcb_error (absorb_syn_options seg t) = tcb_error t"
  "tcb_error (count_segs_in t) = tcb_error t"
  by (simp_all add: now_established_def on_established_def on_peer_alive_def handshake_rtt_sample_def
      take_rtt_sample_def update_rtt_def syn_acked_def absorb_syn_options_def absorb_ts_def absorb_ws_def
      count_segs_in_def Let_def split: option.split)

lemma client_ack_rest:
  assumes "tcb_state c = SynSent" and "snd_nxt c = iss c + 1" and "synack_seg seg m ws ts" and "sg_ack seg = iss c + 1"
    and "remote_of seg = tcb_remote c" and "sg_dst_ip seg = ep_ip (tcb_local c)" and "sg_dst_port seg = ep_port (tcb_local c)"
  shows "snd_una (snd (inject_segment seg c)) = iss c + 1" and "snd_acked (snd (inject_segment seg c)) = 1"
    and "tcb_error (snd (inject_segment seg c)) = tcb_error c"
proof -
  let ?c = "count_segs_in c"
  define y where "y = connected seg ?c"
  have has: "seg_has seg FLAG_SYN" "seg_has seg FLAG_ECE" "\<not> seg_has seg FLAG_CWR"
      "\<not> seg_has seg FLAG_RST" "seg_has seg FLAG_ACK"
    using assms(3) by (simp_all add: synack_seg_def seg_has_def flag_defs)
  have iss: "iss ?c = iss c" "snd_nxt ?c = iss c + 1" using assms(2) by (simp_all add: count_segs_in_def)
  have ack_ok: "seq_gt (sg_ack seg) (iss ?c) \<and> seq_le (sg_ack seg) (snd_nxt ?c)"
    unfolding iss assms(4) by (simp add: seq_next)
  have "complete_active_open seg ?c = send_pure_ack y"
    unfolding complete_active_open_def Let_def y_def connected_def using has by (simp only: simp_thms)
  then have i: "inject_segment seg c = send_pure_ack y"
    using has ack_ok assms(1,5-7) by (simp add: dispatched dispatch_segment_def on_syn_sent_def)
  have "iss (absorb_syn_options seg ?c) = iss c"
    by (simp add: absorb_syn_options_def absorb_ts_def absorb_ws_def count_segs_in_def Let_def split: option.split)
  then have y: "snd_una y = iss c + 1" "snd_acked y = 1" "tcb_error y = tcb_error c"
    by (simp_all add: y_def connected_def establish_keeps establish_error assms(4)) (simp_all add: syn_acked_def assms(4))
  show "snd_una (snd (inject_segment seg c)) = iss c + 1" using una.pure_ack_kept [OF refl, of y] i y(1) by simp
  show "tcb_error (snd (inject_segment seg c)) = tcb_error c" using eout.pure_ack_kept [OF refl, of y] i y(3) by simp
  show "snd_acked (snd (inject_segment seg c)) = 1" using acked.pure_ack_kept [OF refl, of y] i y(2) by simp
qed

text \<open>A packet for every segment without SACK blocks.\<close>

lemma packet_for:
  assumes "op_sack opt = sack_empty" and "length payload \<le> 1000"
  shows "\<exists>p. parse p = Inr \<lparr>sg_src_ip = ep_ip src, sg_dst_ip = ep_ip dst, sg_src_port = ep_port src,
      sg_dst_port = ep_port dst, sg_seq = seq, sg_ack = ack, sg_flags = fl, sg_window = w,
      sg_options = options_norm opt, sg_payload = payload, sg_ecn = 0\<rparr>"
proof -
  have o: "sack_ok (op_sack opt)" "options_encoded_len opt \<le> 40"
    using assms(1) by (auto simp: options_encoded_len_def options_raw_len_def align4_def sack_is_empty_def
        sack_empty_def sack_ok_def)
  then have "40 + options_encoded_len opt + length payload < 65536" using assms(2) by simp
  from parse_emitted [OF o refl this, of "ep_ip src" "ep_ip dst" "ep_port src" "ep_port dst" seq ack fl w 0 0 True]
  show ?thesis unfolding parse_def by (intro exI) simp
qed

definition example_stream :: "nat \<Rightarrow> u8" where
  "example_stream i = of_nat (i + 1)"

lemma example_established:
  "\<exists>t p c. tcb_connect example_tcb = (Inr (), t)
     \<and> c = fold tcb_call [ExtractPacket (replicate MAX_PACKET 0), InjectPacket p] t
     \<and> run_genuine S 0 [ExtractPacket (replicate MAX_PACKET 0), InjectPacket p] t
     \<and> delivered [ExtractPacket (replicate MAX_PACKET 0), InjectPacket p] t = []
     \<and> reachable c \<and> tcb_state c = Established \<and> unused c \<and> tcb_error c = None \<and> tcb_BUF c = 16
     \<and> snd_una c = snd_nxt c \<and> snd_acked c = 1 \<and> irs c = 500 \<and> rcv_nxt c = 501"
proof -
  let ?pkt = "replicate MAX_PACKET 0"
  have stores: "stores_ok example_tcb" using stores.reachable_kept [OF example_reachable] .
  obtain q c1 where c1: "tcb_connect example_tcb = (Inr (), c1)" "tx_packets (tcb_tx_ring c1) = [q]" "unused c1"
      "tcb_state c1 = SynSent"
      "settled_view c1 = ((cfg_iss example_tcb, cfg_iss example_tcb + 1, 0, 0), (tcb_local example_tcb, tcb_remote example_tcb),
        (tcb_mtu example_tcb, sat_sub (tcb_mtu example_tcb) HDR_LEN, DEFAULT_PEER_MSS), (tcb_BUF example_tcb, 0, 0),
        [False, False, False, False, False, tx_csum_offload example_tcb, egress_paused example_tcb])"
    using client_syn [OF stores example_cli(1)] by blast
  have r1: "reachable c1" using reachable.called [OF example_reachable, of Connect] c1(1) by simp
  define c2 where "c2 = tcb_call (ExtractPacket ?pkt) c1"
  have "stores_ok c1" using c1(3) by (simp add: unused_def)
  note ex = extract_one [OF this _ c1(2), of ?pkt]
  have off2: "sends_off c1 c2" and p2: "tx_packets (tcb_tx_ring c2) = []" using ex(3,4) by (simp_all add: c2_def)
  have c2: "unused c2" "tcb_state c2 = SynSent" "settled_view c2 = settled_view c1" "tcb_error c2 = tcb_error c1"
    using sends_off_unused [OF off2 c1(3)] sends_off_view [OF off2] c1(4) off2 by (auto simp: sends_off_def)
  have v: "snd_nxt c2 = iss c2 + 1" "\<not> egress_paused c2" "tcb_BUF c2 = 16"
    using c2(3) c1(5) example_cli by (simp_all add: settled_view_def)
  let ?opt = "\<lparr>op_mss = Some 1460, op_wscale = Some 0, op_ts = Some (7, 0), op_sack_permitted = True, op_sack = sack_empty\<rparr>"
  obtain p where p: "parse p = Inr \<lparr>sg_src_ip = ep_ip (tcb_remote c2), sg_dst_ip = ep_ip (tcb_local c2),
      sg_src_port = ep_port (tcb_remote c2), sg_dst_port = ep_port (tcb_local c2), sg_seq = 500, sg_ack = iss c2 + 1,
      sg_flags = FLAG_SYN OR FLAG_ACK OR FLAG_ECE, sg_window = 64, sg_options = options_norm ?opt,
      sg_payload = [], sg_ecn = 0\<rparr>" (is "_ = Inr ?seg")
    using packet_for [of ?opt "[]" "tcb_remote c2" "tcb_local c2" 500 "iss c2 + 1" "FLAG_SYN OR FLAG_ACK OR FLAG_ECE" 64]
    by auto
  have seg: "synack_seg ?seg 1460 0 (7, 0)" "sg_ack ?seg = iss c2 + 1" "remote_of ?seg = tcb_remote c2"
      "sg_dst_ip ?seg = ep_ip (tcb_local c2)" "sg_dst_port ?seg = ep_port (tcb_local c2)"
    by (simp_all add: synack_seg_def options_norm_def sack_norm_empty sack_is_empty_def sack_empty_def remote_of_def)
  define c3 where "c3 = tcb_call (InjectPacket p) c2"
  have i: "c3 = snd (inject_segment ?seg c2)" by (simp add: c3_def inject_packet_def p)
  have 3: "unused c3 \<and> tcb_state c3 = Established
      \<and> settled_view c3 = ((iss c2, iss c2 + 1, 500, 501), (tcb_local c2, tcb_remote c2),
        (tcb_mtu c2, local_mss c2, max 1460 MIN_PEER_MSS), (tcb_BUF c2, min 0 14, tcb_WS c2),
        [True, True, True, True, is_listener c2, tx_csum_offload c2, False])"
    using client_ack [OF c2(1,2) v(1,2) p2 seg] unfolding i by auto
  have una: "snd_una c3 = iss c2 + 1" "snd_acked c3 = 1" "tcb_error c3 = tcb_error c2"
    unfolding i using client_ack_rest [OF c2(2) v(1) seg] by simp_all
  have err: "tcb_error c1 = None"
  proof -
    have "tcb_error (start_active (reset_connection_state (not_listener example_tcb))) = None"
      by (simp add: start_active_def reset_connection_state_def)
    then have "tcb_error (snd (tcb_connect example_tcb)) = None"
      using example_cli(1)
      by (auto simp: tcb_connect_def synack_out_def arm_rto_def intro!: eout.seq_kept eout.syn_kept)
    then show ?thesis using c1(1) by simp
  qed
  have "run_genuine S 0 [ExtractPacket ?pkt, InjectPacket p] c1"
    using p by (simp add: c2_def [symmetric] genuine_def)
  moreover have "reachable c3" unfolding c3_def c2_def by (intro reachable.called r1)
  moreover have "c3 = fold tcb_call [ExtractPacket ?pkt, InjectPacket p] c1" by (simp add: c3_def c2_def)
  ultimately show ?thesis
    using c1(1) 3 una err c2(4) v(3)
    by (intro exI [of _ c1] exI [of _ p] exI [of _ c3]) (simp add: settled_view_def)
qed

text \<open>The data segment that follows.\<close>

lemma example_segment:
  assumes "unused c" and "tcb_BUF c = 16" and "snd_una c = snd_nxt c" and "snd_acked c = 1"
  shows "\<exists>p seg. parse p = Inr seg \<and> in_order_segment seg c \<and> sg_payload seg = [1, 2, 3] \<and> sg_seq seg = rcv_nxt c"
proof -
  obtain p where p: "parse p = Inr \<lparr>sg_src_ip = ep_ip (tcb_remote c), sg_dst_ip = ep_ip (tcb_local c),
      sg_src_port = ep_port (tcb_remote c), sg_dst_port = ep_port (tcb_local c), sg_seq = rcv_nxt c, sg_ack = snd_una c,
      sg_flags = FLAG_ACK, sg_window = 64, sg_options = options_norm options_none,
      sg_payload = [1, 2, 3], sg_ecn = 0\<rparr>" (is "_ = Inr ?seg")
    using packet_for [of options_none "[1, 2, 3]" "tcb_remote c" "tcb_local c" "rcv_nxt c" "snd_una c" FLAG_ACK 64]
    by (auto simp: options_none_def)
  have "min 1 b = 0 \<or> min 1 b = 1" for b :: u32
    by (cases "b = 0") (auto simp: min_def word_le_nat_alt unat_gt_0 Suc_le_eq)
  then have "min 1 (max_window c) = 0 \<or> min 1 (max_window c) = 1" .
  then have "ack_acceptable (snd_una c) c"
    using assms(3,4) by (auto simp: ack_acceptable_def u32_try_from_def seq_gt_def seq_lt_def)
  moreover have "ring_free (recv_ring c) = 16" 
    using assms(1,2) by (simp add: unused_def tcb_BUF_def stores_ok_def ring_free_def)
  moreover have "seg_has ?seg FLAG_ACK" "\<not> seg_has ?seg FLAG_SYN" "\<not> seg_has ?seg FLAG_RST" "\<not> paws_reject ?seg c"
    by (simp_all add: seg_has_def flag_defs paws_reject_def options_norm_def options_none_def)
  ultimately have "in_order_segment ?seg c"
    by (simp add: in_order_segment_def from_peer_def)
  then show ?thesis using p by (intro exI [of _ p] exI [of _ ?seg]) simp
qed

theorem in_order_text_is_taken_witness:
  "\<exists>c seg more. tcb_state c = Established \<and> sg_payload seg = [1, 2, 3]
     \<and> ring_contents (recv_ring (snd (inject_segment seg c))) = [1, 2, 3] @ more"
proof -
  obtain c where c: "reachable c" "tcb_state c = Established" "unused c" "tcb_BUF c = 16" "snd_una c = snd_nxt c" "snd_acked c = 1"
    using example_established by blast
  obtain seg where seg: "in_order_segment seg c" "sg_payload seg = [1, 2, 3]" using example_segment [OF c(3-6)] by blast
  have r: "ring_capacity (recv_ring c) \<le> 2 ^ 30" "ring_contents (recv_ring c) = []"
    using c(3,4) by (simp_all add: unused_def tcb_BUF_def stores_ok_def ring_contents_def)
  show ?thesis
    using in_order_text_is_taken [OF c(1) r(1) _ seg(1)] c(2) r(2) seg(2) by (auto simp: can_recv_def)
qed

theorem received_bytes_are_the_stream_witness:
  "\<exists>t p1 p2 cs. tcb_connect example_tcb = (Inr (), t)
     \<and> cs = [ExtractPacket (replicate MAX_PACKET 0), InjectPacket p1, InjectPacket p2, Recv [0, 0, 0]]
     \<and> run_genuine example_stream 0 cs t \<and> delivered cs t = map example_stream [0 ..< 3]"
proof -
  let ?S = example_stream
  obtain t p1 c where c: "tcb_connect example_tcb = (Inr (), t)"
      "c = fold tcb_call [ExtractPacket (replicate MAX_PACKET 0), InjectPacket p1] t"
      "run_genuine ?S 0 [ExtractPacket (replicate MAX_PACKET 0), InjectPacket p1] t"
      "delivered [ExtractPacket (replicate MAX_PACKET 0), InjectPacket p1] t = []"
    and r: "reachable c" "tcb_state c = Established" and u: "unused c" "tcb_BUF c = 16" "snd_una c = snd_nxt c" "snd_acked c = 1"
    and e: "tcb_error c = None" "irs c = 500" "rcv_nxt c = 501"
    using example_established [of ?S] by blast
  obtain p2 seg where seg: "parse p2 = Inr seg" "in_order_segment seg c" "sg_payload seg = [1, 2, 3]" "sg_seq seg = rcv_nxt c"
    using example_segment [OF u] by blast
  define d where "d = snd (inject_segment seg c)"
  define cs where "cs = [ExtractPacket (replicate MAX_PACKET 0), InjectPacket p1, InjectPacket p2, Recv [0, 0, 0 :: u8]]"
  have cap: "ring_capacity (recv_ring c) \<le> 2 ^ 30" "rb_len (recv_ring c) = 0"
    using u(1,2) by (simp_all add: unused_def tcb_BUF_def)
  have "carries ?S 0 seg c"
    unfolding carries_def Let_def using seg e cap
    by (intro exI [of _ 0]) (simp add: example_stream_def upt_conv_Cons)
  then have g: "genuine ?S 0 seg c" using r(2) seg(2) by (simp add: genuine_def in_order_segment_def)
  have run: "run_genuine ?S 0 cs t" using c(2,3) seg(1) g by (simp add: cs_def)
  have err: "tcb_error d = None"
    using in_order_dispatch [OF seg(2) cap(1)] r(2) e(1) seg(2)
    by (simp add: d_def acceptable_ack_error counted_checks in_order_segment_def establish_error can_recv_def)
  obtain more where "ring_contents (recv_ring d) = [1, 2, 3] @ more"
    using in_order_taken [OF _ cap(1) _ seg(2)] u(1) r(2) seg(3) cap(2)
    by (auto simp: unused_def stores_ok_def can_recv_def d_def ring_contents_def)
  moreover have dr: "reachable d" using reachable.called [OF r(1), of "InjectPacket p2"] seg(1) by (simp add: d_def inject_packet_def)
  then have inv: "ring_inv (recv_ring d)" using stores.reachable_kept by (auto simp: stores_ok_def)
  ultimately have len: "3 \<le> rb_len (recv_ring d)" using length_ring_contents [of "recv_ring d"] by simp
  obtain k b v where v: "read_bytes [0, 0, 0] d = (k, b, v)" by (metis surj_pair)
  then obtain r' where rd: "ring_read (recv_ring d) [0, 0, 0] = (k, b, r')"
    by (auto simp: read_bytes_def split: prod.splits)
  have k: "k = 3" "length b = 3" using ring_read_refines(1,2) [OF inv rd] len inv by simp_all
  have got: "length (received (Recv [0, 0, 0]) d) = 3"
    using recv_returns [OF stores.reachable_kept [OF dr] sizes.reachable_kept [OF dr] err v] k by simp
  have "delivered cs t = received (Recv [0, 0, 0]) d"
    using c(2) seg(1) by (simp add: cs_def d_def inject_packet_def)
  then have l: "length (delivered cs t) = 3" using got by simp
  have "ring_capacity (recv_ring example_tcb) \<le> 2 ^ 30" using example_cli(4) by (simp add: stores_ok_def tcb_BUF_def)
  from received_bytes_are_the_stream [OF example_reachable this disjI1 [OF c(1)] run refl refl]
  have "take 3 (delivered cs t) = take 3 (map ?S [0 ..< 3 + rb_len (recv_ring (fold tcb_call cs t))])"
    unfolding l using l by (metis take_append diff_self_eq_0 take_0 append_Nil2)
  then have "delivered cs t = map ?S [0 ..< 3]" using l by (simp add: take_map)
  then show ?thesis using c(1) run cs_def by blast
qed

end
