(* ===== verification/Ffi.thy ===== *)
theory Ffi
  imports Selftest
begin

unbundle bit_operations_syntax

text \<open>
  The C interface, \<^verbatim>\<open>ffi.rs\<close>. Handles live in storage of the host: the heap maps an address to
  the handle block there, address 0 is \<^verbatim>\<open>NULL\<close>, and a block that was never initialised has whatever
  magic word it has. A buffer pointer is \<open>None\<close> when it is \<^verbatim>\<open>NULL\<close> and otherwise the bytes the
  caller guarantees readable or writable there; out-parameters are returned with their new contents.
  Status codes are integers. The alignment of a handle is a property of the target and a parameter of
  \<^verbatim>\<open>tcp_init\<close>; the connection type is the default one of the crate, built without
  \<^verbatim>\<open>heap-buffers\<close>, so dropping a connection changes nothing but the magic word.
\<close>

section \<open>Handles\<close>

record handle =
  hd_magic :: u32
  hd_inner :: tcb

type_synonym addr = nat
type_synonym heap = "addr \<Rightarrow> handle"

definition MAGIC_LIVE :: u32 where "MAGIC_LIVE = 0x54435031"
definition MAGIC_DEAD :: u32 where "MAGIC_DEAD = 0x44454144"

definition tcp_abi_version :: u32 where "tcp_abi_version = 2"
definition tcp_max_packet :: usize where "tcp_max_packet = MAX_PACKET"
definition tcp_selftest :: "int option" where "tcp_selftest = self_conformance"

section \<open>Reading and writing through pointers\<close>

definition read_ip :: "u8 list option \<Rightarrow> ip4 option" where
  "read_ip p = map_option (\<lambda>b. (b ! 0, b ! 1, b ! 2, b ! 3)) p"

definition read16 :: "u8 list option \<Rightarrow> u8 list option" where
  "read16 p = map_option (take 16) p"

definition in_slice :: "u8 list option \<Rightarrow> usize \<Rightarrow> u8 list option" where
  "in_slice p len = (if len = 0 then Some [] else map_option (take len) p)"

definition out_slice :: "u8 list option \<Rightarrow> usize \<Rightarrow> u8 list option" where
  "out_slice p len = (if len = 0 then Some [] else map_option (take len) p)"

definition write_out :: "usize option \<Rightarrow> usize \<Rightarrow> usize option" where
  "write_out p v = map_option (\<lambda>_. v) p"

text \<open>The buffer after a method has written the slice taken from it.\<close>

definition slice_back :: "u8 list option \<Rightarrow> u8 list \<Rightarrow> u8 list option" where
  "slice_back p d = map_option (\<lambda>b. d @ drop (length d) b) p"

definition validate :: "addr \<Rightarrow> heap \<Rightarrow> tcb option" where
  "validate p h = (if p = 0 \<or> hd_magic (h p) \<noteq> MAGIC_LIVE then None else Some (hd_inner (h p)))"

definition status :: "unit result \<Rightarrow> int" where
  "status r = (case r of Inr _ \<Rightarrow> 0 | Inl e \<Rightarrow> as_code e)"

definition put_inner :: "addr \<Rightarrow> tcb \<Rightarrow> heap \<Rightarrow> heap" where
  "put_inner p t h = h(p := (h p)\<lparr>hd_inner := t\<rparr>)"

definition with_handle :: "addr \<Rightarrow> (tcb, unit) rsm \<Rightarrow> heap \<Rightarrow> int \<times> heap" where
  "with_handle p f h =
     (if p = 0 \<or> hd_magic (h p) \<noteq> MAGIC_LIVE then (as_code NullPointer, h)
      else case f (hd_inner (h p)) of (r, t) \<Rightarrow> (status r, put_inner p t h))"

text \<open>\<^verbatim>\<open>with_handle\<close> around a closure that also fills buffers of the caller.\<close>

definition with_handle_out ::
  "addr \<Rightarrow> 'b \<Rightarrow> (tcb \<Rightarrow> unit result \<times> 'b \<times> tcb) \<Rightarrow> heap \<Rightarrow> int \<times> 'b \<times> heap" where
  "with_handle_out p b f h =
     (if p = 0 \<or> hd_magic (h p) \<noteq> MAGIC_LIVE then (as_code NullPointer, b, h)
      else case f (hd_inner (h p)) of (r, b, t) \<Rightarrow> (status r, b, put_inner p t h))"

section \<open>Lifecycle\<close>

definition tcp_init ::
  "usize \<Rightarrow> addr \<Rightarrow> u8 list option \<Rightarrow> u16 \<Rightarrow> u8 list option \<Rightarrow> u16 \<Rightarrow> u32 \<Rightarrow> u32 \<Rightarrow> heap \<Rightarrow> int \<times> heap" where
  "tcp_init align storage local_ip local_port remote_ip remote_port isn initial_rto_ms h =
     (if storage = 0 then (as_code NullPointer, h)
      else if storage mod align \<noteq> 0 then (as_code InvalidState, h)
      else
        case (read_ip local_ip, read_ip remote_ip) of
          (Some lip, Some rip) \<Rightarrow>
            let cfg = \<lparr>tc_local = \<lparr>ep_ip = lip, ep_port = local_port\<rparr>,
                       tc_remote = \<lparr>ep_ip = rip, ep_port = remote_port\<rparr>,
                       tc_iss = isn, tc_initial_rto_ms = initial_rto_ms\<rparr>;
                h = h(storage := (h storage)\<lparr>hd_magic := MAGIC_DEAD\<rparr>)
            in (case tcb_init_in_place BUF_CAP RTX_QUEUE_CAP TX_RING_CAP cfg of
                  Inl e \<Rightarrow> (as_code e, h)
                | Inr t \<Rightarrow> (0, h(storage := \<lparr>hd_magic = MAGIC_LIVE, hd_inner = t\<rparr>)))
        | _ \<Rightarrow> (as_code NullPointer, h))"

definition tcp_destroy :: "addr \<Rightarrow> heap \<Rightarrow> int \<times> heap" where
  "tcp_destroy p h =
     (if p = 0 then (0, h)
      else if hd_magic (h p) \<noteq> MAGIC_LIVE then (as_code InvalidState, h)
      else (0, h(p := (h p)\<lparr>hd_magic := MAGIC_DEAD\<rparr>)))"

section \<open>Connection control\<close>

text \<open>A closure that sets the clock and then runs a method.\<close>

definition at_time :: "u64 \<Rightarrow> (tcb, unit) rsm \<Rightarrow> (tcb, unit) rsm" where
  "at_time now m t = m (set_now now t)"

definition tcp_connect :: "addr \<Rightarrow> u64 \<Rightarrow> heap \<Rightarrow> int \<times> heap" where
  "tcp_connect p now = with_handle p (at_time now tcb_connect)"

definition tcp_listen :: "addr \<Rightarrow> u64 \<Rightarrow> heap \<Rightarrow> int \<times> heap" where
  "tcp_listen p now = with_handle p (at_time now tcb_listen)"

definition tcp_set_cookie_secret :: "addr \<Rightarrow> u8 list option \<Rightarrow> heap \<Rightarrow> int \<times> heap" where
  "tcp_set_cookie_secret p secret h =
     (case read16 secret of
        None \<Rightarrow> (as_code NullPointer, h)
      | Some buf \<Rightarrow> with_handle p (modify_rs (set_cookie_secret buf)) h)"

definition tcp_set_secret :: "addr \<Rightarrow> u8 list option \<Rightarrow> heap \<Rightarrow> int \<times> heap" where
  "tcp_set_secret p secret h =
     (case read16 secret of
        None \<Rightarrow> (as_code NullPointer, h)
      | Some buf \<Rightarrow> with_handle p (modify_rs (set_secret buf)) h)"

definition tcp_set_mtu :: "addr \<Rightarrow> u16 \<Rightarrow> heap \<Rightarrow> int \<times> heap" where
  "tcp_set_mtu p mtu = with_handle p (set_mtu mtu)"

definition tcp_update_pmtu :: "addr \<Rightarrow> u64 \<Rightarrow> u16 \<Rightarrow> heap \<Rightarrow> int \<times> heap" where
  "tcp_update_pmtu p now mtu = with_handle p (at_time now (modify_rs (update_pmtu mtu)))"

definition tcp_close :: "addr \<Rightarrow> u64 \<Rightarrow> heap \<Rightarrow> int \<times> heap" where
  "tcp_close p now = with_handle p (at_time now tcb_close)"

definition tcp_set_keepalive :: "addr \<Rightarrow> u64 \<Rightarrow> u32 \<Rightarrow> u32 \<Rightarrow> u8 \<Rightarrow> heap \<Rightarrow> int \<times> heap" where
  "tcp_set_keepalive p now idle_ms intvl_ms count =
     with_handle p (at_time now (modify_rs (set_keepalive idle_ms intvl_ms count)))"

definition tcp_set_user_timeout :: "addr \<Rightarrow> u64 \<Rightarrow> u32 \<Rightarrow> heap \<Rightarrow> int \<times> heap" where
  "tcp_set_user_timeout p now ms = with_handle p (at_time now (modify_rs (set_user_timeout ms)))"

definition tcp_set_fin_wait2_timeout :: "addr \<Rightarrow> u64 \<Rightarrow> u32 \<Rightarrow> heap \<Rightarrow> int \<times> heap" where
  "tcp_set_fin_wait2_timeout p now ms =
     with_handle p (at_time now (modify_rs (set_fin_wait2_timeout ms)))"

definition tcp_abort :: "addr \<Rightarrow> u64 \<Rightarrow> heap \<Rightarrow> int \<times> heap" where
  "tcp_abort p now = with_handle p (at_time now tcb_abort)"

definition tcp_tick :: "addr \<Rightarrow> u64 \<Rightarrow> heap \<Rightarrow> int \<times> heap" where
  "tcp_tick p now = with_handle p (at_time now tcb_tick)"

section \<open>Queries\<close>

definition tcp_state :: "addr \<Rightarrow> heap \<Rightarrow> u8" where
  "tcp_state p h = (case validate p h of Some t \<Rightarrow> state_code (tcb_state t) | None \<Rightarrow> 0xFF)"

definition tcp_next_deadline :: "addr \<Rightarrow> heap \<Rightarrow> u64" where
  "tcp_next_deadline p h =
     (case validate p h of
        Some t \<Rightarrow> (case tcb_next_deadline t of Some d \<Rightarrow> d | None \<Rightarrow> - 1)
      | None \<Rightarrow> - 1)"

definition tcp_poll :: "addr \<Rightarrow> heap \<Rightarrow> u32" where
  "tcp_poll p h = (case validate p h of Some t \<Rightarrow> tcb_poll t | None \<Rightarrow> 0)"

definition tcp_get_stats :: "addr \<Rightarrow> tcb_stats option \<Rightarrow> heap \<Rightarrow> int \<times> tcb_stats option" where
  "tcp_get_stats p out h =
     (case validate p h of
        None \<Rightarrow> (as_code InvalidState, out)
      | Some t \<Rightarrow> if out = None then (as_code NullPointer, out) else (0, Some (tcb_get_stats t)))"

definition tcp_debug_snapshot :: "addr \<Rightarrow> debug_snapshot option \<Rightarrow> heap \<Rightarrow> int \<times> debug_snapshot option" where
  "tcp_debug_snapshot p out h =
     (case validate p h of
        None \<Rightarrow> (as_code InvalidState, out)
      | Some t \<Rightarrow> if out = None then (as_code NullPointer, out) else (0, Some (tcb_debug_snapshot t)))"

section \<open>Data and packets\<close>

definition tcp_send :: "addr \<Rightarrow> u8 list option \<Rightarrow> usize \<Rightarrow> usize option \<Rightarrow> heap \<Rightarrow> int \<times> usize option \<times> heap" where
  "tcp_send p data len out h =
     (case in_slice data len of
        None \<Rightarrow> (as_code NullPointer, out, h)
      | Some bytes \<Rightarrow>
          with_handle_out p out (\<lambda>t.
            case tcb_send bytes t of
              (Inl e, t) \<Rightarrow> (Inl e, out, t) | (Inr n, t) \<Rightarrow> (Inr (), write_out out n, t)) h)"

definition tcp_recv ::
  "addr \<Rightarrow> u8 list option \<Rightarrow> usize \<Rightarrow> usize option \<Rightarrow> heap \<Rightarrow> int \<times> (u8 list option \<times> usize option) \<times> heap" where
  "tcp_recv p buf cap out h =
     (case out_slice buf cap of
        None \<Rightarrow> (as_code NullPointer, (buf, out), h)
      | Some dst \<Rightarrow>
          with_handle_out p (buf, out) (\<lambda>t.
            case tcb_recv dst t of
              (Inl e, d, t) \<Rightarrow> (Inl e, (slice_back buf d, out), t)
            | (Inr n, d, t) \<Rightarrow> (Inr (), (slice_back buf d, write_out out n), t)) h)"

definition tcp_inject_packet :: "addr \<Rightarrow> u8 list option \<Rightarrow> usize \<Rightarrow> u64 \<Rightarrow> heap \<Rightarrow> int \<times> heap" where
  "tcp_inject_packet p packet len now h =
     (case in_slice packet len of
        None \<Rightarrow> (as_code NullPointer, h)
      | Some bytes \<Rightarrow> with_handle p (at_time now (inject_packet bytes)) h)"

definition tcp_extract_packet ::
  "addr \<Rightarrow> u8 list option \<Rightarrow> usize \<Rightarrow> usize option \<Rightarrow> heap \<Rightarrow> int \<times> (u8 list option \<times> usize option) \<times> heap" where
  "tcp_extract_packet p buf cap out h =
     (case out_slice buf cap of
        None \<Rightarrow> (as_code NullPointer, (buf, out), h)
      | Some dst \<Rightarrow>
          with_handle_out p (buf, out) (\<lambda>t.
            case extract_packet dst t of
              (Inl e, d, t) \<Rightarrow> (Inl e, (slice_back buf d, out), t)
            | (Inr n, d, t) \<Rightarrow> (Inr (), (slice_back buf d, write_out out n), t)) h)"

section \<open>Sequences of C calls\<close>

text \<open>One call that can change a handle, with the block it names; the queries change nothing.\<close>

datatype ffi_call =
    FInit usize "u8 list option" u16 "u8 list option" u16 u32 u32 | FDestroy | FConnect u64 | FListen u64
  | FSetCookieSecret "u8 list option" | FSetSecret "u8 list option" | FSetMtu u16 | FUpdatePmtu u64 u16
  | FClose u64 | FSetKeepalive u64 u32 u32 u8 | FSetUserTimeout u64 u32 | FSetFinWait2Timeout u64 u32
  | FAbort u64 | FTick u64 | FSend "u8 list option" usize "usize option"
  | FRecv "u8 list option" usize "usize option" | FInject "u8 list option" usize u64
  | FExtract "u8 list option" usize "usize option"

fun ffi_run :: "ffi_call \<Rightarrow> addr \<Rightarrow> heap \<Rightarrow> int \<times> heap" where
  "ffi_run (FInit al lip lp rip rp isn rto) p h = tcp_init al p lip lp rip rp isn rto h"
| "ffi_run FDestroy p h = tcp_destroy p h"
| "ffi_run (FConnect now) p h = tcp_connect p now h"
| "ffi_run (FListen now) p h = tcp_listen p now h"
| "ffi_run (FSetCookieSecret key) p h = tcp_set_cookie_secret p key h"
| "ffi_run (FSetSecret key) p h = tcp_set_secret p key h"
| "ffi_run (FSetMtu mtu) p h = tcp_set_mtu p mtu h"
| "ffi_run (FUpdatePmtu now mtu) p h = tcp_update_pmtu p now mtu h"
| "ffi_run (FClose now) p h = tcp_close p now h"
| "ffi_run (FSetKeepalive now idl ivl cnt) p h = tcp_set_keepalive p now idl ivl cnt h"
| "ffi_run (FSetUserTimeout now ms) p h = tcp_set_user_timeout p now ms h"
| "ffi_run (FSetFinWait2Timeout now ms) p h = tcp_set_fin_wait2_timeout p now ms h"
| "ffi_run (FAbort now) p h = tcp_abort p now h"
| "ffi_run (FTick now) p h = tcp_tick p now h"
| "ffi_run (FSend data len out) p h = (case tcp_send p data len out h of (c, _, h) \<Rightarrow> (c, h))"
| "ffi_run (FRecv buf cap out) p h = (case tcp_recv p buf cap out h of (c, _, h) \<Rightarrow> (c, h))"
| "ffi_run (FInject pkt len now) p h = tcp_inject_packet p pkt len now h"
| "ffi_run (FExtract buf cap out) p h = (case tcp_extract_packet p buf cap out h of (c, _, h) \<Rightarrow> (c, h))"

definition ffi_runs :: "(ffi_call \<times> addr) list \<Rightarrow> heap \<Rightarrow> heap" where
  "ffi_runs = fold (\<lambda>(c, p) h. snd (ffi_run c p h))"

fun is_init :: "ffi_call \<Rightarrow> bool" where
  "is_init (FInit al lip lp rip rp isn rto) = True"
| "is_init _ = False"

definition live :: "heap \<Rightarrow> addr \<Rightarrow> bool" where
  "live h p \<longleftrightarrow> p \<noteq> 0 \<and> hd_magic (h p) = MAGIC_LIVE"

section \<open>What the handles promise\<close>

lemmas ffi_defs = tcp_connect_def tcp_listen_def tcp_set_cookie_secret_def tcp_set_secret_def tcp_set_mtu_def
  tcp_update_pmtu_def tcp_close_def tcp_set_keepalive_def tcp_set_user_timeout_def tcp_set_fin_wait2_timeout_def
  tcp_abort_def tcp_tick_def tcp_inject_packet_def

lemmas ffi_out_defs = tcp_send_def tcp_recv_def tcp_extract_packet_def

lemma code_negative: "as_code e < 0"
  by (cases e) simp_all

lemma status_zero: "status r = 0 \<longleftrightarrow> r = Inr ()"
  by (cases r) (use code_negative in \<open>auto simp: status_def less_le\<close>)

text \<open>A call reaches only the block it names.\<close>

lemma init_elsewhere: "q \<noteq> p \<Longrightarrow> snd (tcp_init al p lip lp rip rp isn rto h) q = h q"
  by (simp add: tcp_init_def Let_def split: option.split sum.split)

lemma with_handle_elsewhere:
  "q \<noteq> p \<Longrightarrow> snd (with_handle p f h) q = h q" "q \<noteq> p \<Longrightarrow> snd (snd (with_handle_out p b g h)) q = h q"
  by (simp_all add: with_handle_def with_handle_out_def put_inner_def case_prod_beta)

lemma run_elsewhere: "q \<noteq> p \<Longrightarrow> snd (ffi_run c p h) q = h q"
  by (cases c) (simp_all add: init_elsewhere tcp_destroy_def ffi_defs ffi_out_defs with_handle_elsewhere case_prod_beta split: option.split)

lemma with_handle_dead:
  "\<not> live h p \<Longrightarrow> with_handle p f h = (as_code NullPointer, h)"
  "\<not> live h p \<Longrightarrow> with_handle_out p b g h = (as_code NullPointer, b, h)"
  by (auto simp: with_handle_def with_handle_out_def live_def)

lemma run_dead:
  assumes "\<not> live h p" and "\<not> is_init c"
  shows "snd (ffi_run c p h) = h" "fst (ffi_run c p h) < 0 \<or> c = FDestroy \<and> p = 0"
proof -
  have "\<forall>h'. tcp_destroy p h = (0, h') \<longrightarrow> p = 0" "snd (tcp_destroy p h) = h" "fst (tcp_destroy p h) < 0 \<or> p = 0"
    using assms(1) by (auto simp: tcp_destroy_def live_def)
  then show "snd (ffi_run c p h) = h" "fst (ffi_run c p h) < 0 \<or> c = FDestroy \<and> p = 0"
    using assms by (cases c; auto simp: ffi_defs ffi_out_defs with_handle_dead split: option.split)+
qed

section \<open>Live handles hold reachable connections\<close>

definition heap_ok :: "heap \<Rightarrow> bool" where
  "heap_ok h \<longleftrightarrow> (\<forall>p. live h p \<longrightarrow> reachable (hd_inner (h p)))"

lemma called_reachable:
  assumes "reachable t"
  shows "reachable (set_now now t)" "reachable (snd (tcb_connect t))" "reachable (snd (tcb_listen t))"
    and "reachable (set_cookie_secret key t)" "reachable (set_secret key t)" "reachable (snd (set_mtu mtu t))"
    and "reachable (update_pmtu mtu t)" "reachable (snd (tcb_close t))" "reachable (set_keepalive idl ivl cnt t)"
    and "reachable (set_user_timeout ms t)" "reachable (set_fin_wait2_timeout ms t)" "reachable (snd (tcb_abort t))"
    and "reachable (snd (tcb_tick t))" "reachable (snd (tcb_send d t))" "reachable (snd (snd (tcb_recv d t)))"
    and "reachable (snd (inject_packet d t))" "reachable (snd (snd (extract_packet d t)))"
  using reachable.called [OF assms, of "SetNow now"] reachable.called [OF assms, of Connect]
    reachable.called [OF assms, of ListenCall] reachable.called [OF assms, of "SetCookieSecret key"]
    reachable.called [OF assms, of "SetSecret key"] reachable.called [OF assms, of "SetMtu mtu"]
    reachable.called [OF assms, of "UpdatePmtu mtu"] reachable.called [OF assms, of Close]
    reachable.called [OF assms, of "SetKeepalive idl ivl cnt"] reachable.called [OF assms, of "SetUserTimeout ms"]
    reachable.called [OF assms, of "SetFinWait2Timeout ms"] reachable.called [OF assms, of Abort]
    reachable.called [OF assms, of Tick] reachable.called [OF assms, of "Send d"]
    reachable.called [OF assms, of "Recv d"] reachable.called [OF assms, of "InjectPacket d"]
    reachable.called [OF assms, of "ExtractPacket d"]
  by simp_all

lemma with_handle_ok:
  assumes "\<And>t. reachable t \<Longrightarrow> reachable (snd (f t))" and "heap_ok h"
  shows "heap_ok (snd (with_handle p f h))"
  using assms by (auto simp: heap_ok_def with_handle_def live_def put_inner_def case_prod_beta)

lemma with_handle_out_ok:
  assumes "\<And>t. reachable t \<Longrightarrow> reachable (snd (snd (f t)))" and "heap_ok h"
  shows "heap_ok (snd (snd (with_handle_out p b f h)))"
  using assms by (auto simp: heap_ok_def with_handle_out_def live_def put_inner_def case_prod_beta)

lemma send_closure:
  "reachable t \<Longrightarrow> reachable (snd (snd (case tcb_send d t of (Inl e, t) \<Rightarrow> (Inl e, x, t) | (Inr n, t) \<Rightarrow> (Inr (), y n, t))))"
  using called_reachable(14) [of t d] by (auto split: prod.splits sum.splits)

lemma recv_closure:
  "reachable t \<Longrightarrow> reachable (snd (snd (case tcb_recv d t of
      (Inl e, d, t) \<Rightarrow> (Inl e, x d, t) | (Inr n, d, t) \<Rightarrow> (Inr (), y d n, t))))"
  using called_reachable(15) [of t d] by (auto split: prod.splits sum.splits)

lemma extract_closure:
  "reachable t \<Longrightarrow> reachable (snd (snd (case extract_packet d t of
      (Inl e, d, t) \<Rightarrow> (Inl e, x d, t) | (Inr n, d, t) \<Rightarrow> (Inr (), y d n, t))))"
  using called_reachable(17) [of t d] by (auto split: prod.splits sum.splits)

lemma init_ok: "heap_ok h \<Longrightarrow> heap_ok (snd (tcp_init al p lip lp rip rp isn rto h))"
proof -
  have caps: "caps_valid BUF_CAP RTX_QUEUE_CAP TX_RING_CAP"
    by (simp add: caps_valid_def BUF_CAP_def RTX_QUEUE_CAP_def TX_RING_CAP_def)
  have "tcb_init_in_place BUF_CAP RTX_QUEUE_CAP TX_RING_CAP cfg = Inr t \<Longrightarrow> reachable t" for cfg t
    by (rule reachable.built [OF caps])
  then show "heap_ok h \<Longrightarrow> heap_ok (snd (tcp_init al p lip lp rip rp isn rto h))"
    by (auto simp: tcp_init_def heap_ok_def live_def Let_def MAGIC_LIVE_def MAGIC_DEAD_def
        split: option.split sum.split)
qed

lemma destroy_ok: "heap_ok h \<Longrightarrow> heap_ok (snd (tcp_destroy p h))"
  by (auto simp: tcp_destroy_def heap_ok_def live_def MAGIC_LIVE_def MAGIC_DEAD_def)

lemma out_calls_ok:
  assumes "heap_ok h"
  shows "heap_ok (snd (snd (tcp_send p data len out h)))" "heap_ok (snd (snd (tcp_recv p buf cap out h)))"
    and "heap_ok (snd (snd (tcp_extract_packet p buf cap out h)))"
  using assms
  by (auto simp: ffi_out_defs intro!: with_handle_out_ok send_closure recv_closure extract_closure split: option.split)

lemma run_ok: "heap_ok h \<Longrightarrow> heap_ok (snd (ffi_run c p h))"
  by (cases c)
    (auto simp: ffi_defs init_ok destroy_ok out_calls_ok case_prod_beta at_time_def called_reachable
       intro!: with_handle_ok split: option.split)

lemma runs_ok: "heap_ok h \<Longrightarrow> heap_ok (ffi_runs cs h)"
  unfolding ffi_runs_def by (induction cs arbitrary: h) (auto simp: run_ok)


definition example_heap :: heap where
  "example_heap = (\<lambda>_. \<lparr>hd_magic = 0, hd_inner = example_tcb\<rparr>)"

definition example_ffi :: "(ffi_call \<times> addr) list" where
  "example_ffi = [(FInit 8 (Some [10, 0, 0, 1]) 80 (Some [10, 0, 0, 2]) 4000 1000 1000, 16), (FConnect 5, 16),
     (FTick 2000, 16)]"


text \<open>C8. A destroyed handle stays destroyed: whatever calls follow on whatever blocks, as long as the
  block is not initialised again, its contents do not change, and a call on it is refused with an
  error code.\<close>

theorem destroyed_handles_stay_dead:
  assumes "p \<noteq> 0" and "\<forall>c. (c, p) \<in> set cs \<longrightarrow> \<not> is_init c" and "\<not> is_init d"
  shows "ffi_runs cs (snd (tcp_destroy p h)) p = snd (tcp_destroy p h) p
    \<and> fst (ffi_run d p (ffi_runs cs (snd (tcp_destroy p h)))) < 0"
proof -
  let ?h = "snd (tcp_destroy p h)"
  have dead: "\<not> live ?h p"
    by (auto simp: tcp_destroy_def live_def MAGIC_LIVE_def MAGIC_DEAD_def)
  have keep: "ffi_runs cs g p = g p \<and> \<not> live (ffi_runs cs g) p" if "\<not> live g p" for g
    using that assms(2)
  proof (induction cs arbitrary: g)
    case (Cons x cs)
    obtain c q where x: "x = (c, q)" by (cases x)
    have "snd (ffi_run c q g) p = g p"
      using run_elsewhere [of p q c g] run_dead(1) [OF Cons.prems(1), of c] Cons.prems(2) x by (cases "q = p") auto
    moreover have "\<not> live (snd (ffi_run c q g)) p" using calculation Cons.prems(1) by (simp add: live_def)
    ultimately show ?case using Cons.IH [of "snd (ffi_run c q g)"] Cons.prems(2) x by (simp add: ffi_runs_def)
  qed (simp add: ffi_runs_def)
  show ?thesis
    using keep [OF dead] run_dead(2) [of "ffi_runs cs ?h" p d] assms(1,3) by auto
qed

theorem destroyed_handles_stay_dead_witness:
  "fst (ffi_run (FConnect 0) 8 (ffi_runs [(FTick 5, 8), (FDestroy, 8), (FTick 6, 16)]
     (snd (tcp_destroy 8 (\<lambda>_. \<lparr>hd_magic = MAGIC_LIVE, hd_inner = example_tcb\<rparr>))))) < 0"
  using destroyed_handles_stay_dead [of 8 "[(FTick 5, 8), (FDestroy, 8), (FTick 6, 16)]" "FConnect 0"] by simp

end
