(* ===== verification/Spec2Isabelle.thy ===== *)
theory Spec2Isabelle
  imports Tcb_Deadlines Tcb_Queue Delivery Ffi
begin

text \<open>
  A verification library for \<^verbatim>\<open>tcp-sans-io\<close>, a TCP endpoint written as a pure state machine over byte
  buffers: the host hands it packets, the time and the application's bytes, and takes packets, bytes
  and the next deadline from it. Nothing in it performs input or output, so every method is modelled as
  a function on its state.

  \<^bold>\<open>The program.\<close> One connection is a \<^verbatim>\<open>Tcb\<close> (\<^verbatim>\<open>src/src/tcb/mod.rs\<close>). It owns two byte rings for the data
  of the application (\<^verbatim>\<open>ring.rs\<close>), a ring of staged outgoing packets (\<^verbatim>\<open>tx_ring.rs\<close>), the list of ranges
  received out of order (\<^verbatim>\<open>ooo.rs\<close>), the queue of segments in flight with its SACK scoreboard
  (\<^verbatim>\<open>rtx_queue.rs\<close>), loss detection (\<^verbatim>\<open>rack.rs\<close>) and congestion control (\<^verbatim>\<open>congestion.rs\<close>). A packet enters
  through \<^verbatim>\<open>inject_packet\<close>: \<^verbatim>\<open>wire.rs\<close> parses it, \<^verbatim>\<open>input.rs\<close> dispatches on the state, \<^verbatim>\<open>ack.rs\<close> processes the
  acknowledgement, and the text goes to the receive ring or is parked in its free space. \<^verbatim>\<open>output.rs\<close>
  builds segments from the send ring into the staging ring, \<^verbatim>\<open>timers.rs\<close> is run by \<^verbatim>\<open>tick\<close>, and \<^verbatim>\<open>cookie.rs\<close>
  answers SYNs without state. \<^verbatim>\<open>ffi.rs\<close> exposes a connection to C hosts by handle, and \<^verbatim>\<open>selftest.rs\<close>
  runs two connections against each other.

  \<^bold>\<open>Conventions.\<close> \<^verbatim>\<open>u8\<close> to \<^verbatim>\<open>u64\<close> are words of that width, with \<open>sat_add\<close> and its relatives for the saturating
  methods; \<^verbatim>\<open>usize\<close> is \<open>nat\<close>, with the wrap at \<open>2\<^sup>64\<close> written out where a cursor runs freely; \<^verbatim>\<open>i64\<close> is an
  \<open>int\<close> clamped to its range; sequence numbers are compared by the sign of their difference. A method
  that changes its receiver and may fail is a function from the state to a result and the new state
  (\<open>rsm\<close>), so that the state after an error is visible too. Deadlines keep the encoding of the code.

  \<^bold>\<open>The theories, in the order of the code.\<close>
  \<^item> \<^verbatim>\<open>Prelude\<close>: machine arithmetic, sequence comparison, slices, errors, the result monad. \<^verbatim>\<open>State\<close>: the
    states and the table of allowed moves (\<^verbatim>\<open>state.rs\<close>).
  \<^item> \<^verbatim>\<open>Ring\<close>: \<^verbatim>\<open>ring.rs\<close>. A locale states the contract of a byte queue with a parking area; the ring
    interprets it, and any sequence of its operations equals the same on a pair of lists. \<^verbatim>\<open>Tx_Ring\<close>:
    \<^verbatim>\<open>tx_ring.rs\<close>, a bounded list of packets.
  \<^item> \<^verbatim>\<open>Checksum\<close>, \<^verbatim>\<open>Wire\<close>: \<^verbatim>\<open>wire.rs\<close>. The checksum is that of RFC 1071 on either byte order, and parsing
    inverts emission.
  \<^item> \<^verbatim>\<open>Ooo\<close>: \<^verbatim>\<open>ooo.rs\<close>. Insertion is union of sets of offsets and keeps the ranges separated; advancing
    only passes over offsets that are held. \<^verbatim>\<open>Reassembly\<close>: the ranges and the receive ring together.
  \<^item> \<^verbatim>\<open>Rtx_Queue\<close>, \<^verbatim>\<open>Rack\<close>, \<^verbatim>\<open>Congestion\<close>, \<^verbatim>\<open>Cookie\<close>: \<^verbatim>\<open>rtx_queue.rs\<close>, \<^verbatim>\<open>rack.rs\<close>, \<^verbatim>\<open>congestion.rs\<close>,
    \<^verbatim>\<open>cookie.rs\<close>. \<^verbatim>\<open>Rtx_Size\<close>: the queue stays within its slots, and the walk over a SACK block ends.
  \<^item> \<^verbatim>\<open>Tcb\<close>: the record of a connection, its initialisation and shared helpers; \<^verbatim>\<open>Tcb_Output\<close>, \<^verbatim>\<open>Tcb_Ack\<close>,
    \<^verbatim>\<open>Tcb_Input\<close>, \<^verbatim>\<open>Tcb_Timers\<close>, \<^verbatim>\<open>Tcb_Api\<close>: \<^verbatim>\<open>output.rs\<close>, \<^verbatim>\<open>ack.rs\<close>, \<^verbatim>\<open>input.rs\<close>, \<^verbatim>\<open>timers.rs\<close> and the public
    methods of \<^verbatim>\<open>mod.rs\<close>. A method keeps its name; a long one is cut into steps at its own comments, and
    composed again under its name.
  \<^item> \<^verbatim>\<open>Tcb_Invariants\<close>, \<^verbatim>\<open>Tcb_Queue\<close>, \<^verbatim>\<open>Tcb_States\<close>, \<^verbatim>\<open>Tcb_Segments\<close>, \<^verbatim>\<open>Tcb_Deadlines\<close>, \<^verbatim>\<open>Tcb_Stream\<close>: what holds of a connection, below.
  \<^item> \<^verbatim>\<open>Selftest\<close>: \<^verbatim>\<open>selftest.rs\<close>; \<^verbatim>\<open>Handshake\<close>, \<^verbatim>\<open>Delivery\<close>: two connections from \<^verbatim>\<open>connect\<close> to the first bytes;
    \<^verbatim>\<open>Ffi\<close>: \<^verbatim>\<open>ffi.rs\<close> over a heap of handle blocks.

  \<^bold>\<open>How the connection theorems are built.\<close> Each layer of the connection has a locale over a predicate
  \<open>I\<close> on connections: \<open>emit_kept\<close> and \<open>output_kept\<close>, \<open>sack_kept\<close> and \<open>ack_kept\<close>, \<open>calm_kept\<close>, \<open>sync_kept\<close> and
  \<open>input_kept\<close>, \<open>timers_kept\<close>, \<open>quiet_kept\<close>, \<open>uncommitted_kept\<close>, \<open>api_kept\<close>, \<open>reachable_kept\<close>. Its assumptions say
  that the elementary steps of the layer keep \<open>I\<close>, under the conditions the code checks before them; its
  lemmas say that every method does. \<open>reachable\<close> is the set of connections that any host can produce:
  built, called in any way, recycled. An invariant is then one interpretation of \<open>reachable_kept\<close>. The
  predicates that hold only along one connection interpret the smaller locales and treat the remaining
  steps by hand.

  \<^bold>\<open>What is shown.\<close>
  \<^item> Data: the bytes a reader gets, with those still queued, are the first bytes of the stream of the
    peer, whatever is lost, repeated or reordered, and text that comes in order is taken at once
    (\<^verbatim>\<open>Tcb_Stream\<close>).
  \<^item> Connections: the three packets of a handshake leave both ends established and in agreement
    (\<^verbatim>\<open>Handshake\<close>); every call follows the state diagram (\<^verbatim>\<open>Tcb_States\<close>); after a tick no deadline is due,
    unless the staging ring is full (\<^verbatim>\<open>Tcb_Deadlines\<close>).
  \<^item> Packets: a data segment is one packet within the MTU that parses to what was sent, and the
    internal errors of the encoder never surface in the control calls (\<^verbatim>\<open>Tcb_Segments\<close>).
  \<^item> Invariants of every reachable connection: well-formed buffers, untouched lent space, segment sizes,
    timeouts, congestion window, TIME-WAIT, duplicate reports (\<^verbatim>\<open>Tcb_Invariants\<close>), and a
    retransmission queue within its slots (\<^verbatim>\<open>Tcb_Queue\<close>).
  \<^item> The C interface accepts only live handles and never revives a destroyed one; the self test always
    returns (\<^verbatim>\<open>Ffi\<close>, \<^verbatim>\<open>Selftest\<close>).

  \<^bold>\<open>Bounds and fuel.\<close> \<open>send_loop\<close> runs on the iteration budget that the code itself sets and stops as the
  code does when it is spent. \<open>ferry\<close>, the packet loop of the self test, is a partial function, and it is
  proved to return. The walk over a SACK block in \<^verbatim>\<open>Rtx_Queue\<close> takes twice the slots of the queue plus two
  as fuel: a turn either moves on or splits a record, which takes a free slot, and the walk is proved to
  return on any queue with no more records than slots, which every reachable connection has. The
  theorems on received data assume a receive buffer of at most \<open>2\<^sup>30\<close> bytes, the largest window that
  TCP can express; the constructor itself accepts more.

  \<^bold>\<open>Not modelled.\<close> The wrappers in other languages and the example servers under \<^verbatim>\<open>bindings\<close> drive sockets,
  threads and foreign runtimes; the fuzz targets and tests drive the library and have no behaviour of
  their own. The heap-backed constructor of a ring differs from the inline one only in failing when
  memory is short. The panic of \<^verbatim>\<open>loop_budget_exhausted\<close> exists only in test builds. The size and
  alignment of a handle are chosen by the compiler. The message strings of the debug checks are dropped;
  the conditions they check are predicates.
\<close>

end
